(* ===== verification/XRP_Prelude.thy ===== *)
theory XRP_Prelude
  imports Main "HOL-Library.Word"
begin

text \<open>
  The vocabulary the component theories share: the machine integers of the code, its error codes,
  the \<open>ALIGN\<close> macro and the page size, and the generic facts on words, rounding and intervals that
  the component proofs rest on.

  Integers keep their width.  The configuration modelled is a 32-bit host (\<open>size_t\<close>,
  \<open>unsigned long\<close> and \<open>phys_addr_t\<close> are 32 bits wide), which is what the library build of
  \<^verbatim>\<open>xrp-kernel/xrp_alloc.h\<close> fixes and what the DSP side has as well; \<open>+\<close> and \<open>-\<close> on \<open>u32\<close>
  wrap around as in C.  Arithmetic facts are stated through \<open>unat\<close>.
\<close>

unbundle bit_operations_syntax

type_synonym u8 = "8 word"
type_synonym u32 = "32 word"
type_synonym u64 = "64 word"

text \<open>
  The negative return values of the driver.  A function that returns \<open>-E\<close> or a value has the result
  type \<open>errno + 'a\<close>.
\<close>

datatype errno = EINVAL | ENOMEM | EFAULT | ENODEV | EBUSY | ENXIO | ENOENT | ERESTARTSYS

text \<open>
  \<open>ALIGN(v, a)\<close> as \<^verbatim>\<open>xrp_alloc.c\<close> defines it for the library build (line 45); the kernel's
  macro computes the same value for a power of two.
\<close>

definition ALIGN :: "u32 \<Rightarrow> u32 \<Rightarrow> u32" where
  "ALIGN v a = (v + a - 1) AND (- a)"

definition PAGE_SIZE :: u32 where
  "PAGE_SIZE = 4096"

text \<open>What the code tests with \<open>align & (align - 1)\<close>, for a non-zero value.\<close>

definition pow2 :: "u32 \<Rightarrow> bool" where
  "pow2 a \<longleftrightarrow> a \<noteq> 0 \<and> a AND (a - 1) = 0"

definition round_up :: "nat \<Rightarrow> nat \<Rightarrow> nat" where
  "round_up a n = (n + (a - 1)) div a * a"

text \<open>Theorem collections: layout offsets and encodings of the shared structures, and updates.\<close>

named_theorems layout_simps
named_theorems status_simps

subsection \<open>Words\<close>

lemma unat_lt32: "unat (x :: u32) < 4294967296"
  using unsigned_less [of x] by simp

lemma unat_neq32: "unat (x :: u32) \<noteq> 4294967296"
  by (rule less_imp_neq [OF unat_lt32])

lemma unat_add_le:
  fixes x y :: u32
  shows "unat x + unat y < 2 ^ 32 \<Longrightarrow> unat (x + y) = unat x + unat y"
  by (simp add: unat_word_ariths)

lemma word_split_low:
  fixes x :: "'a::len word"
  shows "x = (x AND NOT (mask k)) + (x AND mask k)"
proof -
  have "(x AND NOT (mask k)) + (x AND mask k) = (x AND NOT (mask k)) OR (x AND mask k)"
    by (rule disjunctive_add) (auto simp: bit_simps)
  also have "\<dots> = x"
    by (rule bit_eqI) (auto simp: bit_simps)
  finally show ?thesis by simp
qed

lemma unat_and_mask:
  fixes x :: "'a::len word"
  shows "unat (x AND mask k) = unat x mod 2 ^ k"
  by (metis take_bit_eq_mask take_bit_eq_mod unsigned_take_bit_eq)

lemma unat_and_minus_exp:
  fixes x :: "'a::len word"
  shows "unat (x AND - (2 ^ k)) = unat x - unat x mod 2 ^ k"
proof -
  have le: "x AND mask k \<le> x" by (rule word_and_le2)
  have "x AND NOT (mask k) = x - (x AND mask k)"
    using word_split_low [of x k] by (simp add: algebra_simps)
  then show ?thesis
    using le by (simp add: minus_exp_eq_not_mask unat_sub unat_and_mask)
qed

lemma nat_and_pred_pow2: "n \<noteq> 0 \<Longrightarrow> (n::nat) AND (n - 1) = 0 \<Longrightarrow> \<exists>k. n = 2 ^ k"
proof (induction n rule: less_induct)
  case (less n)
  show ?case
  proof (cases "even n")
    case True
    then obtain m where m: "n = 2 * m" by (elim evenE)
    with less.prems have m0: "m \<noteq> 0" by simp
    then have "m < n" using m by simp
    have e: "(2 * m - Suc 0) div 2 = m - Suc 0" by arith
    have "2 * (m AND (m - 1)) = n AND (n - 1)"
      using True by (subst and_rec [of n]) (simp add: m e)
    with less.prems have "m AND (m - 1) = 0" by simp
    with less.IH [OF \<open>m < n\<close> m0] obtain k where "m = 2 ^ k" by blast
    then have "n = 2 ^ Suc k" using m by simp
    then show ?thesis by blast
  next
    case False
    then obtain m where m: "n = 2 * m + 1" by (elim oddE)
    have "n AND (n - 1) = 2 * (m AND m)"
      by (subst and_rec) (simp add: m)
    with less.prems have "m = 0" by simp
    then have "n = 2 ^ 0" using m by simp
    then show ?thesis by blast
  qed
qed

lemma exp_less_32: "k < 32 \<Longrightarrow> (2::nat) ^ k < 2 ^ 32"
  by (rule power_strict_increasing) simp_all

lemma unat_exp: "k < 32 \<Longrightarrow> unat (2 ^ k :: u32) = 2 ^ k"
proof -
  assume "k < 32"
  then have "(2::nat) ^ k < 2 ^ 32" by (rule exp_less_32)
  then have "unat (word_of_nat (2 ^ k) :: u32) = 2 ^ k"
    by (subst unat_of_nat) (simp del: of_nat_power)
  then show ?thesis by simp
qed

lemma pow2_exp: "pow2 a \<Longrightarrow> \<exists>k<32. a = 2 ^ k"
proof -
  assume a: "pow2 a"
  then have ne: "a \<noteq> 0" by (simp add: pow2_def)
  then have "unat (a - 1) = unat a - 1" by (rule unat_minus_one)
  with a have "unat a AND (unat a - 1) = 0"
    by (metis pow2_def unat_0 unsigned_and_eq)
  moreover have "unat a \<noteq> 0" using ne by (simp add: unat_eq_0)
  ultimately obtain k where k: "unat a = 2 ^ k" using nat_and_pred_pow2 by blast
  have lt: "unat a < 2 ^ 32" using unsigned_less [of a] by simp
  with k have "(2::nat) ^ k < 2 ^ 32" by simp
  then have "k < 32" by (rule power_less_imp_less_exp [rotated]) simp
  moreover have "a = word_of_nat (unat a)" by simp
  then have "a = 2 ^ k" by (simp add: k)
  ultimately show ?thesis by blast
qed

lemma pow2_unat: "pow2 a \<Longrightarrow> \<exists>k<32. unat a = 2 ^ k"
  using pow2_exp unat_exp by blast

lemma pow2I: "k < 32 \<Longrightarrow> pow2 (2 ^ k)"
proof -
  assume k: "k < 32"
  have "(2 ^ k :: u32) \<noteq> 0" using unat_exp [OF k] by (metis unat_0 power_eq_0_iff zero_neq_numeral)
  moreover have "(2 ^ k :: u32) AND (2 ^ k - 1) = 0"
  proof -
    have "(2 ^ k :: u32) AND (2 ^ k - 1) = take_bit k (2 ^ k)"
      by (simp add: take_bit_eq_mask mask_eq_exp_minus_1)
    also have "\<dots> = 0" by (rule bit_eqI) (auto simp: bit_simps)
    finally show ?thesis .
  qed
  ultimately show ?thesis by (simp add: pow2_def)
qed

lemma sum_eq_iff:
  fixes a b c d :: u32
  assumes "0 < unat a + unat b" "unat a + unat b \<le> 2 ^ 32"
    and "0 < unat c + unat d" "unat c + unat d \<le> 2 ^ 32"
  shows "a + b = c + d \<longleftrightarrow> unat a + unat b = unat c + unat d"
proof -
  have "a + b = c + d \<longleftrightarrow> (unat a + unat b) mod 2 ^ 32 = (unat c + unat d) mod 2 ^ 32"
    by (simp add: word_unat_eq_iff unat_word_ariths)
  also have "\<dots> \<longleftrightarrow> unat a + unat b = unat c + unat d"
    using assms by (auto simp: mod_if split: if_splits)
  finally show ?thesis .
qed

lemma end_eq_iff:
  fixes x y z :: u32
  assumes "unat x + unat y \<le> 2 ^ 32" and "unat z \<noteq> 0 \<or> unat x + unat y < 2 ^ 32"
  shows "x + y = z \<longleftrightarrow> unat x + unat y = unat z"
proof -
  have "x + y = z \<longleftrightarrow> (unat x + unat y) mod 2 ^ 32 = unat z"
    by (simp add: word_unat_eq_iff unat_word_ariths)
  also have "\<dots> \<longleftrightarrow> unat x + unat y = unat z"
    using assms unat_lt32 [of z] by (auto simp: mod_if split: if_splits)
  finally show ?thesis .
qed

subsection \<open>Rounding and alignment\<close>

lemma round_up_less: "0 < a \<Longrightarrow> round_up a n < n + a"
  unfolding round_up_def using div_times_less_eq_dividend [of "n + (a - 1)" a] by linarith

lemma round_up_ge: "0 < a \<Longrightarrow> n \<le> round_up a n"
  unfolding round_up_def
  using div_mult_mod_eq [of "n + (a - 1)" a] mod_less_divisor [of a "n + (a - 1)"] by linarith

lemma round_up_dvd [simp]: "a dvd round_up a n"
  by (simp add: round_up_def)

lemma round_up_least:
  assumes "0 < a" and "a dvd m" and "n \<le> m"
  shows "round_up a n \<le> m"
proof -
  obtain c where c: "m = a * c" using assms(2) by blast
  have "n + (a - 1) < a * Suc c" using assms(1,3) c by simp
  then have "(n + (a - 1)) div a < Suc c" using assms(1) by (simp add: less_mult_imp_div_less mult.commute)
  then have "(n + (a - 1)) div a * a \<le> c * a" by (simp only: less_Suc_eq_le mult_le_mono1)
  then show ?thesis by (simp only: round_up_def c mult.commute)
qed

lemma round_up_id: "0 < a \<Longrightarrow> a dvd n \<Longrightarrow> round_up a n = n"
  by (simp add: le_antisym round_up_ge round_up_least)

lemma round_up_past_end:
  assumes "a dvd e" and "e < n + a" and "0 < (a::nat)"
  shows "e \<le> round_up a n"
proof (rule ccontr)
  assume *: "\<not> e \<le> round_up a n"
  have "a dvd e - round_up a n" using assms(1) by (simp add: dvd_diff_nat)
  then have "a \<le> e - round_up a n" using * by (intro dvd_imp_le) auto
  then show False using round_up_ge [OF assms(3), of n] assms(2) * by linarith
qed

lemma ALIGN_no_wrap:
  assumes "pow2 a" and "unat v + unat a \<le> 2 ^ 32"
  shows "unat (ALIGN v a) = round_up (unat a) (unat v)"
proof -
  obtain k where k: "k < 32" "a = 2 ^ k" using pow2_exp [OF assms(1)] by blast
  have ua: "unat a = 2 ^ k" using k unat_exp by simp
  have s: "unat (v + (a - 1)) = unat v + (unat a - 1)"
  proof -
    have "a \<noteq> 0" using assms(1) by (simp add: pow2_def)
    then have "unat (a - 1) = unat a - 1" by (rule unat_minus_one)
    then show ?thesis using assms(2) ua by (simp add: unat_word_ariths)
  qed
  have "ALIGN v a = (v + (a - 1)) AND - (2 ^ k)" by (simp add: ALIGN_def k add_diff_eq)
  then have "unat (ALIGN v a) = unat (v + (a - 1)) - unat (v + (a - 1)) mod 2 ^ k"
    by (simp add: unat_and_minus_exp)
  then show ?thesis by (simp add: s ua round_up_def minus_mod_eq_div_mult)
qed

lemma ALIGN_wrap:
  assumes "pow2 a" and "2 ^ 32 < unat v + unat a"
  shows "ALIGN v a = 0"
proof -
  obtain k where k: "k < 32" "a = 2 ^ k" using pow2_exp [OF assms(1)] by blast
  have ua: "unat a = 2 ^ k" using k unat_exp by simp
  have v: "unat v < 2 ^ 32" using unsigned_less [of v] by simp
  have s: "unat (v + (a - 1)) < 2 ^ k"
  proof -
    have "a \<noteq> 0" using assms(1) by (simp add: pow2_def)
    then have "unat (a - 1) = unat a - 1" by (rule unat_minus_one)
    then have "unat (v + (a - 1)) = (unat v + (unat a - 1)) mod 2 ^ 32"
      by (simp add: unat_word_ariths)
    also have "\<dots> = unat v + (unat a - 1) - 2 ^ 32"
      using assms(2) v exp_less_32 [OF k(1)] ua by (simp add: mod_if)
    also have "\<dots> < 2 ^ k" using v assms(2) ua by linarith
    finally show ?thesis .
  qed
  have "ALIGN v a = (v + (a - 1)) AND - (2 ^ k)" by (simp add: ALIGN_def k add_diff_eq)
  then have "unat (ALIGN v a) = unat (v + (a - 1)) - unat (v + (a - 1)) mod 2 ^ k"
    by (simp add: unat_and_minus_exp)
  then show ?thesis using s by (simp add: unat_eq_0)
qed

declare unat_lt32 [simp] unat_neq32 [simp]

lemma pow2_PAGE_SIZE: "pow2 PAGE_SIZE"
  by (simp add: pow2_def PAGE_SIZE_def)

lemma unat_PAGE_SIZE [simp]: "unat PAGE_SIZE = 4096"
  by (simp add: PAGE_SIZE_def)

lemma ALIGN_page_pow2:
  assumes "pow2 a"
  shows "pow2 (ALIGN a PAGE_SIZE) \<and> unat (ALIGN a PAGE_SIZE) = max 4096 (unat a)"
proof -
  obtain k where k: "k < 32" "unat a = 2 ^ k" using pow2_unat [OF assms] by blast
  have "unat a \<le> 2 ^ 31" unfolding k(2) using k(1) by (intro power_increasing) auto
  then have r: "unat (ALIGN a PAGE_SIZE) = round_up 4096 (unat a)"
    using ALIGN_no_wrap [OF pow2_PAGE_SIZE, of a] by simp
  show ?thesis
  proof (cases "k \<le> 12")
    case True
    then have "unat a \<le> 2 ^ 12" unfolding k(2) by (intro power_increasing) auto
    moreover have "0 < unat a" using k(2) by simp
    ultimately have "round_up 4096 (unat a) = 4096" "unat a \<le> 4096" by (simp_all add: round_up_def)
    with r have "unat (ALIGN a PAGE_SIZE) = unat PAGE_SIZE" "unat a \<le> 4096" by simp_all
    then show ?thesis using pow2_PAGE_SIZE by (metis max.absorb1 unat_PAGE_SIZE unsigned_word_eqI)
  next
    case False
    then have "(2::nat) ^ 12 dvd unat a" unfolding k(2) by (intro le_imp_power_dvd) simp
    then have d: "4096 dvd unat a" by simp
    then have "round_up 4096 (unat a) = unat a" by (simp add: round_up_id)
    with r have "ALIGN a PAGE_SIZE = a" by (intro unsigned_word_eqI) simp
    moreover have "4096 \<le> unat a" using d k(2) by (intro dvd_imp_le) auto
    ultimately show ?thesis using assms by simp
  qed
qed

subsection \<open>Intervals\<close>

lemma ivl_disjoint_iff:
  fixes a b c d :: nat
  shows "a < b \<Longrightarrow> c < d \<Longrightarrow> {a..<b} \<inter> {c..<d} = {} \<longleftrightarrow> b \<le> c \<or> d \<le> a"
  by (auto simp: disjoint_iff)

end
