(* ===== verification/XRP_Interface.thy ===== *)
theory XRP_Interface
  imports XRP_Prelude
begin

text \<open>
  What the host and the DSP share: the status and access codes of \<^verbatim>\<open>xrp_api.h\<close>, the layout of the
  communication area of \<^verbatim>\<open>xrp-kernel/xrp_kernel_dsp_interface.h\<close>, and the memory it lives in.

  Memory is a function from 32-bit addresses to bytes; words are little endian on both sides.  The
  lemmas give a closed form of every write, so that a read of a field after a sequence of writes is
  decided by its offset.
\<close>

subsection \<open>API codes\<close>

datatype xrp_status = XRP_STATUS_SUCCESS | XRP_STATUS_FAILURE | XRP_STATUS_PENDING

definition XRP_READ :: u32 where
  "XRP_READ = 1"

definition XRP_WRITE :: u32 where
  "XRP_WRITE = 2"

definition XRP_READ_WRITE :: u32 where
  "XRP_READ_WRITE = 3"

subsection \<open>The communication area\<close>

text \<open>Values of the synchronisation word.\<close>

definition XRP_DSP_SYNC_IDLE :: u32 where
  "XRP_DSP_SYNC_IDLE = 0"

definition XRP_DSP_SYNC_HOST_TO_DSP :: u32 where
  "XRP_DSP_SYNC_HOST_TO_DSP = 1"

definition XRP_DSP_SYNC_DSP_TO_HOST :: u32 where
  "XRP_DSP_SYNC_DSP_TO_HOST = 3"

definition XRP_DSP_SYNC_START :: u32 where
  "XRP_DSP_SYNC_START = 0x101"

definition XRP_DSP_SYNC_DSP_READY :: u32 where
  "XRP_DSP_SYNC_DSP_READY = 0x203"

lemmas sync_defs = XRP_DSP_SYNC_IDLE_def XRP_DSP_SYNC_HOST_TO_DSP_def XRP_DSP_SYNC_DSP_TO_HOST_def
  XRP_DSP_SYNC_START_def XRP_DSP_SYNC_DSP_READY_def

definition XRP_DSP_BUFFER_FLAG_READ :: u32 where
  "XRP_DSP_BUFFER_FLAG_READ = 1"

definition XRP_DSP_BUFFER_FLAG_WRITE :: u32 where
  "XRP_DSP_BUFFER_FLAG_WRITE = 2"

definition XRP_DSP_CMD_FLAG_REQUEST_VALID :: u32 where
  "XRP_DSP_CMD_FLAG_REQUEST_VALID = 1"

definition XRP_DSP_CMD_FLAG_RESPONSE_VALID :: u32 where
  "XRP_DSP_CMD_FLAG_RESPONSE_VALID = 2"

definition XRP_DSP_CMD_FLAG_REQUEST_NSID :: u32 where
  "XRP_DSP_CMD_FLAG_REQUEST_NSID = 4"

definition XRP_DSP_CMD_FLAG_RESPONSE_DELIVERY_FAIL :: u32 where
  "XRP_DSP_CMD_FLAG_RESPONSE_DELIVERY_FAIL = 8"

lemmas cmd_flag_defs = XRP_DSP_CMD_FLAG_REQUEST_VALID_def XRP_DSP_CMD_FLAG_RESPONSE_VALID_def
  XRP_DSP_CMD_FLAG_REQUEST_NSID_def XRP_DSP_CMD_FLAG_RESPONSE_DELIVERY_FAIL_def

definition XRP_DSP_CMD_INLINE_DATA_SIZE :: u32 where
  [layout_simps]: "XRP_DSP_CMD_INLINE_DATA_SIZE = 16"

definition XRP_DSP_CMD_INLINE_BUFFER_COUNT :: u32 where
  [layout_simps]: "XRP_DSP_CMD_INLINE_BUFFER_COUNT = 1"

definition XRP_DSP_CMD_NAMESPACE_ID_SIZE :: nat where
  [layout_simps]: "XRP_DSP_CMD_NAMESPACE_ID_SIZE = 16"

text \<open>The offsets of the fields of \<open>struct xrp_dsp_cmd\<close>, and its size.\<close>

definition off_flags :: u32 where [layout_simps]: "off_flags = 0"

definition off_in_data_size :: u32 where [layout_simps]: "off_in_data_size = 4"

definition off_out_data_size :: u32 where [layout_simps]: "off_out_data_size = 8"

definition off_buffer_size :: u32 where [layout_simps]: "off_buffer_size = 12"

definition off_in_data :: u32 where [layout_simps]: "off_in_data = 16"

definition off_out_data :: u32 where [layout_simps]: "off_out_data = 32"

definition off_buffer_data :: u32 where [layout_simps]: "off_buffer_data = 48"

definition off_nsid :: u32 where [layout_simps]: "off_nsid = 64"

definition sizeof_dsp_cmd :: nat where [layout_simps]: "sizeof_dsp_cmd = 80"

text \<open>The same for \<open>struct xrp_dsp_buffer\<close>.\<close>

definition off_b_flags :: u32 where [layout_simps]: "off_b_flags = 0"

definition off_b_size :: u32 where [layout_simps]: "off_b_size = 4"

definition off_b_addr :: u32 where [layout_simps]: "off_b_addr = 8"

definition sizeof_dsp_buffer :: u32 where [layout_simps]: "sizeof_dsp_buffer = 12"

subsection \<open>Memory\<close>

type_synonym mem = "u32 \<Rightarrow> u8"

fun write_bytes :: "mem \<Rightarrow> u32 \<Rightarrow> u8 list \<Rightarrow> mem" where
  "write_bytes m a [] = m"
| "write_bytes m a (b # bs) = write_bytes (m(a := b)) (a + 1) bs"

definition read_bytes :: "mem \<Rightarrow> u32 \<Rightarrow> nat \<Rightarrow> u8 list" where
  "read_bytes m a n = map (\<lambda>i. m (a + of_nat i)) [0..<n]"

definition bytes_of32 :: "u32 \<Rightarrow> u8 list" where
  "bytes_of32 v = [ucast v, ucast (drop_bit 8 v), ucast (drop_bit 16 v), ucast (drop_bit 24 v)]"

definition of_bytes32 :: "u8 list \<Rightarrow> u32" where
  "of_bytes32 bs = foldr (\<lambda>b v. ucast b OR push_bit 8 v) bs 0"

definition write32 :: "mem \<Rightarrow> u32 \<Rightarrow> u32 \<Rightarrow> mem" where
  "write32 m a v = write_bytes m a (bytes_of32 v)"

definition read32 :: "mem \<Rightarrow> u32 \<Rightarrow> u32" where
  "read32 m a = of_bytes32 (read_bytes m a 4)"

text \<open>
  \<open>apart a k b l\<close>: the \<open>k\<close> bytes from \<open>a\<close> and the \<open>l\<close> bytes from \<open>b\<close> have no address in common (both
  ranges are taken modulo \<open>2 ^ 32\<close>).
\<close>

definition apart :: "u32 \<Rightarrow> nat \<Rightarrow> u32 \<Rightarrow> nat \<Rightarrow> bool" where
  "apart a k b l \<longleftrightarrow> (k \<le> unat (b - a) \<or> k = 0 \<or> l = 0) \<and> (l \<le> unat (a - b) \<or> k = 0 \<or> l = 0)"

subsection \<open>Lemmas\<close>

lemma length_read_bytes [simp]: "length (read_bytes m a n) = n"
  by (simp add: read_bytes_def)

lemma length_bytes_of32 [simp]: "length (bytes_of32 v) = 4"
  by (simp add: bytes_of32_def)

lemma of_bytes_of32 [simp]: "of_bytes32 (bytes_of32 v) = v"
proof (rule bit_eqI)
  fix n assume "possible_bit TYPE(u32) n"
  then have n: "n < 32" by simp
  show "bit (of_bytes32 (bytes_of32 v)) n = bit v n"
  proof (cases "24 \<le> n")
    case True
    with n show ?thesis by (auto simp: of_bytes32_def bytes_of32_def bit_simps)
  next
    case False
    then show ?thesis by (cases "16 \<le> n") (auto simp: of_bytes32_def bytes_of32_def bit_simps not_le)
  qed
qed

lemma write_bytes_apply:
  "length bs \<le> 2 ^ 32 \<Longrightarrow>
     write_bytes m a bs x = (if unat (x - a) < length bs then bs ! unat (x - a) else m x)"
proof (induction bs arbitrary: m a)
  case (Cons b bs)
  show ?case
  proof (cases "x = a")
    case True
    have "unat (a - (a + 1)) = 2 ^ 32 - 1"
      by (simp add: unsigned_minus_1_eq_mask mask_eq_exp_minus_1)
    with Cons show ?thesis by (simp add: True)
  next
    case False
    then have "x - a \<noteq> 0" by simp
    then have "unat (x - (a + 1)) = unat (x - a) - 1" "0 < unat (x - a)"
      by (simp_all add: unat_minus_one diff_diff_eq [symmetric] unat_gt_0)
    with Cons False show ?thesis by (auto simp: nth_Cons')
  qed
qed simp

lemma read_write_bytes:
  "length bs \<le> 2 ^ 32 \<Longrightarrow> n = length bs \<Longrightarrow> read_bytes (write_bytes m a bs) a n = bs"
  by (rule nth_equalityI) (simp_all add: read_bytes_def write_bytes_apply unat_of_nat)

lemma unat_minus32:
  fixes x :: u32
  assumes "x \<noteq> 0"
  shows "unat (- x) = 2 ^ 32 - unat x"
proof -
  have "(unat (- x) + unat x) mod 2 ^ 32 = unat (- x + x)" by (simp only: unat_word_ariths) simp
  then have "4294967296 dvd unat (- x) + unat x" by (simp add: mod_eq_0_iff_dvd)
  then obtain q where q: "unat (- x) + unat x = 4294967296 * q" ..
  have "q < 2" using q unat_lt32 [of "- x"] unat_lt32 [of x] by linarith
  moreover have "0 < unat x" using assms by (simp add: unat_gt_0)
  then have "q \<noteq> 0" using q by (intro notI) simp
  ultimately have "q = 1" by simp
  with q show ?thesis by simp
qed

lemma apart_disjoint:
  assumes "apart a k b l" and "i < l" and "l \<le> 2 ^ 32" and "k \<le> 2 ^ 32"
  shows "k \<le> unat (b + of_nat i - a)"
proof (rule ccontr)
  let ?x = "b + of_nat i"
  assume no: "\<not> k \<le> unat (?x - a)"
  with assms have k: "k \<le> unat (b - a)" "l \<le> unat (a - b)" by (auto simp: apart_def)
  have i: "unat (of_nat i :: u32) = i" using assms(2,3) by (simp add: unat_of_nat)
  show False
  proof (cases "unat (b - a) + i < 2 ^ 32")
    case True
    then have "unat ((b - a) + of_nat i) = unat (b - a) + i" using i by (subst unat_add_le) simp_all
    with no k show False by (simp add: algebra_simps)
  next
    case False
    moreover have "b - a \<noteq> 0" using k(2) assms(2) by auto
    then have "unat (a - b) = 2 ^ 32 - unat (b - a)" using unat_minus32 [of "b - a"] by simp
    ultimately show False using k assms(2) by simp
  qed
qed

text \<open>Two ranges at offsets of one base address.\<close>

lemma apart_offsets:
  assumes "x + k \<le> y" and "y + l \<le> 2 ^ 32"
  shows "apart (p + of_nat x) k (p + of_nat y) l"
proof (cases "k = 0 \<or> l = 0")
  case False
  define n where "n = y - x"
  have y: "y = x + n" "0 < n" "n < 2 ^ 32" using False assms by (auto simp: n_def)
  have d: "(p + of_nat y) - (p + of_nat x) = (of_nat n :: u32)" "(p + of_nat x) - (p + of_nat y) = - (of_nat n :: u32)"
    by (simp_all add: y(1))
  have u: "unat (of_nat n :: u32) = n" using y(3) by (simp add: unat_of_nat)
  then have "of_nat n \<noteq> (0 :: u32)" using y(2) by auto
  then have "unat (- of_nat n :: u32) = 2 ^ 32 - n" by (simp add: unat_minus32 u)
  moreover have "k \<le> n" "l \<le> 2 ^ 32 - n" using assms y(1) by linarith+
  ultimately show ?thesis using u unfolding apart_def d by simp
qed (auto simp: apart_def)

lemma apart_within:
  assumes "apart p n a l" and "x + k \<le> n"
  shows "apart (p + of_nat x) k a l"
proof (cases "k = 0 \<or> l = 0")
  case False
  with assms have d: "n \<le> unat (a - p)" "l \<le> unat (p - a)" by (auto simp: apart_def)
  have "x < 4294967296" using assms(2) d(1) unat_lt32 [of "a - p"] by linarith
  then have x: "unat (of_nat x :: u32) = x" by (simp add: unat_of_nat)
  have "a - p \<noteq> 0" using False d assms(2) by (auto simp: unat_eq_0)
  then have s: "unat (p - a) + unat (a - p) = 4294967296"
    using unat_minus32 [of "a - p"] less_imp_le [OF unat_lt32 [of "a - p"]] by simp
  have "unat ((a - p) - of_nat x) = unat (a - p) - x"
    using x d(1) assms(2) False by (subst unat_sub) (auto simp: word_le_nat_alt)
  then have "k \<le> unat (a - (p + of_nat x))" using d(1) assms(2) by (simp add: diff_diff_eq)
  moreover have "unat (p - a) + x < 4294967296" using s d(1) assms(2) False by linarith
  then have "unat ((p - a) + of_nat x) = unat (p - a) + x" using x by (subst unat_add_le) simp_all
  then have "l \<le> unat (p + of_nat x - a)" using d(2) by (simp add: algebra_simps)
  ultimately show ?thesis by (simp add: apart_def)
qed (auto simp: apart_def)

lemma apart_sym: "apart a k b l \<Longrightarrow> apart b l a k"
  by (auto simp: apart_def)

lemma apart_sub: "apart a k b l \<Longrightarrow> k' \<le> k \<Longrightarrow> apart a k' b l"
  by (auto simp: apart_def)

text \<open>A read is not affected by a write to other addresses.\<close>

lemma read_write_apart:
  assumes "apart a (length bs) b l" and "l \<le> 2 ^ 32" and "length bs \<le> 2 ^ 32"
  shows "read_bytes (write_bytes m a bs) b l = read_bytes m b l"
proof (rule nth_equalityI)
  fix i assume "i < length (read_bytes (write_bytes m a bs) b l)"
  then have i: "i < l" by simp
  then have "length bs \<le> unat (b + of_nat i - a)" using apart_disjoint assms by blast
  with i assms(3) show "read_bytes (write_bytes m a bs) b l ! i = read_bytes m b l ! i"
    by (simp add: read_bytes_def write_bytes_apply)
qed simp

lemma read32_write_apart [simp]:
  "apart a (length bs) b 4 \<Longrightarrow> length bs \<le> 2 ^ 32 \<Longrightarrow> read32 (write_bytes m a bs) b = read32 m b"
  by (simp add: read32_def read_write_apart)

lemma read32_write32_same [simp]: "read32 (write32 m a v) a = v"
  by (simp add: read32_def write32_def read_write_bytes)

lemma read32_write32_apart [simp]: "apart a 4 b 4 \<Longrightarrow> read32 (write32 m a v) b = read32 m b"
  by (simp add: write32_def)

lemma read_bytes_write32_apart [simp]:
  "apart a 4 b l \<Longrightarrow> l \<le> 2 ^ 32 \<Longrightarrow> read_bytes (write32 m a v) b l = read_bytes m b l"
  by (simp add: write32_def read_write_apart)

lemma write32_apply_apart: "4 \<le> unat (x - a) \<Longrightarrow> write32 m a v x = m x"
  by (simp add: write32_def write_bytes_apply)

lemma read32_zero [simp]: "read32 (\<lambda>_. 0) a = 0"
  by (simp add: read32_def read_bytes_def of_bytes32_def upt_rec)

end
