(* ===== verification/XRP_Hw.thy ===== *)
theory XRP_Hw
  imports XRP_Interface
begin

text \<open>
  The simple hardware back ends: \<^verbatim>\<open>xrp-kernel/xrp_hw_simple.c\<close> on the host and
  \<^verbatim>\<open>xrp-dsp/xrp_dsp_hw_simple.c\<close> on the DSP, with the structure they exchange,
  \<^verbatim>\<open>xrp-kernel/xrp_hw_simple_dsp_interface.h\<close>.

  A register access is an element of a trace of writes (physical address, value); \<open>regs\<close> is the kernel's
  mapping of the register block at \<open>regs_phys\<close>, so a write through it is a write to
  \<open>regs_phys + offset\<close>.  What the platform code returns to \<open>init_hw\<close> (the resource, the properties and
  the interrupt of the device tree) is a parameter.  The interrupt controller and the wait instruction
  of the DSP are not modelled; waiting changes no state of the program.

  Shown: the DSP reconstructs from the synchronisation data exactly the configuration of the host, so
  that both sides use the same register, bit and mode for each interrupt.
\<close>

subsection \<open>Data\<close>

datatype xrp_irq_mode = XRP_IRQ_NONE | XRP_IRQ_LEVEL | XRP_IRQ_EDGE

definition XRP_IRQ_MAX :: u32 where
  "XRP_IRQ_MAX = 3"

text \<open>The enumeration value stored for a mode, and the mode the DSP's table \<open>irq_mode\<close> has for a value.\<close>

fun irq_mode_code :: "xrp_irq_mode \<Rightarrow> u32" where
  "irq_mode_code XRP_IRQ_NONE = 0"
| "irq_mode_code XRP_IRQ_LEVEL = 1"
| "irq_mode_code XRP_IRQ_EDGE = 2"

definition irq_mode_of :: "u32 \<Rightarrow> xrp_irq_mode" where
  "irq_mode_of v = (if v = 1 then XRP_IRQ_LEVEL else if v = 2 then XRP_IRQ_EDGE else XRP_IRQ_NONE)"

type_synonym mmio_write = "u32 \<times> u32"

text \<open>\<open>struct xrp_hw_simple\<close>; the arrays \<open>device_irq\<close> and \<open>host_irq\<close> are their elements.\<close>

record xrp_hw_simple =
  regs_phys :: u32
  regs :: bool
  h_device_irq_mode :: xrp_irq_mode
  device_irq_offset :: u32
  device_irq_bit :: u32
  device_irq_no :: u32
  device_irq_host_offset :: u32
  h_host_irq_mode :: xrp_irq_mode
  host_irq_offset :: u32
  host_irq_bit :: u32

text \<open>The static variables of the DSP's back end.\<close>

record dsp_hw =
  mmio_base :: u32
  d_host_irq_mode :: xrp_irq_mode
  d_device_irq_mode :: xrp_irq_mode
  d_device_irq_offset :: u32
  d_device_irq_bit :: u32
  d_device_irq :: u32
  d_host_irq_offset :: u32
  d_host_irq_bit :: u32

text \<open>The words of \<open>struct xrp_hw_simple_sync_data\<close> in the order of the structure.\<close>

definition hw_sync_words :: "xrp_hw_simple \<Rightarrow> u32 list" where
  "hw_sync_words hw =
     [regs_phys hw, irq_mode_code (h_host_irq_mode hw), host_irq_offset hw, host_irq_bit hw,
      irq_mode_code (h_device_irq_mode hw), device_irq_offset hw, device_irq_bit hw, device_irq_no hw]"

subsection \<open>Host operations\<close>

definition XRP_REG_RESET :: u32 where
  "XRP_REG_RESET = 0x04"

definition XRP_REG_RUNSTALL :: u32 where
  "XRP_REG_RUNSTALL = 0x08"

definition reg_write32 :: "xrp_hw_simple \<Rightarrow> u32 \<Rightarrow> u32 \<Rightarrow> mmio_write list" where
  "reg_write32 hw addr v = (if regs hw then [(regs_phys hw + addr, v)] else [])"

text \<open>The bytes of the synchronisation data, or \<open>None\<close> if \<open>kmalloc\<close> failed.\<close>

definition get_hw_sync_data :: "bool \<Rightarrow> xrp_hw_simple \<Rightarrow> u8 list option" where
  "get_hw_sync_data alloc_ok hw =
     (if alloc_ok then Some (concat (map bytes_of32 (hw_sync_words hw))) else None)"

definition hw_reset :: "xrp_hw_simple \<Rightarrow> mmio_write list" where
  "hw_reset hw = reg_write32 hw XRP_REG_RESET 1 @ reg_write32 hw XRP_REG_RESET 0"

definition hw_halt :: "xrp_hw_simple \<Rightarrow> mmio_write list" where
  "hw_halt hw = reg_write32 hw XRP_REG_RUNSTALL 1"

definition hw_release :: "xrp_hw_simple \<Rightarrow> mmio_write list" where
  "hw_release hw = reg_write32 hw XRP_REG_RUNSTALL 0"

definition BIT :: "u32 \<Rightarrow> u32" where
  "BIT n = push_bit (unat n) 1"

definition send_irq :: "xrp_hw_simple \<Rightarrow> mmio_write list" where
  "send_irq hw =
     (case h_device_irq_mode hw of
        XRP_IRQ_EDGE \<Rightarrow> reg_write32 hw (device_irq_host_offset hw) 0 @
          reg_write32 hw (device_irq_host_offset hw) (BIT (device_irq_bit hw))
      | XRP_IRQ_LEVEL \<Rightarrow> reg_write32 hw (device_irq_host_offset hw) (BIT (device_irq_bit hw))
      | XRP_IRQ_NONE \<Rightarrow> [])"

definition ack_irq :: "xrp_hw_simple \<Rightarrow> mmio_write list" where
  "ack_irq hw = (if h_host_irq_mode hw = XRP_IRQ_LEVEL then reg_write32 hw (host_irq_offset hw) 0 else [])"

text \<open>\<open>handled\<close> is the result of \<open>xrp_irq_handler\<close>, which this handler calls first.\<close>

definition irq_handler :: "bool \<Rightarrow> xrp_hw_simple \<Rightarrow> mmio_write list" where
  "irq_handler handled hw = (if handled then ack_irq hw else [])"

text \<open>
  What the platform code gives to \<open>init_hw\<close>: the start of the memory resource, the properties
  that are present, whether there is an interrupt, and the error of requesting it (if any).
\<close>

record hw_platform =
  mem_start :: "u32 option"
  p_device_irq :: "(u32 \<times> u32 \<times> u32) option"
  p_device_irq_host_offset :: "u32 option"
  p_device_irq_mode :: "u32 option"
  p_host_irq :: "(u32 \<times> u32) option"
  p_host_irq_mode :: "u32 option"
  p_irq_ok :: bool
  request_irq :: "errno option"

text \<open>
  The two halves of \<open>init_hw\<close>.  \<open>stale\<close> is what the local variable \<open>device_irq_mode\<close> (\<open>host_irq_mode\<close>)
  holds when its property cannot be read: the code tests the variable before the return code.  The
  boolean result is whether \<open>ret\<close> is zero afterwards.
\<close>

definition init_device_irq :: "u32 \<Rightarrow> hw_platform \<Rightarrow> xrp_hw_simple \<Rightarrow> bool \<times> xrp_hw_simple" where
  "init_device_irq stale pl hw =
     (case p_device_irq pl of
        None \<Rightarrow> (False, hw)
      | Some (off, bit_no, irq) \<Rightarrow>
          let hw = hw\<lparr>device_irq_offset := off, device_irq_bit := bit_no, device_irq_no := irq,
                      device_irq_host_offset :=
                        (case p_device_irq_host_offset pl of Some o' \<Rightarrow> o' | None \<Rightarrow> off)\<rparr>;
              v = (case p_device_irq_mode pl of Some v \<Rightarrow> v | None \<Rightarrow> stale)
          in if v < XRP_IRQ_MAX then (p_device_irq_mode pl \<noteq> None, hw\<lparr>h_device_irq_mode := irq_mode_of v\<rparr>)
             else (False, hw))"

definition init_host_irq :: "u32 \<Rightarrow> hw_platform \<Rightarrow> xrp_hw_simple \<Rightarrow> bool \<times> xrp_hw_simple" where
  "init_host_irq stale pl hw =
     (case p_host_irq pl of
        None \<Rightarrow> (False, hw)
      | Some (off, bit_no) \<Rightarrow>
          let hw = hw\<lparr>host_irq_offset := off, host_irq_bit := bit_no\<rparr>;
              v = (case p_host_irq_mode pl of Some v \<Rightarrow> v | None \<Rightarrow> stale)
          in if v < XRP_IRQ_MAX then (p_host_irq_mode pl \<noteq> None, hw\<lparr>h_host_irq_mode := irq_mode_of v\<rparr>)
             else (False, hw))"

text \<open>
  The result is the error, or the hardware and whether the host uses interrupts
  (\<open>hw->xrp.host_irq_mode\<close>).  \<open>hw\<close> starts zeroed.
\<close>

definition init_hw :: "u32 \<Rightarrow> u32 \<Rightarrow> hw_platform \<Rightarrow> xrp_hw_simple \<Rightarrow> errno + xrp_hw_simple \<times> bool" where
  "init_hw stale1 stale2 pl hw =
     (case mem_start pl of
        None \<Rightarrow> Inl ENODEV
      | Some start \<Rightarrow>
          let hw = hw\<lparr>regs_phys := start, regs := True\<rparr>;
              (_, hw) = init_device_irq stale1 pl hw;
              (ok, hw) = init_host_irq stale2 pl hw
          in if p_irq_ok pl \<and> ok then
               case request_irq pl of None \<Rightarrow> Inr (hw, True) | Some e \<Rightarrow> Inl e
             else Inr (hw, False))"

subsection \<open>DSP operations\<close>

definition xrp_irq_handler_dsp :: "dsp_hw \<Rightarrow> mmio_write list" where
  "xrp_irq_handler_dsp hw =
     (if d_device_irq_mode hw = XRP_IRQ_LEVEL then [(mmio_base hw + d_device_irq_offset hw, 0)] else [])"

definition xrp_hw_send_host_irq :: "dsp_hw \<Rightarrow> mmio_write list" where
  "xrp_hw_send_host_irq hw =
     (case d_host_irq_mode hw of
        XRP_IRQ_EDGE \<Rightarrow> [(mmio_base hw + d_host_irq_offset hw, 0),
          (mmio_base hw + d_host_irq_offset hw, BIT (d_host_irq_bit hw))]
      | XRP_IRQ_LEVEL \<Rightarrow> [(mmio_base hw + d_host_irq_offset hw, BIT (d_host_irq_bit hw))]
      | XRP_IRQ_NONE \<Rightarrow> [])"

definition xrp_hw_set_sync_data :: "mem \<Rightarrow> u32 \<Rightarrow> dsp_hw \<Rightarrow> dsp_hw" where
  "xrp_hw_set_sync_data m p hw =
     (let hw = hw\<lparr>mmio_base := read32 m p\<rparr>;
          hw = (if read32 m (p + 16) < 3
                then hw\<lparr>d_device_irq_mode := irq_mode_of (read32 m (p + 16)),
                        d_device_irq_offset := read32 m (p + 20),
                        d_device_irq_bit := read32 m (p + 24),
                        d_device_irq := read32 m (p + 28)\<rparr>
                else hw\<lparr>d_device_irq_mode := XRP_IRQ_NONE\<rparr>)
      in if read32 m (p + 4) < 3
         then hw\<lparr>d_host_irq_mode := irq_mode_of (read32 m (p + 4)),
                 d_host_irq_offset := read32 m (p + 8),
                 d_host_irq_bit := read32 m (p + 12)\<rparr>
         else hw\<lparr>d_host_irq_mode := XRP_IRQ_NONE\<rparr>)"

subsection \<open>Specification\<close>

text \<open>The configuration the DSP should have for the hardware of the host.\<close>

definition hw_config :: "xrp_hw_simple \<Rightarrow> dsp_hw" where
  "hw_config hw =
    \<lparr>mmio_base = regs_phys hw, d_host_irq_mode = h_host_irq_mode hw, d_device_irq_mode = h_device_irq_mode hw,
     d_device_irq_offset = device_irq_offset hw, d_device_irq_bit = device_irq_bit hw,
     d_device_irq = device_irq_no hw, d_host_irq_offset = host_irq_offset hw, d_host_irq_bit = host_irq_bit hw\<rparr>"

subsection \<open>Lemmas\<close>

lemma irq_mode_code_lt [simp]: "irq_mode_code k < 3" and irq_mode_of_code [simp]: "irq_mode_of (irq_mode_code k) = k"
  by (cases k; simp add: irq_mode_of_def)+

text \<open>Reading one of the words of an array that was written in one piece.\<close>

lemma write_words_Cons:
  "write_bytes m a (bytes_of32 w @ bs) = write_bytes (write32 m a w) (a + 4) bs"
  by (simp add: write32_def bytes_of32_def add.commute [of a])

lemma length_concat_words [simp]: "length (concat (map bytes_of32 ws)) = 4 * length ws"
  by (induction ws) simp_all

lemma read32_word:
  assumes "i < length ws" and "4 * length ws \<le> 2 ^ 32"
  shows "read32 (write_bytes m a (concat (map bytes_of32 ws))) (a + of_nat (4 * i)) = ws ! i"
  using assms
proof (induction ws arbitrary: m a i)
  case (Cons w ws)
  let ?bs = "concat (map bytes_of32 ws)"
  have len: "4 + 4 * length ws \<le> 2 ^ 32" using Cons.prems(2) by simp
  show ?case
  proof (cases i)
    case 0
    have "unat (a - (a + 4)) = 2 ^ 32 - 4"
      by simp
    then have "apart (a + 4) (length ?bs) a 4" using len by (simp add: apart_def)
    then have "read32 (write_bytes (write32 m a w) (a + 4) ?bs) a = w" using len by simp
    then show ?thesis using 0 by (simp add: write_words_Cons)
  next
    case (Suc j)
    have "read32 (write_bytes (write32 m a w) (a + 4) ?bs) (a + 4 + of_nat (4 * j)) = ws ! j"
      using Cons.IH [of j] Cons.prems Suc by simp
    then show ?thesis using Suc by (simp add: write_words_Cons add.assoc)
  qed
qed simp

lemma set_sync_data_words:
  assumes "\<forall>i<8. read32 m (p + of_nat (4 * i)) = hw_sync_words hw ! i"
  shows "xrp_hw_set_sync_data m p d = hw_config hw"
proof -
  have w: "read32 m (p + of_nat (4 * i)) = hw_sync_words hw ! i" if "i < 8" for i using assms that by blast
  have r: "read32 m p = regs_phys hw" "read32 m (p + 4) = irq_mode_code (h_host_irq_mode hw)"
    "read32 m (p + 8) = host_irq_offset hw" "read32 m (p + 12) = host_irq_bit hw"
    "read32 m (p + 16) = irq_mode_code (h_device_irq_mode hw)" "read32 m (p + 20) = device_irq_offset hw"
    "read32 m (p + 24) = device_irq_bit hw" "read32 m (p + 28) = device_irq_no hw"
    using w [of 0] w [of 1] w [of 2] w [of 3] w [of 4] w [of 5] w [of 6] w [of 7]
    by (simp_all add: hw_sync_words_def)
  show ?thesis unfolding xrp_hw_set_sync_data_def r Let_def by (simp add: hw_config_def)
qed

lemma set_sync_data_roundtrip:
  assumes "get_hw_sync_data True hw = Some bs"
  shows "xrp_hw_set_sync_data (write_bytes m p bs) p d = hw_config hw"
proof -
  have bs: "bs = concat (map bytes_of32 (hw_sync_words hw))" using assms by (simp add: get_hw_sync_data_def)
  have "read32 (write_bytes m p bs) (p + of_nat (4 * i)) = hw_sync_words hw ! i" if "i < 8" for i
    unfolding bs by (rule read32_word) (use that in \<open>simp_all add: hw_sync_words_def\<close>)
  then show ?thesis by (intro set_sync_data_words) blast
qed

subsection \<open>Properties\<close>

text \<open>A device with an edge triggered device interrupt and a level triggered host interrupt.\<close>

definition sample_hw :: xrp_hw_simple where
  "sample_hw = \<lparr>regs_phys = 0xfd000000, regs = True, h_device_irq_mode = XRP_IRQ_EDGE,
     device_irq_offset = 0x10, device_irq_bit = 3, device_irq_no = 1, device_irq_host_offset = 0x10,
     h_host_irq_mode = XRP_IRQ_LEVEL, host_irq_offset = 0x14, host_irq_bit = 5\<rparr>"



text \<open>
  If the mode property of the device interrupt is missing, the driver announces polling but uses
  whatever the uninitialised variable holds.
\<close>

lemma init_device_irq_uninitialised:
  "p_device_irq pl = Some (off, b, irq) \<Longrightarrow> p_device_irq_mode pl = None \<Longrightarrow>
     fst (init_device_irq 2 pl hw) = False \<and> h_device_irq_mode (snd (init_device_irq 2 pl hw)) = XRP_IRQ_EDGE"
  by (simp add: init_device_irq_def XRP_IRQ_MAX_def irq_mode_of_def Let_def)

end
