(* ===== verification/XRP_Comm.thy ===== *)
theory XRP_Comm
  imports XRP_Interface
begin

text \<open>
  The accessors of the communication area in \<^verbatim>\<open>xrp-kernel/xvp_main.c\<close> (lines 128--177 and 297--318).  The area is
  device memory and is accessed in whole 32-bit words; \<open>xrp_comm_write\<close> and \<open>xrp_comm_read\<close> move byte
  arrays of any size through it, the last word possibly in part.

  Shown: they transfer exactly the bytes of the array; a write of a size that is not a multiple of four
  also clears the rest of the last word, and nothing else is touched.
\<close>

subsection \<open>Operations\<close>

definition xrp_comm_write32 :: "mem \<Rightarrow> u32 \<Rightarrow> u32 \<Rightarrow> mem" where
  "xrp_comm_write32 m addr v = write32 m addr v"

definition xrp_comm_read32 :: "mem \<Rightarrow> u32 \<Rightarrow> u32" where
  "xrp_comm_read32 m addr = read32 m addr"

fun xrp_comm_write :: "mem \<Rightarrow> u32 \<Rightarrow> u8 list \<Rightarrow> mem" where
  "xrp_comm_write m addr (b0 # b1 # b2 # b3 # p) =
     xrp_comm_write (xrp_comm_write32 m addr (of_bytes32 [b0, b1, b2, b3])) (addr + 4) p"
| "xrp_comm_write m addr [] = m"
| "xrp_comm_write m addr p = xrp_comm_write32 m addr (of_bytes32 p)"

fun xrp_comm_read :: "mem \<Rightarrow> u32 \<Rightarrow> nat \<Rightarrow> u8 list" where
  "xrp_comm_read m addr (Suc (Suc (Suc (Suc sz)))) =
     bytes_of32 (xrp_comm_read32 m addr) @ xrp_comm_read m (addr + 4) sz"
| "xrp_comm_read m addr 0 = []"
| "xrp_comm_read m addr sz = take sz (bytes_of32 (xrp_comm_read32 m addr))"

text \<open>
  Whether the command in the area is answered, and the interrupt handler of the driver: \<open>comm\<close> is \<open>None\<close>
  for the null pointer; the result is whether the interrupt was handled, and the completion.
\<close>

definition xrp_cmd_complete :: "mem \<Rightarrow> u32 \<Rightarrow> bool" where
  "xrp_cmd_complete m comm \<longleftrightarrow>
     xrp_comm_read32 m (comm + off_flags) AND
       (XRP_DSP_CMD_FLAG_REQUEST_VALID OR XRP_DSP_CMD_FLAG_RESPONSE_VALID) =
     XRP_DSP_CMD_FLAG_REQUEST_VALID OR XRP_DSP_CMD_FLAG_RESPONSE_VALID"

definition xrp_irq_handler :: "mem \<Rightarrow> u32 option \<Rightarrow> bool \<Rightarrow> bool \<times> bool" where
  "xrp_irq_handler m comm completion =
     (case comm of
        None \<Rightarrow> (False, completion)
      | Some c \<Rightarrow> if xrp_cmd_complete m c then (True, True) else (False, completion))"

subsection \<open>Specification\<close>

text \<open>The array filled up with zeros to whole words.\<close>

definition pad4 :: "u8 list \<Rightarrow> u8 list" where
  "pad4 p = p @ replicate (round_up 4 (length p) - length p) 0"

subsection \<open>Lemmas\<close>

lemma bytes_of_bytes32 [simp]: "bytes_of32 (of_bytes32 [a, b, c, d]) = [a, b, c, d]"
  by (auto simp: bytes_of32_def of_bytes32_def bit_eq_iff bit_simps dest: bit_imp_le_length)

lemma of_bytes32_pad [simp]: "of_bytes32 (p @ replicate n 0) = of_bytes32 p"
proof -
  have "foldr (\<lambda>b v. ucast b OR push_bit 8 v) (replicate n (0 :: u8)) (0 :: u32) = 0"
    by (induction n) simp_all
  then show ?thesis by (simp add: of_bytes32_def)
qed

lemma read_bytes_0 [simp]: "read_bytes m a 0 = []"
  by (simp add: read_bytes_def)

lemma bytes_of_read32: "bytes_of32 (read32 m a) = read_bytes m a 4"
  by (simp add: read32_def read_bytes_def upt_rec)

lemma read_bytes_append: "read_bytes m a (k + n) = read_bytes m a k @ read_bytes m (a + of_nat k) n"
proof (rule nth_equalityI)
  fix i assume "i < length (read_bytes m a (k + n))"
  then have "i < k \<or> (k \<le> i \<and> i - k < n)" by simp linarith
  then show "read_bytes m a (k + n) ! i = (read_bytes m a k @ read_bytes m (a + of_nat k) n) ! i"
    by (auto simp: read_bytes_def nth_append of_nat_diff)
qed simp

lemma take_read_bytes: "k \<le> n \<Longrightarrow> take k (read_bytes m a n) = read_bytes m a k"
  by (simp add: read_bytes_def take_map min_absorb1)

lemma comm_read_bytes: "xrp_comm_read m a n = read_bytes m a n"
proof (induction m a n rule: xrp_comm_read.induct)
  case (1 m a n)
  then show ?case using read_bytes_append [of m a 4 n]
    by (simp add: xrp_comm_read32_def bytes_of_read32 numeral_eq_Suc)
qed (simp_all add: xrp_comm_read32_def bytes_of_read32 take_read_bytes)

lemma write_bytes_append: "write_bytes m a (xs @ ys) = write_bytes (write_bytes m a xs) (a + of_nat (length xs)) ys"
  by (induction xs arbitrary: m a) (simp_all add: ac_simps)

lemma round_up_4: "round_up 4 (Suc (Suc (Suc (Suc n)))) = 4 + round_up 4 n"
proof -
  have "Suc (Suc (Suc (Suc n))) + (4 - 1) = n + (4 - 1) + 4" by simp
  then show ?thesis unfolding round_up_def by (simp only: div_add_self2 div_add_self1) simp
qed

lemma replicate_short: "replicate 2 x = [x, x]" "replicate 3 x = [x, x, x]"
  by (simp_all add: numeral_2_eq_2 numeral_3_eq_3)

lemma pad4_short: "pad4 [u] = [u, 0, 0, 0]" "pad4 [u, v] = [u, v, 0, 0]" "pad4 [u, v, w] = [u, v, w, 0]"
  by (simp_all add: pad4_def round_up_def replicate_short)

lemma comm_write_short:
  "xrp_comm_write m a [u] = xrp_comm_write32 m a (of_bytes32 [u, 0, 0, 0])"
  "xrp_comm_write m a [u, v] = xrp_comm_write32 m a (of_bytes32 [u, v, 0, 0])"
  "xrp_comm_write m a [u, v, w] = xrp_comm_write32 m a (of_bytes32 [u, v, w, 0])"
  by (simp_all add: of_bytes32_def)

lemma comm_write_bytes: "xrp_comm_write m a p = write_bytes m a (pad4 p)"
proof (induction m a p rule: xrp_comm_write.induct)
  case (1 m a b0 b1 b2 b3 p)
  have "pad4 (b0 # b1 # b2 # b3 # p) = [b0, b1, b2, b3] @ pad4 p"
    by (simp add: pad4_def round_up_4)
  moreover have l: "of_nat (length [b0, b1, b2, b3]) = (4 :: u32)" by simp
  ultimately show ?case
    using 1 by (simp only: write_bytes_append l xrp_comm_write.simps xrp_comm_write32_def write32_def bytes_of_bytes32)
next
  case (2 m a)
  then show ?case by (simp add: pad4_def round_up_def)
qed (unfold pad4_short comm_write_short, simp_all add: xrp_comm_write32_def write32_def)

lemma length_pad4: "length (pad4 p) = round_up 4 (length p)"
  using round_up_ge [of 4 "length p"] by (simp add: pad4_def)

subsection \<open>Properties\<close>

text \<open>
  C29: What is written into the communication area is read back unchanged, whatever its size and
  alignment, and a write changes no byte behind the end of the last word.
\<close>

theorem comm_roundtrip:
  assumes "round_up 4 (length p) \<le> 2 ^ 32"
  shows "xrp_comm_read (xrp_comm_write m addr p) addr (length p) = p \<and>
    (\<forall>x. round_up 4 (length p) \<le> unat (x - addr) \<longrightarrow> xrp_comm_write m addr p x = m x)"
proof -
  have "take (length p) (read_bytes (write_bytes m addr (pad4 p)) addr (length (pad4 p))) = p"
    using assms by (simp add: read_write_bytes length_pad4) (simp add: pad4_def)
  then have "xrp_comm_read (xrp_comm_write m addr p) addr (length p) = p"
    using round_up_ge [of 4 "length p"]
    by (simp add: comm_read_bytes comm_write_bytes take_read_bytes length_pad4)
  then show ?thesis using assms by (simp add: comm_write_bytes write_bytes_apply length_pad4)
qed

theorem comm_roundtrip_witness:
  "xrp_comm_read (xrp_comm_write (\<lambda>_. 0xff) 0x1010 [1, 2, 3, 4, 5]) 0x1010 5 = [1, 2, 3, 4, 5] \<and>
   xrp_comm_write (\<lambda>_. 0xff) 0x1010 [1, 2, 3, 4, 5] 0x1018 = 0xff"
proof -
  have "length [1, 2, 3, 4, 5 :: u8] = 5" by simp
  moreover have "round_up 4 5 = 8" by (simp add: round_up_def)
  ultimately show ?thesis
    using comm_roundtrip [of "[1, 2, 3, 4, 5]" "\<lambda>_. 0xff" "0x1010"]
    by (simp del: xrp_comm_write.simps xrp_comm_read.simps list.size)
qed

end
