(* ===== verification/XRP_Handshake.thy ===== *)
theory XRP_Handshake
  imports XRP_Hw XRP_Comm
begin

text \<open>
  The synchronisation of host and DSP after a boot: \<open>xrp_synchronize\<close> of \<^verbatim>\<open>xrp-kernel/xvp_main.c\<close>
  (lines 232--295) and \<open>do_handshake\<close> of \<^verbatim>\<open>xrp-dsp/xrp_dsp.c\<close> (lines 440--476) run at the same time on the
  two processors and communicate through the word \<open>sync\<close> and the array \<open>hw_sync_data\<close> at the start of the
  communication area.

  Model: an interleaving of atomic steps, one per access to shared memory or per interrupt.  The
  program counters \<open>host_pc\<close> and \<open>dsp_pc\<close> are the places in the two functions.  A read in a waiting loop
  that does not end the loop changes nothing and is not a step.  The deadline of the host is a
  nondeterministic step (\<open>hs_fault\<close>) that is possible whenever the last read did not see the awaited
  value; so is the failure of the memory allocation.  The memory order is the program order, which the
  code enforces with \<open>mb()\<close> and with acquire and release accesses.

  Shown, by an invariant over all interleavings: the DSP never uses partly written configuration data,
  never takes a word of the handshake for a command, and a host that reports success has a DSP with its
  configuration; without a timeout every run ends, after a bounded number of steps, in success.
\<close>

subsection \<open>State\<close>

datatype host_pc =
    H_start | H_wait_ready | H_data nat | H_wait_reply | H_irq | H_wait_irq | H_finish bool | H_done bool

datatype dsp_pc =
    D_dispatch | D_wait_start | D_ready | D_wait_host | D_data | D_reply | D_wait_irq | D_irq

record hs_state =
  hs_mem :: mem
  hpc :: host_pc
  dpc :: dsp_pc
  hs_dsp :: dsp_hw
  hs_dev_irq :: bool
  hs_host_irq :: bool
  hs_completion :: bool

text \<open>
  What does not change during the handshake: the address of the communication area, the host's
  hardware, and whether the driver waits for an interrupt (\<open>xvp->host_irq_mode\<close>).
\<close>

record hs_env =
  e_comm :: u32
  e_hw :: xrp_hw_simple
  e_host_irq_mode :: bool

abbreviation hs_sync :: "hs_env \<Rightarrow> hs_state \<Rightarrow> u32" where
  "hs_sync e s \<equiv> read32 (hs_mem s) (e_comm e)"

abbreviation set_sync :: "hs_env \<Rightarrow> u32 \<Rightarrow> hs_state \<Rightarrow> mem" where
  "set_sync e v s \<equiv> write32 (hs_mem s) (e_comm e) v"

definition data_word :: "hs_env \<Rightarrow> nat \<Rightarrow> u32" where
  "data_word e k = e_comm e + 4 + of_nat (4 * k)"

subsection \<open>Steps\<close>

text \<open>The steps of the host, of the DSP and of the host's interrupt handler.\<close>

inductive hs_step :: "hs_env \<Rightarrow> hs_state \<Rightarrow> hs_state \<Rightarrow> bool" for e where
  h_start: "hpc s = H_start \<Longrightarrow>
    hs_step e s (s\<lparr>hs_mem := set_sync e XRP_DSP_SYNC_START s, hpc := H_wait_ready\<rparr>)"
| h_ready: "hpc s = H_wait_ready \<Longrightarrow> hs_sync e s = XRP_DSP_SYNC_DSP_READY \<Longrightarrow>
    hs_step e s (s\<lparr>hpc := H_data 0\<rparr>)"
| h_data: "hpc s = H_data k \<Longrightarrow> k < length (hw_sync_words (e_hw e)) \<Longrightarrow>
    hs_step e s (s\<lparr>hs_mem := write32 (hs_mem s) (data_word e k) (hw_sync_words (e_hw e) ! k), hpc := H_data (k + 1)\<rparr>)"
| h_go: "hpc s = H_data (length (hw_sync_words (e_hw e))) \<Longrightarrow>
    hs_step e s (s\<lparr>hs_mem := set_sync e XRP_DSP_SYNC_HOST_TO_DSP s, hpc := H_wait_reply\<rparr>)"
| h_reply: "hpc s = H_wait_reply \<Longrightarrow> hs_sync e s = XRP_DSP_SYNC_DSP_TO_HOST \<Longrightarrow>
    hs_step e s (s\<lparr>hpc := H_irq\<rparr>)"
| h_irq: "hpc s = H_irq \<Longrightarrow>
    hs_step e s (s\<lparr>hpc := (if e_host_irq_mode e then H_wait_irq else H_finish True),
                 hs_dev_irq := hs_dev_irq s \<or> h_device_irq_mode (e_hw e) \<noteq> XRP_IRQ_NONE\<rparr>)"
| h_completed: "hpc s = H_wait_irq \<Longrightarrow> hs_completion s \<Longrightarrow>
    hs_step e s (s\<lparr>hpc := H_finish True, hs_completion := False\<rparr>)"
| h_finish: "hpc s = H_finish ok \<Longrightarrow>
    hs_step e s (s\<lparr>hs_mem := set_sync e XRP_DSP_SYNC_IDLE s, hpc := H_done ok\<rparr>)"
| d_dispatch: "dpc s = D_dispatch \<Longrightarrow> hs_sync e s = XRP_DSP_SYNC_START \<Longrightarrow>
    hs_step e s (s\<lparr>dpc := D_wait_start\<rparr>)"
| d_start: "dpc s = D_wait_start \<Longrightarrow> hs_sync e s = XRP_DSP_SYNC_START \<Longrightarrow>
    hs_step e s (s\<lparr>dpc := D_ready\<rparr>)"
| d_ready: "dpc s = D_ready \<Longrightarrow>
    hs_step e s (s\<lparr>hs_mem := set_sync e XRP_DSP_SYNC_DSP_READY s, dpc := D_wait_host\<rparr>)"
| d_go: "dpc s = D_wait_host \<Longrightarrow> hs_sync e s = XRP_DSP_SYNC_HOST_TO_DSP \<Longrightarrow>
    hs_step e s (s\<lparr>dpc := D_data\<rparr>)"
| d_abort: "dpc s = D_wait_host \<Longrightarrow> hs_sync e s \<noteq> XRP_DSP_SYNC_HOST_TO_DSP \<Longrightarrow> hs_sync e s \<noteq> XRP_DSP_SYNC_DSP_READY \<Longrightarrow>
    hs_step e s (s\<lparr>dpc := D_dispatch\<rparr>)"
| d_data: "dpc s = D_data \<Longrightarrow>
    hs_step e s (s\<lparr>dpc := D_reply, hs_dsp := xrp_hw_set_sync_data (hs_mem s) (e_comm e + 4) (hs_dsp s)\<rparr>)"
| d_reply: "dpc s = D_reply \<Longrightarrow>
    hs_step e s (s\<lparr>hs_mem := set_sync e XRP_DSP_SYNC_DSP_TO_HOST s, dpc := D_wait_irq\<rparr>)"
| d_wait_irq: "dpc s = D_wait_irq \<Longrightarrow> d_device_irq_mode (hs_dsp s) = XRP_IRQ_NONE \<or> hs_dev_irq s \<Longrightarrow>
    hs_step e s (s\<lparr>dpc := D_irq, hs_dev_irq := False\<rparr>)"
| d_irq: "dpc s = D_irq \<Longrightarrow>
    hs_step e s (s\<lparr>dpc := D_dispatch, hs_host_irq := hs_host_irq s \<or> xrp_hw_send_host_irq (hs_dsp s) \<noteq> []\<rparr>)"
| irq: "hs_host_irq s \<Longrightarrow>
    hs_step e s (s\<lparr>hs_host_irq := False, hs_completion := snd (xrp_irq_handler (hs_mem s) (Some (e_comm e)) (hs_completion s))\<rparr>)"

text \<open>The failures of the host: no memory for the data, and the deadlines of the three waits.\<close>

inductive hs_fault :: "hs_env \<Rightarrow> hs_state \<Rightarrow> hs_state \<Rightarrow> bool" for e where
  f_nomem: "hpc s = H_start \<Longrightarrow> hs_fault e s (s\<lparr>hpc := H_finish False\<rparr>)"
| f_ready: "hpc s = H_wait_ready \<Longrightarrow> hs_sync e s \<noteq> XRP_DSP_SYNC_DSP_READY \<Longrightarrow>
    hs_fault e s (s\<lparr>hpc := H_finish False\<rparr>)"
| f_reply: "hpc s = H_wait_reply \<Longrightarrow> hs_sync e s \<noteq> XRP_DSP_SYNC_DSP_TO_HOST \<Longrightarrow>
    hs_fault e s (s\<lparr>hpc := H_finish False\<rparr>)"
| f_irq: "hpc s = H_wait_irq \<Longrightarrow> \<not> hs_completion s \<Longrightarrow> hs_fault e s (s\<lparr>hpc := H_finish False\<rparr>)"

definition hs_any :: "hs_env \<Rightarrow> hs_state \<Rightarrow> hs_state \<Rightarrow> bool" where
  "hs_any e s s' \<longleftrightarrow> hs_step e s s' \<or> hs_fault e s s'"

text \<open>
  The state after \<open>xrp_boot_firmware\<close> has released the DSP: the word is idle and the DSP polls it.
\<close>

definition hs_init :: "hs_env \<Rightarrow> hs_state \<Rightarrow> bool" where
  "hs_init e s \<longleftrightarrow> hpc s = H_start \<and> dpc s = D_dispatch \<and> hs_sync e s = XRP_DSP_SYNC_IDLE \<and>
     \<not> hs_dev_irq s \<and> \<not> hs_host_irq s \<and> \<not> hs_completion s"

subsection \<open>The invariant\<close>

definition words_written :: "hs_env \<Rightarrow> hs_state \<Rightarrow> nat \<Rightarrow> bool" where
  "words_written e s n \<longleftrightarrow> (\<forall>k<n. read32 (hs_mem s) (data_word e k) = hw_sync_words (e_hw e) ! k)"

definition configured :: "hs_env \<Rightarrow> hs_state \<Rightarrow> bool" where
  "configured e s \<longleftrightarrow> hs_dsp s = hw_config (e_hw e)"

text \<open>What holds of the DSP once the host has said \<open>HOST_TO_DSP\<close>.\<close>

definition dsp_going :: "hs_env \<Rightarrow> hs_state \<Rightarrow> bool" where
  "dsp_going e s \<longleftrightarrow> words_written e s 8 \<and>
     (dpc s \<in> {D_wait_host, D_data} \<and> hs_sync e s = XRP_DSP_SYNC_HOST_TO_DSP \<or>
      dpc s = D_reply \<and> hs_sync e s = XRP_DSP_SYNC_HOST_TO_DSP \<and> configured e s)"

text \<open>\<open>DSP_TO_HOST\<close> is in the word; the DSP may already have interrupted the host.\<close>

definition dsp_replied :: "hs_env \<Rightarrow> hs_state \<Rightarrow> bool" where
  "dsp_replied e s \<longleftrightarrow> configured e s \<and> hs_sync e s = XRP_DSP_SYNC_DSP_TO_HOST \<and>
     (dpc s \<in> {D_wait_irq, D_irq} \<and> \<not> hs_host_irq s \<and> \<not> hs_completion s \<or>
      dpc s = D_dispatch \<and> (h_host_irq_mode (e_hw e) = XRP_IRQ_NONE \<or> hs_host_irq s \<or> hs_completion s))"

definition dsp_waiting :: "hs_env \<Rightarrow> hs_state \<Rightarrow> bool" where
  "dsp_waiting e s \<longleftrightarrow> \<not> hs_dev_irq s \<and>
     (hs_sync e s = XRP_DSP_SYNC_START \<and> dpc s \<in> {D_dispatch, D_wait_start, D_ready} \<or>
      hs_sync e s = XRP_DSP_SYNC_DSP_READY \<and> dpc s = D_wait_host)"

text \<open>What remains true of the DSP after the host has given up.\<close>

definition dsp_alone :: "hs_env \<Rightarrow> hs_state \<Rightarrow> bool" where
  "dsp_alone e s \<longleftrightarrow>
     (dpc s = D_data \<longrightarrow> words_written e s 8) \<and>
     (dpc s \<in> {D_reply, D_wait_irq, D_irq} \<longrightarrow> configured e s) \<and>
     (hs_sync e s = XRP_DSP_SYNC_HOST_TO_DSP \<longrightarrow>
        dpc s \<in> {D_wait_host, D_data, D_reply} \<and> words_written e s 8) \<and>
     (hs_sync e s = XRP_DSP_SYNC_START \<longrightarrow> dpc s \<in> {D_dispatch, D_wait_start, D_ready}) \<and>
     hs_sync e s \<in> {XRP_DSP_SYNC_IDLE, XRP_DSP_SYNC_START, XRP_DSP_SYNC_DSP_READY,
       XRP_DSP_SYNC_HOST_TO_DSP, XRP_DSP_SYNC_DSP_TO_HOST}"

definition hs_inv :: "hs_env \<Rightarrow> hs_state \<Rightarrow> bool" where
  "hs_inv e s \<longleftrightarrow>
     (case hpc s of
        H_start \<Rightarrow> dpc s = D_dispatch \<and> hs_sync e s = XRP_DSP_SYNC_IDLE \<and> \<not> hs_dev_irq s \<and> \<not> hs_host_irq s \<and> \<not> hs_completion s
      | H_wait_ready \<Rightarrow> dsp_waiting e s \<and> \<not> hs_host_irq s \<and> \<not> hs_completion s
      | H_data k \<Rightarrow> k \<le> 8 \<and> words_written e s k \<and> dpc s = D_wait_host \<and> hs_sync e s = XRP_DSP_SYNC_DSP_READY \<and>
          \<not> hs_dev_irq s \<and> \<not> hs_host_irq s \<and> \<not> hs_completion s
      | H_wait_reply \<Rightarrow> \<not> hs_dev_irq s \<and> (dsp_going e s \<and> \<not> hs_host_irq s \<and> \<not> hs_completion s \<or> dsp_replied e s)
      | H_irq \<Rightarrow> dsp_replied e s
      | H_wait_irq \<Rightarrow> dsp_replied e s \<and>
          (dpc s = D_wait_irq \<longrightarrow> h_device_irq_mode (e_hw e) = XRP_IRQ_NONE \<or> hs_dev_irq s)
      | H_finish ok \<Rightarrow> dsp_alone e s \<and> (ok \<longrightarrow> configured e s \<and> hs_sync e s = XRP_DSP_SYNC_DSP_TO_HOST \<and>
          dpc s \<in> {D_wait_irq, D_irq, D_dispatch} \<and> (e_host_irq_mode e \<longrightarrow> dpc s = D_dispatch))
      | H_done ok \<Rightarrow> dsp_alone e s \<and> hs_sync e s \<noteq> XRP_DSP_SYNC_HOST_TO_DSP \<and> hs_sync e s \<noteq> XRP_DSP_SYNC_START \<and>
          (ok \<longrightarrow> configured e s \<and> dpc s \<in> {D_wait_irq, D_irq, D_dispatch} \<and> (e_host_irq_mode e \<longrightarrow> dpc s = D_dispatch)))"

text \<open>
  A bound on the number of steps that are still possible: the places before the two program counters,
  and a pending interrupt of the host.
\<close>

fun host_rank :: "host_pc \<Rightarrow> nat" where
  "host_rank H_start = 20"
| "host_rank H_wait_ready = 19"
| "host_rank (H_data k) = 10 + (8 - k)"
| "host_rank H_wait_reply = 9"
| "host_rank H_irq = 8"
| "host_rank H_wait_irq = 7"
| "host_rank (H_finish ok) = 6"
| "host_rank (H_done ok) = 0"

fun dsp_rank :: "dsp_pc \<Rightarrow> nat" where
  "dsp_rank D_dispatch = 0"
| "dsp_rank D_wait_start = 8"
| "dsp_rank D_ready = 7"
| "dsp_rank D_wait_host = 6"
| "dsp_rank D_data = 5"
| "dsp_rank D_reply = 4"
| "dsp_rank D_wait_irq = 3"
| "dsp_rank D_irq = 2"

definition hs_measure :: "hs_env \<Rightarrow> hs_state \<Rightarrow> nat" where
  "hs_measure e s = host_rank (hpc s) + dsp_rank (dpc s) +
     (if dpc s = D_dispatch \<and> (hpc s = H_start \<or> hs_sync e s = XRP_DSP_SYNC_START) then 9 else 0) +
     (if hs_host_irq s then 1 else 0)"

text \<open>A concrete handshake: the hardware of \<open>sample_hw\<close>, host interrupts on.\<close>

definition sample_hs_env :: hs_env where
  "sample_hs_env = \<lparr>e_comm = 0x1000, e_hw = sample_hw, e_host_irq_mode = True\<rparr>"

definition sample_hs :: hs_state where
  "sample_hs = \<lparr>hs_mem = (\<lambda>_. 0), hpc = H_start, dpc = D_dispatch,
     hs_dsp = \<lparr>mmio_base = 0, d_host_irq_mode = XRP_IRQ_NONE, d_device_irq_mode = XRP_IRQ_NONE,
       d_device_irq_offset = 0, d_device_irq_bit = 0, d_device_irq = 0, d_host_irq_offset = 0, d_host_irq_bit = 0\<rparr>,
     hs_dev_irq = False, hs_host_irq = False, hs_completion = False\<rparr>"

subsection \<open>Memory\<close>

lemma length_hw_sync_words [simp]: "length (hw_sync_words hw) = 8"
  by (simp add: hw_sync_words_def)

lemma apart_sync_data: "k < 8 \<Longrightarrow> apart (e_comm e) 4 (data_word e k) 4"
  using apart_offsets [of 0 4 "4 + 4 * k" 4 "e_comm e"] by (simp add: data_word_def add.assoc)

lemma apart_data_data: "j < k \<Longrightarrow> k < 8 \<Longrightarrow> apart (data_word e j) 4 (data_word e k) 4"
  using apart_offsets [of "4 + 4 * j" 4 "4 + 4 * k" 4 "e_comm e"] by (simp add: data_word_def add.assoc)

lemma sync_after_data: "k < 8 \<Longrightarrow> read32 (write32 m (data_word e k) v) (e_comm e) = read32 m (e_comm e)"
  by (simp add: apart_sync_data apart_sym)

lemma words_written_upd [simp]:
  "words_written e (s\<lparr>hpc := p\<rparr>) n = words_written e s n"
  "words_written e (s\<lparr>dpc := q\<rparr>) n = words_written e s n"
  "words_written e (s\<lparr>hs_dsp := d\<rparr>) n = words_written e s n"
  "words_written e (s\<lparr>hs_dev_irq := b\<rparr>) n = words_written e s n"
  "words_written e (s\<lparr>hs_host_irq := b\<rparr>) n = words_written e s n"
  "words_written e (s\<lparr>hs_completion := b\<rparr>) n = words_written e s n"
  by (simp_all add: words_written_def)

lemma words_written_sync [simp]:
  "n \<le> 8 \<Longrightarrow> words_written e (s\<lparr>hs_mem := set_sync e v s\<rparr>) n = words_written e s n"
  by (auto simp: words_written_def apart_sync_data)

lemma words_written_next:
  assumes "words_written e s k" and "k < 8"
  shows "words_written e (s\<lparr>hs_mem := write32 (hs_mem s) (data_word e k) (hw_sync_words (e_hw e) ! k)\<rparr>) (Suc k)"
  using assms by (auto simp: words_written_def less_Suc_eq apart_data_data apart_sym)

lemma configured_by_data:
  "words_written e s 8 \<Longrightarrow> xrp_hw_set_sync_data (hs_mem s) (e_comm e + 4) d = hw_config (e_hw e)"
  by (rule set_sync_data_words) (simp add: words_written_def data_word_def)

lemma configured_irq:
  "configured e s \<Longrightarrow> xrp_hw_send_host_irq (hs_dsp s) = [] \<longleftrightarrow> h_host_irq_mode (e_hw e) = XRP_IRQ_NONE"
  by (simp add: configured_def hw_config_def xrp_hw_send_host_irq_def split: xrp_irq_mode.split)

lemma irq_completes:
  "hs_sync e s = XRP_DSP_SYNC_DSP_TO_HOST \<Longrightarrow> snd (xrp_irq_handler (hs_mem s) (Some (e_comm e)) c)"
  by (simp add: xrp_irq_handler_def xrp_cmd_complete_def xrp_comm_read32_def layout_simps sync_defs cmd_flag_defs)

lemma sync_distinct:
  "XRP_DSP_SYNC_IDLE \<noteq> XRP_DSP_SYNC_START" "XRP_DSP_SYNC_IDLE \<noteq> XRP_DSP_SYNC_DSP_READY"
  "XRP_DSP_SYNC_IDLE \<noteq> XRP_DSP_SYNC_HOST_TO_DSP" "XRP_DSP_SYNC_IDLE \<noteq> XRP_DSP_SYNC_DSP_TO_HOST"
  "XRP_DSP_SYNC_START \<noteq> XRP_DSP_SYNC_DSP_READY" "XRP_DSP_SYNC_START \<noteq> XRP_DSP_SYNC_HOST_TO_DSP"
  "XRP_DSP_SYNC_START \<noteq> XRP_DSP_SYNC_DSP_TO_HOST" "XRP_DSP_SYNC_DSP_READY \<noteq> XRP_DSP_SYNC_HOST_TO_DSP"
  "XRP_DSP_SYNC_DSP_READY \<noteq> XRP_DSP_SYNC_DSP_TO_HOST" "XRP_DSP_SYNC_HOST_TO_DSP \<noteq> XRP_DSP_SYNC_DSP_TO_HOST"
  by (simp_all add: sync_defs)

lemmas sync_neq = sync_distinct sync_distinct [symmetric]

lemmas inv_defs = hs_inv_def dsp_going_def dsp_replied_def dsp_waiting_def dsp_alone_def configured_def

subsection \<open>Preservation\<close>

lemma hs_step_inv: "hs_step e s s' \<Longrightarrow> hs_inv e s \<Longrightarrow> hs_inv e s'"
proof (induction rule: hs_step.induct)
  case (h_start s)
  then show ?case by (simp add: inv_defs)
next
  case (h_ready s)
  then show ?case by (auto simp: inv_defs sync_neq words_written_def)
next
  case (h_data s k)
  then show ?case using words_written_next [of e s k] by (simp add: inv_defs sync_after_data)
next
  case (h_go s)
  then show ?case by (simp add: inv_defs)
next
  case (h_reply s)
  then show ?case by (auto simp: inv_defs sync_neq)
next
  case (h_irq s)
  then show ?case by (auto simp: inv_defs sync_neq)
next
  case (h_completed s)
  then show ?case by (auto simp: inv_defs sync_neq)
next
  case (h_finish s ok)
  then show ?case by (auto simp: inv_defs sync_neq)
next
  case (d_dispatch s)
  then show ?case by (auto simp: inv_defs sync_neq split: host_pc.splits)
next
  case (d_start s)
  then show ?case by (auto simp: inv_defs sync_neq split: host_pc.splits)
next
  case (d_ready s)
  then show ?case by (auto simp: inv_defs sync_neq split: host_pc.splits)
next
  case (d_go s)
  then show ?case by (auto simp: inv_defs sync_neq split: host_pc.splits)
next
  case (d_abort s)
  then show ?case by (auto simp: inv_defs sync_neq split: host_pc.splits)
next
  case (d_data s)
  then show ?case
    using configured_by_data [of e s "hs_dsp s"]
    by (auto simp: inv_defs sync_neq split: host_pc.splits)
next
  case (d_reply s)
  then show ?case by (auto simp: inv_defs sync_neq split: host_pc.splits)
next
  case (d_wait_irq s)
  then show ?case by (auto simp: inv_defs sync_neq split: host_pc.splits)
next
  case (d_irq s)
  then show ?case using configured_irq [of e s] by (auto simp: inv_defs sync_neq split: host_pc.splits)
next
  case (irq s)
  then show ?case
    using irq_completes [of s e "hs_completion s"] by (auto simp: inv_defs sync_neq split: host_pc.splits)
qed

lemma hs_fault_inv: "hs_fault e s s' \<Longrightarrow> hs_inv e s \<Longrightarrow> hs_inv e s'"
  by (induction rule: hs_fault.induct) (auto simp: inv_defs sync_neq)

lemma hs_init_inv: "hs_init e s \<Longrightarrow> hs_inv e s"
  by (simp add: hs_init_def hs_inv_def)

lemma hs_reachable_inv:
  assumes "(hs_any e)\<^sup>*\<^sup>* s0 s" and "hs_init e s0"
  shows "hs_inv e s"
  using assms
proof (induction rule: rtranclp_induct)
  case base
  then show ?case by (rule hs_init_inv)
next
  case (step s s')
  then show ?case using hs_step_inv hs_fault_inv by (auto simp: hs_any_def)
qed

lemma hs_steps_any: "(hs_step e)\<^sup>*\<^sup>* s s' \<Longrightarrow> (hs_any e)\<^sup>*\<^sup>* s s'"
  by (rule rtranclp_mono [THEN predicate2D]) (auto simp: hs_any_def)

subsection \<open>Termination and progress\<close>

lemma inv_start:
  "hs_inv e s \<Longrightarrow> hs_sync e s = XRP_DSP_SYNC_START \<Longrightarrow> dpc s \<in> {D_dispatch, D_wait_start, D_ready}"
  by (auto simp: inv_defs sync_neq split: host_pc.splits)

lemma inv_host_to_dsp:
  "hs_inv e s \<Longrightarrow> hs_sync e s = XRP_DSP_SYNC_HOST_TO_DSP \<Longrightarrow> dpc s \<in> {D_wait_host, D_data, D_reply}"
  by (auto simp: inv_defs sync_neq split: host_pc.splits)

lemma inv_values:
  "hs_inv e s \<Longrightarrow> hs_sync e s \<in> {XRP_DSP_SYNC_IDLE, XRP_DSP_SYNC_START, XRP_DSP_SYNC_DSP_READY,
     XRP_DSP_SYNC_HOST_TO_DSP, XRP_DSP_SYNC_DSP_TO_HOST}"
  by (auto simp: inv_defs sync_neq split: host_pc.splits)

lemma inv_data: "hs_inv e s \<Longrightarrow> dpc s = D_data \<Longrightarrow> words_written e s 8"
  by (auto simp: inv_defs sync_neq split: host_pc.splits)

lemma inv_configured: "hs_inv e s \<Longrightarrow> dpc s \<in> {D_reply, D_wait_irq, D_irq} \<Longrightarrow> configured e s"
  by (auto simp: inv_defs sync_neq split: host_pc.splits)

lemma hs_step_measure: "hs_step e s s' \<Longrightarrow> hs_inv e s \<Longrightarrow> hs_measure e s' < hs_measure e s"
proof (induction rule: hs_step.induct)
  case (d_abort s)
  then show ?case using inv_start [of e s] by (auto simp: hs_measure_def hs_inv_def)
next
  case (d_irq s)
  then show ?case using inv_start [of e s] by (auto simp: hs_measure_def hs_inv_def)
qed (auto simp: hs_measure_def sync_neq sync_after_data)

text \<open>As long as the host has not returned, some step other than a failure is possible.\<close>

lemma hs_progress:
  assumes "hs_inv e s" and "e_host_irq_mode e \<longrightarrow> h_host_irq_mode (e_hw e) \<noteq> XRP_IRQ_NONE"
    and "hpc s = H_wait_irq \<longrightarrow> e_host_irq_mode e" and "\<forall>ok. hpc s \<noteq> H_done ok"
  shows "\<exists>s'. hs_step e s s'"
proof (cases "hpc s")
  case H_start
  then show ?thesis by (blast intro: hs_step.h_start)
next
  case H_wait_ready
  with assms(1) consider "hs_sync e s = XRP_DSP_SYNC_DSP_READY"
    | "hs_sync e s = XRP_DSP_SYNC_START" "dpc s \<in> {D_dispatch, D_wait_start, D_ready}"
    by (auto simp: inv_defs)
  then show ?thesis
    by cases (use H_wait_ready in \<open>auto intro: hs_step.h_ready hs_step.d_dispatch hs_step.d_start hs_step.d_ready\<close>)
next
  case (H_data k)
  then have "k < 8 \<or> k = 8" using assms(1) by (auto simp: hs_inv_def)
  then show ?thesis using H_data hs_step.h_data [of s k e] hs_step.h_go [of s e] by auto
next
  case H_wait_reply
  with assms(1) have "dsp_going e s \<or> hs_sync e s = XRP_DSP_SYNC_DSP_TO_HOST" by (auto simp: hs_inv_def dsp_replied_def)
  then show ?thesis
    using H_wait_reply by (auto simp: dsp_going_def intro: hs_step.h_reply hs_step.d_go hs_step.d_data hs_step.d_reply)
next
  case H_irq
  then show ?thesis by (blast intro: hs_step.h_irq)
next
  case H_wait_irq
  with assms have "h_host_irq_mode (e_hw e) \<noteq> XRP_IRQ_NONE" by simp
  with assms(1) H_wait_irq consider "hs_completion s" | "hs_host_irq s" | "dpc s = D_irq"
    | "dpc s = D_wait_irq" "d_device_irq_mode (hs_dsp s) = XRP_IRQ_NONE \<or> hs_dev_irq s"
    by (auto simp: inv_defs hw_config_def)
  then show ?thesis
    by cases (use H_wait_irq in \<open>auto intro: hs_step.h_completed hs_step.irq hs_step.d_irq hs_step.d_wait_irq\<close>)
next
  case (H_finish ok)
  then show ?thesis by (blast intro: hs_step.h_finish)
qed (use assms(4) in auto)

text \<open>Without failures the host never comes to a failing return.\<close>

lemma hs_step_no_failure:
  "hs_step e s s' \<Longrightarrow> hpc s \<noteq> H_finish False \<and> hpc s \<noteq> H_done False \<and> (hpc s = H_wait_irq \<longrightarrow> e_host_irq_mode e) \<Longrightarrow>
     hpc s' \<noteq> H_finish False \<and> hpc s' \<noteq> H_done False \<and> (hpc s' = H_wait_irq \<longrightarrow> e_host_irq_mode e)"
  by (induction rule: hs_step.induct) auto

lemma hs_steps_no_failure:
  assumes "(hs_step e)\<^sup>*\<^sup>* s0 s" and "hs_init e s0"
  shows "hpc s \<noteq> H_finish False \<and> hpc s \<noteq> H_done False \<and> (hpc s = H_wait_irq \<longrightarrow> e_host_irq_mode e)"
  using assms
proof (induction rule: rtranclp_induct)
  case base
  then show ?case by (simp add: hs_init_def)
next
  case (step s s')
  then show ?case using hs_step_no_failure by blast
qed

lemma hs_init_measure: "hs_init e s \<Longrightarrow> hs_measure e s = 29"
  by (simp add: hs_init_def hs_measure_def)

lemma hs_steps_bounded:
  assumes "(hs_step e ^^ n) s0 s" and "hs_init e s0"
  shows "n + hs_measure e s \<le> 29"
  using assms(1)
proof (induction n arbitrary: s)
  case 0
  then show ?case using hs_init_measure [OF assms(2)] by simp
next
  case (Suc n)
  then obtain t where t: "(hs_step e ^^ n) s0 t" "hs_step e t s" by auto
  have "hs_inv e t"
    using hs_reachable_inv [OF hs_steps_any [OF relpowp_imp_rtranclp [OF t(1)]] assms(2)] .
  with hs_step_measure [OF t(2)] Suc.IH [OF t(1)] show ?case by simp
qed

text \<open>Every run can be continued until no step is possible.\<close>

lemma hs_run_to_end:
  assumes "hs_inv e s"
  shows "\<exists>s'. (hs_step e)\<^sup>*\<^sup>* s s' \<and> \<not> (\<exists>t. hs_step e s' t)"
  using assms
proof (induction "hs_measure e s" arbitrary: s rule: less_induct)
  case less
  show ?case
  proof (cases "\<exists>t. hs_step e s t")
    case True
    then obtain t where t: "hs_step e s t" by blast
    from less.hyps [OF hs_step_measure [OF t less.prems] hs_step_inv [OF t less.prems]] t show ?thesis
      by (meson converse_rtranclp_into_rtranclp)
  qed auto
qed

lemma hs_end_success:
  assumes "(hs_step e)\<^sup>*\<^sup>* s0 s" and "hs_init e s0"
    and "e_host_irq_mode e \<longrightarrow> h_host_irq_mode (e_hw e) \<noteq> XRP_IRQ_NONE" and "\<not> (\<exists>t. hs_step e s t)"
  shows "hpc s = H_done True"
proof -
  have inv: "hs_inv e s" using hs_reachable_inv [OF hs_steps_any [OF assms(1)] assms(2)] .
  note nf = hs_steps_no_failure [OF assms(1,2)]
  have "\<exists>ok. hpc s = H_done ok" using hs_progress [OF inv assms(3)] nf assms(4) by blast
  then obtain ok where "hpc s = H_done ok" by blast
  with nf show ?thesis by (cases ok) auto
qed

subsection \<open>Properties\<close>

lemma sample_hs_init: "hs_init sample_hs_env sample_hs"
  by (simp add: hs_init_def sample_hs_def sample_hs_env_def sync_defs)

text \<open>
  C10: In every interleaving of host and DSP, whether or not the host runs into a timeout: the DSP reads
  the configuration only when all of it has been written, uses nothing but the host's configuration
  from then on, and never finds a word in \<open>sync\<close> it would take for a command; and when the host returns
  success the DSP has the host's configuration, and in interrupt mode has delivered its interrupt.
\<close>

theorem handshake_safe:
  assumes "hs_init e s0" and "(hs_any e)\<^sup>*\<^sup>* s0 s"
  shows "(dpc s = D_data \<longrightarrow> (\<forall>k<8. read32 (hs_mem s) (data_word e k) = hw_sync_words (e_hw e) ! k)) \<and>
    (dpc s \<in> {D_reply, D_wait_irq, D_irq} \<longrightarrow> hs_dsp s = hw_config (e_hw e)) \<and>
    (dpc s = D_dispatch \<and> hs_sync e s AND 3 = 1 \<longrightarrow> hs_sync e s = XRP_DSP_SYNC_START) \<and>
    (hpc s = H_done True \<longrightarrow> hs_dsp s = hw_config (e_hw e) \<and> (e_host_irq_mode e \<longrightarrow> dpc s = D_dispatch))"
proof -
  have inv: "hs_inv e s" using hs_reachable_inv [OF assms(2,1)] .
  have "hs_sync e s = XRP_DSP_SYNC_START" if "dpc s = D_dispatch" "hs_sync e s AND 3 = 1"
    using inv_values [OF inv] inv_host_to_dsp [OF inv] that by (auto simp: sync_defs)
  moreover have "hs_dsp s = hw_config (e_hw e) \<and> (e_host_irq_mode e \<longrightarrow> dpc s = D_dispatch)" if "hpc s = H_done True"
    using inv that by (simp add: hs_inv_def configured_def)
  ultimately show ?thesis
    using inv_data [OF inv] inv_configured [OF inv] unfolding words_written_def configured_def by blast
qed

theorem handshake_safe_witness:
  "\<exists>s. (hs_any sample_hs_env)\<^sup>*\<^sup>* sample_hs s \<and> hpc s = H_done True \<and> dpc s = D_dispatch \<and>
     hs_dsp s = hw_config sample_hw"
proof -
  obtain s where s: "(hs_step sample_hs_env)\<^sup>*\<^sup>* sample_hs s" "\<not> (\<exists>t. hs_step sample_hs_env s t)"
    using hs_run_to_end [OF hs_init_inv [OF sample_hs_init]] by blast
  have "hpc s = H_done True"
    by (rule hs_end_success [OF s(1) sample_hs_init _ s(2)]) (simp add: sample_hs_env_def sample_hw_def)
  with handshake_safe [OF sample_hs_init hs_steps_any [OF s(1)]] hs_steps_any [OF s(1)] show ?thesis
    by (auto simp: sample_hs_env_def)
qed



text \<open>
  A driver that waits for an interrupt although the mode is \<open>XRP_IRQ_NONE\<close>, which \<open>init_hw\<close> accepts, never
  gets it.
\<close>

lemma handshake_mode_none_stuck:
  assumes "hs_init e s0" and "(hs_any e)\<^sup>*\<^sup>* s0 s" and "h_host_irq_mode (e_hw e) = XRP_IRQ_NONE"
    and "e_host_irq_mode e"
  shows "hpc s \<noteq> H_done True"
proof -
  have "\<not> hs_host_irq s \<and> \<not> hs_completion s \<and> hpc s \<noteq> H_finish True \<and> hpc s \<noteq> H_done True"
    using assms(2)
  proof (induction rule: rtranclp_induct)
    case base
    then show ?case using assms(1) by (simp add: hs_init_def)
  next
    case (step s s')
    have inv: "hs_inv e s" using hs_reachable_inv [OF step(1) assms(1)] .
    from step(2) consider "hs_step e s s'" | "hs_fault e s s'" by (auto simp: hs_any_def)
    then show ?case
    proof cases
      case 1
      then show ?thesis
        using step(3) assms(3,4) inv_configured [OF inv] configured_irq [of e s] by cases auto
    next
      case 2
      then show ?thesis using step(3) by cases auto
    qed
  qed
  then show ?thesis by blast
qed

end
