(* ===== verification/XRP_Alloc.thy ===== *)
theory XRP_Alloc
  imports XRP_Prelude
begin

text \<open>
  The private memory pool of \<^verbatim>\<open>xrp-kernel/xrp_alloc.c\<close>, which hands out device memory to the kernel
  driver and to the simulation library.  The free memory is a list of blocks that
  \<open>xrp_private_alloc\<close> cuts (first fit) and \<open>xrp_private_free\<close> merges.

  Model: the singly linked \<open>free_list\<close> is a HOL list of its nodes, the \<open>next\<close> pointers being the
  list structure; the back pointer \<open>pool\<close> of an allocation is the pool argument.  The outcome of
  each \<open>kzalloc\<close>/\<open>kmalloc\<close> is a boolean argument, so that every allocation failure is a branch.  The
  lock is held for a whole walk, so each operation is one atomic step.

  Shown: the invariant \<open>pool_wf\<close> (blocks sorted, non-empty, inside the pool and never touching); the
  exact behaviour of both operations on the set of free bytes, with first fit and completeness of the
  search; that the free list is a function of the set of free bytes, so that freeing undoes
  allocating.
\<close>

subsection \<open>Data and operations\<close>

text \<open>\<open>struct xrp_allocation\<close> and \<open>struct xrp_private_pool\<close>.\<close>

record xrp_allocation =
  a_start :: u32
  a_size :: u32
  a_ref :: u32

record xrp_private_pool =
  p_start :: u32
  p_size :: u32
  free_list :: "xrp_allocation list"

text \<open>
  Which node carries the result when the walk of \<open>xrp_private_alloc\<close> ends: the block itself (\<open>cur\<close>
  kept), the preallocated \<open>new\<close>, or none of the two because \<open>new\<close> became the second half of a split
  block.
\<close>

datatype cur_slot = Cur_block | Cur_new | Cur_none

text \<open>The loop of \<open>xrp_private_free\<close>.\<close>

fun free_walk :: "xrp_allocation \<Rightarrow> xrp_allocation list \<Rightarrow> xrp_allocation list" where
  "free_walk a [] = [a]"
| "free_walk a (cur # rest) =
     (if a_start cur + a_size cur = a_start a then
        (let cur = cur\<lparr>a_size := a_size cur + a_size a\<rparr> in
         case rest of
           [] \<Rightarrow> [cur]
         | next # rest' \<Rightarrow>
             if a_start cur + a_size cur = a_start next
             then cur\<lparr>a_size := a_size cur + a_size next\<rparr> # rest'
             else cur # next # rest')
      else if a_start a < a_start cur then
        (if a_start a + a_size a = a_start cur
         then cur\<lparr>a_size := a_size cur + a_size a, a_start := a_start a\<rparr> # rest
         else a # cur # rest)
      else cur # free_walk a rest)"

definition xrp_private_free :: "xrp_private_pool \<Rightarrow> xrp_allocation \<Rightarrow> xrp_private_pool" where
  "xrp_private_free pool a = pool\<lparr>free_list := free_walk a (free_list pool)\<rparr>"

text \<open>
  The body of the loop of \<open>xrp_private_alloc\<close> for the block that fits: it is taken whole, cut at its
  head, cut at its tail, or split in two.
\<close>

definition carve_block :: "u32 \<Rightarrow> u32 \<Rightarrow> xrp_allocation \<Rightarrow> cur_slot \<times> xrp_allocation list" where
  "carve_block aligned_start sz cur =
     (if aligned_start = a_start cur then
        if aligned_start + sz = a_start cur + a_size cur then (Cur_block, [])
        else (Cur_new,
              [cur\<lparr>a_size := a_size cur - (aligned_start + sz - a_start cur),
                   a_start := aligned_start + sz\<rparr>])
      else
        if aligned_start + sz = a_start cur + a_size cur
        then (Cur_new, [cur\<lparr>a_size := aligned_start - a_start cur\<rparr>])
        else (let new_start = aligned_start + sz;
                  new_size = a_start cur + a_size cur - new_start
              in (Cur_none,
                  [cur\<lparr>a_size := aligned_start - a_start cur\<rparr>,
                   \<lparr>a_start = new_start, a_size = new_size, a_ref = 0\<rparr>])))"

text \<open>The loop of \<open>xrp_private_alloc\<close>.\<close>

fun alloc_walk ::
  "u32 \<Rightarrow> u32 \<Rightarrow> xrp_allocation list \<Rightarrow> (u32 \<times> cur_slot \<times> xrp_allocation list) option" where
  "alloc_walk align sz [] = None"
| "alloc_walk align sz (cur # rest) =
     (let aligned_start = ALIGN (a_start cur) align in
      if a_start cur \<le> aligned_start \<and> aligned_start - a_start cur + sz \<le> a_size cur
      then let (slot, pieces) = carve_block aligned_start sz cur
           in Some (aligned_start, slot, pieces @ rest)
      else case alloc_walk align sz rest of
             None \<Rightarrow> None
           | Some (s, slot, rest') \<Rightarrow> Some (s, slot, cur # rest'))"

text \<open>\<open>new_ok\<close> and \<open>cur_ok\<close> are the outcomes of the two \<open>kzalloc\<close> calls, in the order of the code.\<close>

definition xrp_private_alloc ::
  "bool \<Rightarrow> bool \<Rightarrow> xrp_private_pool \<Rightarrow> u32 \<Rightarrow> u32 \<Rightarrow> (errno + xrp_allocation) \<times> xrp_private_pool" where
  "xrp_private_alloc new_ok cur_ok ppool sz align =
     (if sz = 0 \<or> align AND (align - 1) \<noteq> 0 then (Inl EINVAL, ppool)
      else if \<not> new_ok then (Inl ENOMEM, ppool)
      else
        let align = (if align = 0 then 1 else align);
            align = ALIGN align PAGE_SIZE;
            sz = ALIGN sz PAGE_SIZE
        in case alloc_walk align sz (free_list ppool) of
             None \<Rightarrow> (Inl ENOMEM, ppool)
           | Some (aligned_start, slot, fl) \<Rightarrow>
               let ppool = ppool\<lparr>free_list := fl\<rparr> in
               if slot = Cur_none \<and> \<not> cur_ok then (Inl ENOMEM, ppool)
               else (Inr \<lparr>a_start = aligned_start, a_size = sz, a_ref = 1\<rparr>, ppool))"

definition xrp_private_offset :: "xrp_private_pool \<Rightarrow> xrp_allocation \<Rightarrow> u32" where
  "xrp_private_offset ppool a = a_start a - p_start ppool"

text \<open>
  \<open>xrp_private_free_pool\<close> releases the pool and the node \<open>free_list\<close> points to; the result is the list
  of nodes nothing points to any more.
\<close>

definition xrp_private_free_pool :: "xrp_private_pool \<Rightarrow> xrp_allocation list" where
  "xrp_private_free_pool ppool = tl (free_list ppool)"

definition xrp_init_private_pool :: "bool \<Rightarrow> bool \<Rightarrow> u32 \<Rightarrow> u32 \<Rightarrow> errno + xrp_private_pool" where
  "xrp_init_private_pool pool_ok alloc_ok start sz =
     (if \<not> pool_ok \<or> \<not> alloc_ok then Inl ENOMEM
      else Inr \<lparr>p_start = start, p_size = sz,
                free_list = [\<lparr>a_start = start, a_size = sz, a_ref = 0\<rparr>]\<rparr>)"

subsection \<open>Specification\<close>

text \<open>The bytes of a block as a set of natural numbers, and the free list as a set of bytes.\<close>

abbreviation lo :: "xrp_allocation \<Rightarrow> nat" where
  "lo b \<equiv> unat (a_start b)"

abbreviation hi :: "xrp_allocation \<Rightarrow> nat" where
  "hi b \<equiv> unat (a_start b) + unat (a_size b)"

definition bytes :: "xrp_allocation \<Rightarrow> nat set" where
  "bytes b = {lo b..<hi b}"

definition free_set :: "xrp_allocation list \<Rightarrow> nat set" where
  "free_set bs = (\<Union>b\<in>set bs. bytes b)"

text \<open>
  \<open>free_wf l h bs\<close>: the blocks are non-empty, ascending, between \<open>l\<close> and \<open>h\<close>, and there is at least
  one byte between two neighbours.
\<close>

fun free_wf :: "nat \<Rightarrow> nat \<Rightarrow> xrp_allocation list \<Rightarrow> bool" where
  "free_wf l h [] \<longleftrightarrow> True"
| "free_wf l h (b # bs) \<longleftrightarrow> l \<le> lo b \<and> 0 < unat (a_size b) \<and> hi b \<le> h \<and> free_wf (Suc (hi b)) h bs"

definition spans :: "xrp_allocation list \<Rightarrow> (u32 \<times> u32) list" where
  "spans bs = map (\<lambda>b. (a_start b, a_size b)) bs"

definition pool_span :: "xrp_private_pool \<Rightarrow> nat set" where
  "pool_span p = {unat (p_start p)..<unat (p_start p) + unat (p_size p)}"

definition pool_free :: "xrp_private_pool \<Rightarrow> nat set" where
  "pool_free p = free_set (free_list p)"

definition pool_wf :: "xrp_private_pool \<Rightarrow> bool" where
  "pool_wf p \<longleftrightarrow> unat (p_start p) + unat (p_size p) \<le> 2 ^ 32 \<and>
     free_wf (unat (p_start p)) (unat (p_start p) + unat (p_size p)) (free_list p)"

text \<open>The alignment and the size a request is rounded up to.\<close>

definition eff_align :: "u32 \<Rightarrow> nat" where
  "eff_align align = max 4096 (unat align)"

definition eff_size :: "u32 \<Rightarrow> nat" where
  "eff_size sz = round_up 4096 (unat sz)"

text \<open>
  \<open>request_fits\<close> excludes the requests whose rounded size and alignment do not fit into 32 bits
  together: for those the unsigned arithmetic of the code wraps around (see \<open>alloc_wraps_to_empty\<close> and
  \<open>alloc_wraps_past_pool\<close> below).
\<close>

definition request_fits :: "u32 \<Rightarrow> u32 \<Rightarrow> bool" where
  "request_fits sz align \<longleftrightarrow> eff_size sz + eff_align align \<le> 2 ^ 32"

definition request_ok :: "u32 \<Rightarrow> u32 \<Rightarrow> bool" where
  "request_ok sz align \<longleftrightarrow> sz \<noteq> 0 \<and> align AND (align - 1) = 0 \<and> request_fits sz align"

definition fit_at :: "nat set \<Rightarrow> nat \<Rightarrow> nat \<Rightarrow> nat \<Rightarrow> bool" where
  "fit_at av align n s \<longleftrightarrow> align dvd s \<and> {s..<s + n} \<subseteq> av"

definition fits :: "nat \<Rightarrow> nat \<Rightarrow> xrp_allocation \<Rightarrow> bool" where
  "fits align n b \<longleftrightarrow> round_up align (lo b) + n \<le> hi b"

definition first_fit ::
  "nat \<Rightarrow> nat \<Rightarrow> xrp_allocation list \<Rightarrow> nat \<Rightarrow> bool" where
  "first_fit align n bs s \<longleftrightarrow>
     (\<exists>pre b post. bs = pre @ b # post \<and> (\<forall>c\<in>set pre. \<not> fits align n c) \<and>
        fits align n b \<and> s = round_up align (lo b))"

definition sample_pool :: xrp_private_pool where
  "sample_pool = \<lparr>p_start = 0x1000, p_size = 0x8000,
     free_list = [\<lparr>a_start = 0x1000, a_size = 0x1000, a_ref = 0\<rparr>,
                  \<lparr>a_start = 0x3000, a_size = 0x4000, a_ref = 0\<rparr>]\<rparr>"

subsection \<open>Free lists\<close>

lemma free_set_simps [simp]:
  "free_set [] = {}"
  "free_set (b # bs) = bytes b \<union> free_set bs"
  "free_set (xs @ ys) = free_set xs \<union> free_set ys"
  by (auto simp: free_set_def)

lemma spans_simps [simp]:
  "spans [] = []"
  "spans (b # bs) = (a_start b, a_size b) # spans bs"
  by (simp_all add: spans_def)

lemma free_wf_mono: "free_wf l h bs \<Longrightarrow> l' \<le> l \<Longrightarrow> free_wf l' h bs"
  by (cases bs) auto

lemma free_wf_bounds: "free_wf l h bs \<Longrightarrow> free_set bs \<subseteq> {l..<h}"
proof (induction bs arbitrary: l)
  case (Cons b bs)
  then show ?case by (fastforce simp: bytes_def)
qed simp

lemma free_wf_member: "free_wf l h bs \<Longrightarrow> b \<in> set bs \<Longrightarrow> l \<le> lo b \<and> 0 < unat (a_size b) \<and> hi b \<le> h"
  by (induction bs arbitrary: l) fastforce+

lemma free_wf_after: "free_wf l h (pre @ b # post) \<Longrightarrow> c \<in> set post \<Longrightarrow> hi b < lo c"
  by (induction pre arbitrary: l) (fastforce dest: free_wf_member)+

lemma free_wf_contains:
  assumes "free_wf l h bs" and "0 < n"
  shows "{s..<s + n} \<subseteq> free_set bs \<longleftrightarrow> (\<exists>b\<in>set bs. lo b \<le> s \<and> s + n \<le> hi b)"
  using assms(1)
proof (induction bs arbitrary: l)
  case Nil
  then show ?case using assms(2) by simp
next
  case (Cons b bs)
  have wf: "free_wf (Suc (hi b)) h bs" using Cons.prems by simp
  have ge: "Suc (hi b) \<le> x" if "x \<in> free_set bs" for x
    using free_wf_bounds [OF wf] that by auto
  have "{s..<s + n} \<subseteq> bytes b \<union> free_set bs \<longleftrightarrow>
      (lo b \<le> s \<and> s + n \<le> hi b) \<or> {s..<s + n} \<subseteq> free_set bs"
  proof
    assume *: "{s..<s + n} \<subseteq> bytes b \<union> free_set bs"
    show "(lo b \<le> s \<and> s + n \<le> hi b) \<or> {s..<s + n} \<subseteq> free_set bs"
    proof (cases "s < hi b")
      case True
      have "hi b \<notin> {s..<s + n}" using * ge [of "hi b"] by (auto simp: bytes_def)
      then have "s + n \<le> hi b" using True by simp
      moreover have "s \<in> {s..<s + n}" using assms(2) by simp
      then have "s \<in> bytes b" using * ge [of s] True by fastforce
      ultimately show ?thesis by (simp add: bytes_def)
    next
      case False
      then have "{s..<s + n} \<inter> bytes b = {}" by (auto simp: bytes_def)
      then show ?thesis using * by blast
    qed
  qed (auto simp: bytes_def)
  then show ?case using Cons.IH [OF wf] by auto
qed

lemma free_wf_Cons_sets:
  assumes "free_wf l h (b # bs)"
  shows "lo b \<in> free_set (b # bs)" and "x \<in> free_set (b # bs) \<Longrightarrow> lo b \<le> x"
    and "hi b \<notin> free_set (b # bs)" and "free_set bs = free_set (b # bs) \<inter> {hi b..}"
  using assms free_wf_bounds [of "Suc (hi b)" h bs] by (auto simp: bytes_def)

lemma free_wf_hd:
  assumes b: "free_wf l h (b # bs)" and c: "free_wf l' h' (c # cs)"
    and eq: "free_set (b # bs) = free_set (c # cs)"
  shows "lo b = lo c \<and> hi b = hi c"
proof -
  have lo: "lo b = lo c"
    using free_wf_Cons_sets(1,2) [OF b] free_wf_Cons_sets(1,2) [OF c] eq by (metis le_antisym)
  have le: "hi x \<le> hi y" if "lo x = lo y" "hi y \<notin> free_set (x # xs)" for x y xs
  proof (rule ccontr)
    assume "\<not> hi x \<le> hi y"
    with that(1) have "hi y \<in> bytes x" by (simp add: bytes_def)
    with that(2) show False by simp
  qed
  have "hi c \<notin> free_set (b # bs)" "hi b \<notin> free_set (c # cs)"
    using free_wf_Cons_sets(3) [OF b] free_wf_Cons_sets(3) [OF c] eq by (simp_all del: free_set_simps)
  with lo le show ?thesis by (metis le_antisym)
qed

lemma free_wf_unique:
  assumes "free_wf l h bs" and "free_wf l' h' cs" and "free_set bs = free_set cs"
  shows "spans bs = spans cs"
  using assms
proof (induction bs arbitrary: l l' cs)
  case Nil
  then show ?case by (cases cs) (auto simp: bytes_def)
next
  case (Cons b bs)
  then obtain c cs' where cs: "cs = c # cs'"
    by (cases cs) (auto simp: bytes_def)
  have b: "free_wf l h (b # bs)" and c: "free_wf l' h' (c # cs')"
    and eq: "free_set (b # bs) = free_set (c # cs')"
    using Cons.prems cs by simp_all
  have ends: "lo b = lo c" "hi b = hi c"
    using free_wf_hd [OF b c eq] by simp_all
  then have bc: "a_start b = a_start c" "a_size b = a_size c"
    by (auto intro: unsigned_word_eqI)
  have "free_set bs = free_set cs'"
    using free_wf_Cons_sets(4) [OF b] free_wf_Cons_sets(4) [OF c] eq ends by simp
  then have "spans bs = spans cs'"
    using b c by (intro Cons.IH) auto
  with bc cs show ?case by simp
qed

subsection \<open>Freeing\<close>

text \<open>Merging onto the tail of \<open>cur\<close>, and onto the block after it where the two now touch.\<close>

lemma free_walk_tail:
  assumes wf: "free_wf l h (cur # rest)" and h: "h \<le> 2 ^ 32" "h < 2 ^ 32 \<or> 0 < l"
    and a: "hi a \<le> h" "0 < unat (a_size a)" "bytes a \<inter> free_set (cur # rest) = {}"
    and tail: "hi cur = lo a"
  shows "free_wf l h (free_walk a (cur # rest)) \<and>
    free_set (free_walk a (cur # rest)) = bytes a \<union> free_set (cur # rest)"
proof -
  let ?cur = "cur\<lparr>a_size := a_size cur + a_size a\<rparr>"
  have cur: "l \<le> lo cur" "0 < unat (a_size cur)" "hi cur \<le> h" and rest: "free_wf (Suc (hi cur)) h rest"
    using wf by auto
  have e1: "a_start cur + a_size cur = a_start a"
    using cur h tail a by (subst end_eq_iff) auto
  have sz: "unat (a_size cur + a_size a) = unat (a_size cur) + unat (a_size a)"
    using cur h a tail by (intro unat_add_le) auto
  show ?thesis
  proof (cases rest)
    case Nil
    then show ?thesis using tail e1 sz cur a by (auto simp: bytes_def)
  next
    case (Cons nxt rest')
    have n: "lo cur < lo nxt" "0 < unat (a_size nxt)" "hi nxt \<le> h" "free_wf (Suc (hi nxt)) h rest'"
      using rest Cons by auto
    have "bytes a \<inter> bytes nxt = {}" using a(3) Cons by auto
    then have dn: "hi a \<le> lo nxt"
      using tail n rest Cons a(2) by (simp add: bytes_def ivl_disjoint_iff)
    have e3: "a_start ?cur + a_size ?cur = a_start nxt \<longleftrightarrow> hi ?cur = lo nxt"
      using n cur tail sz h a by (intro end_eq_iff) auto
    have sz3: "unat (a_size ?cur + a_size nxt) = unat (a_size ?cur) + unat (a_size nxt)"
      if "hi ?cur = lo nxt"
      using n cur tail sz h that by (intro unat_add_le) auto
    show ?thesis using tail e1 sz cur a n dn e3 sz3 Cons
      by (auto simp: bytes_def Let_def elim!: free_wf_mono)
  qed
qed

lemma free_walk_spec:
  assumes "free_wf l h bs" and "h \<le> 2 ^ 32" and "h < 2 ^ 32 \<or> 0 < l"
    and "l \<le> lo a" and "hi a \<le> h" and "0 < unat (a_size a)" and "bytes a \<inter> free_set bs = {}"
  shows "free_wf l h (free_walk a bs) \<and> free_set (free_walk a bs) = bytes a \<union> free_set bs"
  using assms(1,3,4,7)
proof (induction bs arbitrary: l)
  case Nil
  then show ?case using assms by simp
next
  case (Cons cur rest)
  have cur: "l \<le> lo cur" "0 < unat (a_size cur)" "hi cur \<le> h" and rest: "free_wf (Suc (hi cur)) h rest"
    using Cons.prems(1) by auto
  have dj: "hi a \<le> lo cur \<or> hi cur \<le> lo a"
    using Cons.prems(4) cur(2) assms(6)
    by (simp add: bytes_def Int_Un_distrib ivl_disjoint_iff) linarith
  have e: "a_start cur + a_size cur = a_start a \<longleftrightarrow> hi cur = lo a"
      "a_start a + a_size a = a_start cur \<longleftrightarrow> hi a = lo cur"
    using cur assms Cons.prems by (intro end_eq_iff; auto)+
  consider (tail) "hi cur = lo a" | (before) "hi cur \<noteq> lo a" "lo a < lo cur"
    | (after) "hi cur \<noteq> lo a" "lo cur \<le> lo a"
    by linarith
  then show ?case
  proof cases
    case tail
    with Cons.prems assms show ?thesis by (intro free_walk_tail) auto
  next
    case before
    have "unat (a_size cur + a_size a) = unat (a_size cur) + unat (a_size a)" if "hi a = lo cur"
      using cur assms Cons.prems that by (intro unat_add_le) auto
    with before e cur assms Cons.prems rest dj show ?thesis
      by (auto simp: bytes_def word_less_nat_alt elim!: free_wf_mono)
  next
    case after
    have "Suc (hi cur) \<le> lo a" using after dj assms(6) by linarith
    moreover have "bytes a \<inter> free_set rest = {}" using Cons.prems(4) by auto
    ultimately have "free_wf (Suc (hi cur)) h (free_walk a rest) \<and>
        free_set (free_walk a rest) = bytes a \<union> free_set rest"
      using Cons.IH [OF rest] by simp
    with after e cur show ?thesis by (auto simp: word_less_nat_alt)
  qed
qed

lemma free_sound:
  assumes "pool_wf p" and "0 < unat (a_size a)" and "bytes a \<subseteq> pool_span p" and "bytes a \<inter> pool_free p = {}"
  shows "pool_wf (xrp_private_free p a) \<and> pool_span (xrp_private_free p a) = pool_span p \<and>
    pool_free (xrp_private_free p a) = pool_free p \<union> bytes a"
proof -
  let ?l = "unat (p_start p)" and ?h = "unat (p_start p) + unat (p_size p)"
  have wf: "free_wf ?l ?h (free_list p)" "?h \<le> 2 ^ 32" using assms(1) by (simp_all add: pool_wf_def)
  have in_span: "?l \<le> lo a" "hi a \<le> ?h"
    using assms(2,3) by (simp_all add: bytes_def pool_span_def)
  have "?h < 2 ^ 32 \<or> 0 < ?l" by (cases "?l = 0") simp_all
  with free_walk_spec [OF wf(1,2) _ in_span assms(2)] assms(4)
  have "free_wf ?l ?h (free_walk a (free_list p)) \<and>
      free_set (free_walk a (free_list p)) = bytes a \<union> free_set (free_list p)"
    by (simp add: pool_free_def)
  then show ?thesis using wf(2)
    by (auto simp: xrp_private_free_def pool_wf_def pool_span_def pool_free_def)
qed

subsection \<open>Allocating\<close>

lemma carve_block_spec:
  assumes wf: "free_wf l h (cur # rest)" and h: "h \<le> 2 ^ 32"
    and s: "lo cur \<le> unat s" and n: "0 < unat sz" and e: "unat s + unat sz \<le> hi cur"
    and c: "carve_block s sz cur = (slot, pieces)"
  shows "free_wf l h (pieces @ rest)"
    and "free_set pieces = bytes cur - {unat s..<unat s + unat sz}"
proof -
  have cur: "0 < unat (a_size cur)" "hi cur \<le> 2 ^ 32" "hi cur \<le> h" "l \<le> lo cur"
    and rest: "free_wf (Suc (hi cur)) h rest"
    using wf h by auto
  have eqs: "s = a_start cur \<longleftrightarrow> unat s = lo cur" by (simp add: word_unat_eq_iff)
  have eqe: "s + sz = a_start cur + a_size cur \<longleftrightarrow> unat s + unat sz = hi cur"
    using cur n e by (intro sum_eq_iff) auto
  have nw: "unat (s + sz) = unat s + unat sz" if "unat s + unat sz \<noteq> hi cur"
    using cur e that by (intro unat_add_le) auto
  have d1: "unat (s - a_start cur) = unat s - lo cur"
    using s by (simp add: unat_sub word_le_nat_alt)
  have d2: "unat (a_size cur - (s + sz - a_start cur)) = hi cur - (unat s + unat sz)"
    if "unat s + unat sz \<noteq> hi cur"
  proof -
    have "unat (s + sz - a_start cur) = unat s + unat sz - lo cur"
      using nw [OF that] s by (simp add: unat_sub word_le_nat_alt)
    then show ?thesis using e s by (subst unat_sub) (auto simp: word_le_nat_alt)
  qed
  have d3: "unat (a_start cur + a_size cur - (s + sz)) = hi cur - (unat s + unat sz)"
    if "unat s + unat sz \<noteq> hi cur"
    using d2 [OF that] by (simp add: algebra_simps)
  show "free_wf l h (pieces @ rest)"
    using c [symmetric] eqs eqe nw d1 d2 d3 s e n cur rest
    by (auto simp: carve_block_def Let_def split: if_splits elim!: free_wf_mono)
  show "free_set pieces = bytes cur - {unat s..<unat s + unat sz}"
    using c [symmetric] eqs eqe nw d1 d2 d3 s e n cur
    by (auto simp: carve_block_def Let_def bytes_def split: if_splits)
qed

lemma fits_code:
  assumes "pow2 align" and "0 < unat sz" and "unat sz + unat align \<le> 2 ^ 32"
    and b: "hi b \<le> 2 ^ 32"
  shows "((a_start b \<le> ALIGN (a_start b) align \<and>
      ALIGN (a_start b) align - a_start b + sz \<le> a_size b) \<longleftrightarrow> fits (unat align) (unat sz) b)
    \<and> (fits (unat align) (unat sz) b \<longrightarrow> unat (ALIGN (a_start b) align) = round_up (unat align) (lo b))"
    (is "(?L \<longleftrightarrow> ?R) \<and> (?R \<longrightarrow> unat ?s = _)")
proof -
  obtain k where k: "k < 32" "unat align = 2 ^ k" using pow2_unat [OF assms(1)] by blast
  have a0: "0 < unat align" using k by simp
  note ge = round_up_ge [OF a0, of "lo b"] and lt = round_up_less [OF a0, of "lo b"]
  show ?thesis
  proof (cases "lo b + unat align \<le> 2 ^ 32")
    case True
    then have s: "unat ?s = round_up (unat align) (lo b)"
      using assms(1) by (intro ALIGN_no_wrap)
    have le: "a_start b \<le> ?s" using s ge by (simp add: word_le_nat_alt)
    then have d: "unat (?s - a_start b) = round_up (unat align) (lo b) - lo b"
      using s by (simp add: unat_sub)
    have "unat (?s - a_start b + sz) = round_up (unat align) (lo b) - lo b + unat sz"
      using d ge lt assms(3) by (subst unat_add_le) auto
    then show ?thesis using le s ge by (auto simp: word_le_nat_alt fits_def)
  next
    case False
    have z: "?s = 0" using assms(1) False by (intro ALIGN_wrap) auto
    have "unat align dvd 2 ^ 32" unfolding k(2) using k(1) by (intro le_imp_power_dvd) simp
    then have "2 ^ 32 \<le> round_up (unat align) (lo b)"
      using False a0 by (intro round_up_past_end) auto
    then have "\<not> ?R" using b assms(2) by (simp add: fits_def)
    moreover have "0 < lo b" using False k exp_less_32 [OF k(1)] by simp
    then have "\<not> ?L" using z by (simp add: word_le_nat_alt)
    ultimately show ?thesis by simp
  qed
qed

lemma first_fit_hd: "fits align n b \<Longrightarrow> first_fit align n (b # bs) (round_up align (lo b))"
  unfolding first_fit_def by (rule exI [of _ "[]"]) auto

lemma first_fit_skip:
  assumes "\<not> fits align n b" and "first_fit align n bs s"
  shows "first_fit align n (b # bs) s"
proof -
  obtain pre c post where "bs = pre @ c # post" "\<forall>d\<in>set pre. \<not> fits align n d"
      "fits align n c" "s = round_up align (lo c)"
    using assms(2) by (auto simp: first_fit_def)
  with assms(1) show ?thesis
    unfolding first_fit_def by (intro exI [of _ "b # pre"]) auto
qed

lemma first_fit_in_block:
  "first_fit align n bs s \<Longrightarrow> 0 < align \<Longrightarrow> \<exists>b\<in>set bs. lo b \<le> s \<and> s + n \<le> hi b"
  unfolding first_fit_def fits_def by (metis in_set_conv_decomp round_up_ge)

lemma first_fit_dvd: "first_fit align n bs s \<Longrightarrow> align dvd s"
  by (auto simp: first_fit_def)

lemma first_fit_least:
  assumes wf: "free_wf l h bs" and ff: "first_fit align n bs t" and n: "0 < n" and al: "0 < align"
    and s: "align dvd s" "{s..<s + n} \<subseteq> free_set bs"
  shows "t \<le> s"
proof -
  obtain c where c: "c \<in> set bs" "lo c \<le> s" "s + n \<le> hi c"
    using free_wf_contains [OF wf n] s(2) by blast
  have rc: "round_up align (lo c) \<le> s" using round_up_least [OF al s(1) c(2)] .
  then have fc: "fits align n c" using c(3) by (simp add: fits_def)
  obtain pre b post where bs: "bs = pre @ b # post" "\<forall>d\<in>set pre. \<not> fits align n d"
      and b: "fits align n b" "t = round_up align (lo b)"
    using ff by (auto simp: first_fit_def)
  show ?thesis
  proof (cases "c = b")
    case False
    with c(1) bs fc have "c \<in> set post" by auto
    then have "hi b < lo c" using free_wf_after wf bs(1) by blast
    then show ?thesis using b c(2) by (simp add: fits_def)
  qed (use rc b in simp)
qed

lemma alloc_walk_None:
  assumes req: "pow2 align" "0 < unat sz" "unat sz + unat align \<le> 2 ^ 32"
    and h: "h \<le> 2 ^ 32" and wf: "free_wf l h bs" and none: "alloc_walk align sz bs = None"
  shows "\<forall>b\<in>set bs. \<not> fits (unat align) (unat sz) b"
  using wf none
proof (induction bs arbitrary: l)
  case (Cons cur rest)
  then show ?case using fits_code [OF req, of cur] h
    by (auto simp: Let_def split: if_splits option.splits prod.splits)
qed simp

lemma alloc_walk_Some:
  assumes req: "pow2 align" "0 < unat sz" "unat sz + unat align \<le> 2 ^ 32"
    and h: "h \<le> 2 ^ 32" and wf: "free_wf l h bs" and some: "alloc_walk align sz bs = Some (s, slot, bs')"
  shows "free_wf l h bs' \<and> free_set bs' = free_set bs - {unat s..<unat s + unat sz} \<and>
    first_fit (unat align) (unat sz) bs (unat s)"
  using wf some
proof (induction bs arbitrary: l bs')
  case (Cons cur rest)
  let ?s = "ALIGN (a_start cur) align"
  have cur: "hi cur \<le> 2 ^ 32" and rest: "free_wf (Suc (hi cur)) h rest"
    using Cons.prems h by auto
  have a0: "0 < unat align" using req(1) by (simp add: pow2_def unat_gt_0)
  note fc = fits_code [OF req cur] and below = free_wf_bounds [OF rest]
  show ?case
  proof (cases "fits (unat align) (unat sz) cur")
    case True
    with fc Cons.prems obtain pieces where c: "carve_block ?s sz cur = (slot, pieces)"
      and r: "s = ?s" "bs' = pieces @ rest" and s: "unat ?s = round_up (unat align) (lo cur)"
      by (auto simp: Let_def split: prod.splits)
    have ok: "lo cur \<le> unat ?s" "unat ?s + unat sz \<le> hi cur"
      using True s round_up_ge [OF a0, of "lo cur"] by (auto simp: fits_def)
    have "free_set rest - {unat ?s..<unat ?s + unat sz} = free_set rest"
      using below ok by fastforce
    with carve_block_spec [OF Cons.prems(1) h ok(1) req(2) ok(2) c] r s first_fit_hd [OF True]
    show ?thesis by auto
  next
    case False
    with fc Cons.prems obtain rest' where some': "alloc_walk align sz rest = Some (s, slot, rest')"
      and bs': "bs' = cur # rest'"
      by (auto simp: Let_def split: option.splits if_splits)
    note IH = Cons.IH [OF rest some']
    then obtain b where "b \<in> set rest" "lo b \<le> unat s" using first_fit_in_block a0 by blast
    with free_wf_member [OF rest] have "Suc (hi cur) \<le> unat s" by fastforce
    then have "bytes cur \<inter> {unat s..<unat s + unat sz} = {}" by (auto simp: bytes_def)
    with IH bs' Cons.prems(1) first_fit_skip [OF False] show ?thesis by auto
  qed
qed simp

lemma eff_align_pos [simp]: "0 < eff_align align"
  by (simp add: eff_align_def)

lemma request_align:
  assumes "align AND (align - 1) = 0"
  shows "pow2 (ALIGN (if align = 0 then 1 else align) PAGE_SIZE) \<and>
    unat (ALIGN (if align = 0 then 1 else align) PAGE_SIZE) = eff_align align"
  using assms ALIGN_page_pow2 [of align] ALIGN_page_pow2 [of 1]
  by (auto simp: eff_align_def pow2_def)

lemma request_size:
  assumes "request_ok sz align"
  shows "unat (ALIGN sz PAGE_SIZE) = eff_size sz \<and> 0 < eff_size sz"
proof -
  have "unat sz \<le> eff_size sz" by (simp add: eff_size_def round_up_ge)
  moreover have "eff_size sz + 4096 \<le> 2 ^ 32" 
    using assms max.cobounded1 [of 4096 "unat align"] by (auto simp: request_ok_def request_fits_def eff_align_def)
  moreover have "0 < unat sz" using assms by (simp add: request_ok_def unat_gt_0)
  ultimately show ?thesis
    using ALIGN_no_wrap [OF pow2_PAGE_SIZE, of sz] by (simp add: eff_size_def)
qed

lemma private_alloc_cases:
  assumes req: "request_ok sz align" and wf: "pool_wf p"
  shows "(\<exists>s slot fl. xrp_private_alloc True True p sz align =
        (Inr \<lparr>a_start = s, a_size = ALIGN sz PAGE_SIZE, a_ref = 1\<rparr>, p\<lparr>free_list := fl\<rparr>) \<and>
        first_fit (eff_align align) (eff_size sz) (free_list p) (unat s) \<and>
        pool_wf (p\<lparr>free_list := fl\<rparr>) \<and>
        free_set fl = pool_free p - {unat s..<unat s + eff_size sz})
    \<or> (xrp_private_alloc True True p sz align = (Inl ENOMEM, p) \<and>
        (\<forall>b\<in>set (free_list p). \<not> fits (eff_align align) (eff_size sz) b))"
proof -
  let ?a = "ALIGN (if align = 0 then 1 else align) PAGE_SIZE" and ?n = "ALIGN sz PAGE_SIZE"
  have al: "pow2 ?a" "unat ?a = eff_align align"
    using request_align [of align] req by (auto simp: request_ok_def)
  have sz: "unat ?n = eff_size sz" "0 < unat ?n" using request_size [OF req] by simp_all
  have r: "unat ?n + unat ?a \<le> 2 ^ 32" using req al sz by (simp add: request_ok_def request_fits_def)
  have h: "unat (p_start p) + unat (p_size p) \<le> 2 ^ 32"
    and fw: "free_wf (unat (p_start p)) (unat (p_start p) + unat (p_size p)) (free_list p)"
    using wf by (simp_all add: pool_wf_def)
  have unfold: "xrp_private_alloc True True p sz align =
      (case alloc_walk ?a ?n (free_list p) of None \<Rightarrow> (Inl ENOMEM, p)
       | Some (s, slot, fl) \<Rightarrow> (Inr \<lparr>a_start = s, a_size = ?n, a_ref = 1\<rparr>, p\<lparr>free_list := fl\<rparr>))"
    using req by (auto simp: xrp_private_alloc_def request_ok_def Let_def split: option.splits)
  show ?thesis
  proof (cases "alloc_walk ?a ?n (free_list p)")
    case None
    then show ?thesis using alloc_walk_None [OF al(1) sz(2) r h fw None] unfold al sz by simp
  next
    case (Some q)
    then obtain s slot fl where q: "alloc_walk ?a ?n (free_list p) = Some (s, slot, fl)"
      by (cases q) auto
    from alloc_walk_Some [OF al(1) sz(2) r h fw q] show ?thesis
      unfolding unfold using q al sz h by (fastforce simp: pool_wf_def pool_free_def)
  qed
qed

lemma alloc_sound:
  assumes "pool_wf p" and "request_ok sz align"
    and "xrp_private_alloc True True p sz align = (Inr a, p')"
  shows "pool_wf p' \<and> pool_span p' = pool_span p \<and>
    bytes a \<subseteq> pool_free p \<and> pool_free p' = pool_free p - bytes a \<and>
    unat (a_size a) = eff_size sz \<and> eff_align align dvd lo a \<and> a_ref a = 1"
proof -
  from private_alloc_cases [OF assms(2,1)] assms(3) obtain fl
    where p': "p' = p\<lparr>free_list := fl\<rparr>" "pool_wf p'" and sz: "a_size a = ALIGN sz PAGE_SIZE" "a_ref a = 1"
      and ff: "first_fit (eff_align align) (eff_size sz) (free_list p) (lo a)"
      and fl: "free_set fl = pool_free p - {lo a..<lo a + eff_size sz}"
    by auto
  have n: "unat (a_size a) = eff_size sz" using request_size [OF assms(2)] sz by simp
  obtain b where b: "b \<in> set (free_list p)" "lo b \<le> lo a" "hi a \<le> hi b"
    using first_fit_in_block [OF ff] n by auto
  then have "bytes a \<subseteq> bytes b" by (auto simp: bytes_def)
  with b(1) have "bytes a \<subseteq> pool_free p" by (auto simp: pool_free_def free_set_def)
  then show ?thesis using p' sz n fl first_fit_dvd [OF ff]
    by (simp add: pool_span_def pool_free_def bytes_def)
qed

lemma alloc_complete:
  assumes "pool_wf p" and "request_ok sz align"
    and "eff_align align dvd s" and "{s..<s + eff_size sz} \<subseteq> pool_free p"
  shows "\<exists>a p'. xrp_private_alloc True True p sz align = (Inr a, p') \<and> lo a \<le> s"
proof -
  have wf: "free_wf (unat (p_start p)) (unat (p_start p) + unat (p_size p)) (free_list p)"
    using assms(1) by (simp add: pool_wf_def)
  have n: "0 < eff_size sz" using request_size [OF assms(2)] by simp
  obtain c where c: "c \<in> set (free_list p)" "lo c \<le> s" "s + eff_size sz \<le> hi c"
    using free_wf_contains [OF wf n, of s] assms(4) by (auto simp: pool_free_def)
  then have "fits (eff_align align) (eff_size sz) c"
    using round_up_least [OF _ assms(3) c(2)] by (simp add: fits_def)
  with private_alloc_cases [OF assms(2,1)] c(1) obtain a p'
    where a: "xrp_private_alloc True True p sz align = (Inr a, p')"
      "first_fit (eff_align align) (eff_size sz) (free_list p) (lo a)"
    by fastforce
  then show ?thesis
    using first_fit_least [OF wf a(2) n _ assms(3)] assms(4) by (auto simp: pool_free_def)
qed

lemma private_alloc_reject:
  "request_fits sz al \<Longrightarrow> \<not> request_ok sz al \<Longrightarrow> xrp_private_alloc k1 k2 p sz al = (Inl EINVAL, p)"
  by (auto simp: request_ok_def xrp_private_alloc_def)

lemma pool_free_subset: "pool_wf p \<Longrightarrow> pool_free p \<subseteq> pool_span p"
  using free_wf_bounds by (auto simp: pool_wf_def pool_free_def pool_span_def)

lemma init_pool_wf:
  assumes "xrp_init_private_pool True True start sz = Inr p"
    and "sz \<noteq> 0" and "unat start + unat sz \<le> 2 ^ 32"
  shows "pool_wf p \<and> pool_free p = pool_span p"
  using assms by (auto simp: xrp_init_private_pool_def pool_wf_def pool_free_def pool_span_def bytes_def unat_gt_0)

lemma sample_pool_wf: "pool_wf sample_pool"
  by (simp add: sample_pool_def pool_wf_def)

subsection \<open>Properties\<close>



text \<open>
  C19: Freeing a block that lies in the pool and overlaps no free block adds exactly its bytes to the
  free list and keeps the invariant (blocks that now touch are merged).
\<close>

theorem private_free_spec:
  assumes "pool_wf p" and "0 < unat (a_size a)" and "bytes a \<subseteq> pool_span p"
    and "bytes a \<inter> pool_free p = {}"
  shows "pool_wf (xrp_private_free p a) \<and> pool_span (xrp_private_free p a) = pool_span p \<and>
    pool_free (xrp_private_free p a) = pool_free p \<union> bytes a"
  using assms by (rule free_sound)

theorem private_free_spec_witness:
  "xrp_private_free sample_pool \<lparr>a_start = 0x2000, a_size = 0x1000, a_ref = 0\<rparr> =
     sample_pool\<lparr>free_list := [\<lparr>a_start = 0x1000, a_size = 0x6000, a_ref = 0\<rparr>]\<rparr> \<and>
   pool_wf (sample_pool\<lparr>free_list := [\<lparr>a_start = 0x1000, a_size = 0x6000, a_ref = 0\<rparr>]\<rparr>)"
proof -
  let ?a = "\<lparr>a_start = 0x2000, a_size = 0x1000, a_ref = 0\<rparr>"
  have run: "xrp_private_free sample_pool ?a =
     sample_pool\<lparr>free_list := [\<lparr>a_start = 0x1000, a_size = 0x6000, a_ref = 0\<rparr>]\<rparr>"
    by (simp add: xrp_private_free_def sample_pool_def)
  have "bytes ?a \<subseteq> pool_span sample_pool" "bytes ?a \<inter> pool_free sample_pool = {}"
    by (auto simp: bytes_def pool_span_def pool_free_def sample_pool_def)
  with private_free_spec [OF sample_pool_wf, of ?a] run show ?thesis by simp
qed

text \<open>
  Freeing what \<open>xrp_private_alloc\<close> returned restores the free list block for block: no
  fragmentation is left behind.
\<close>

lemma alloc_free_roundtrip:
  assumes "pool_wf p" and "request_ok sz align"
    and "xrp_private_alloc True True p sz align = (Inr a, p')"
  shows "spans (free_list (xrp_private_free p' a)) = spans (free_list p)"
proof -
  note A = alloc_sound [OF assms]
  have n: "0 < unat (a_size a)" using A request_size [OF assms(2)] by simp
  have "bytes a \<subseteq> pool_span p'" using A pool_free_subset [OF assms(1)] by blast
  with A n have F: "pool_wf (xrp_private_free p' a)"
      "pool_free (xrp_private_free p' a) = pool_free p"
    using free_sound [of p' a] by auto
  then show ?thesis
    using assms(1) by (intro free_wf_unique) (auto simp: pool_wf_def pool_free_def)
qed

lemma alloc_free_roundtrip_example:
  "spans (free_list (xrp_private_free (snd (xrp_private_alloc True True sample_pool 0x1001 0))
     \<lparr>a_start = 0x3000, a_size = 0x2000, a_ref = 1\<rparr>)) = [(0x1000, 0x1000), (0x3000, 0x4000)]"
proof -
  let ?p' = "sample_pool\<lparr>free_list := [\<lparr>a_start = 0x1000, a_size = 0x1000, a_ref = 0\<rparr>,
        \<lparr>a_start = 0x5000, a_size = 0x2000, a_ref = 0\<rparr>]\<rparr>"
  have run: "xrp_private_alloc True True sample_pool 0x1001 0 =
     (Inr \<lparr>a_start = 0x3000, a_size = 0x2000, a_ref = 1\<rparr>, ?p')"
    by (simp add: xrp_private_alloc_def sample_pool_def ALIGN_def PAGE_SIZE_def carve_block_def)
  have "request_ok 0x1001 0"
    by (simp add: request_ok_def request_fits_def eff_align_def eff_size_def round_up_def)
  from alloc_free_roundtrip [OF sample_pool_wf this run] run show ?thesis
    by (simp add: sample_pool_def)
qed

text \<open>
  When the walk had to split a block and the second \<open>kzalloc\<close> fails, \<open>xrp_private_alloc\<close> returns
  \<open>ENOMEM\<close> although it has already taken the run it found out of the free list: those bytes are
  neither free nor owned by anybody.
\<close>

lemma private_alloc_split_leak:
  assumes "xrp_private_alloc True False p sz align = (Inl ENOMEM, p')" and "p' \<noteq> p"
    and "pool_wf p" and "request_ok sz align"
  shows "\<exists>a. xrp_private_alloc True True p sz align = (Inr a, p') \<and> bytes a \<noteq> {} \<and>
    pool_free p' = pool_free p - bytes a \<and> bytes a \<subseteq> pool_free p"
proof -
  obtain a where a: "xrp_private_alloc True True p sz align = (Inr a, p')"
    using assms(1,2)
    by (auto simp: xrp_private_alloc_def Let_def split: if_splits option.splits prod.splits)
  have "bytes a \<noteq> {}"
    using alloc_sound [OF assms(3,4) a] request_size [OF assms(4)] by (simp add: bytes_def)
  with alloc_sound [OF assms(3,4) a] a show ?thesis by blast
qed

lemma private_alloc_split_leak_example:
  "\<exists>a. xrp_private_alloc True True sample_pool 0x1000 0x4000 =
     (Inr a, snd (xrp_private_alloc True False sample_pool 0x1000 0x4000)) \<and> bytes a \<noteq> {}"
proof -
  let ?p' = "sample_pool\<lparr>free_list := [\<lparr>a_start = 0x1000, a_size = 0x1000, a_ref = 0\<rparr>,
    \<lparr>a_start = 0x3000, a_size = 0x1000, a_ref = 0\<rparr>, \<lparr>a_start = 0x5000, a_size = 0x2000, a_ref = 0\<rparr>]\<rparr>"
  have run: "xrp_private_alloc True False sample_pool 0x1000 0x4000 = (Inl ENOMEM, ?p')"
    by (simp add: xrp_private_alloc_def sample_pool_def ALIGN_def PAGE_SIZE_def carve_block_def)
  have "?p' \<noteq> sample_pool" by (simp add: sample_pool_def)
  moreover have "request_ok 0x1000 0x4000"
    by (simp add: request_ok_def request_fits_def eff_align_def eff_size_def round_up_def)
  ultimately show ?thesis
    using private_alloc_split_leak [OF run _ sample_pool_wf] run by auto
qed

text \<open>
  Outside \<open>request_fits\<close> the code misbehaves.  A size within a page of \<open>2 ^ 32\<close> is rounded to zero and
  an empty allocation is returned; a size that wraps around together with the alignment gap is
  granted although it is larger than the pool, and the free list then overlaps itself.
\<close>

lemma alloc_wraps_to_empty:
  "xrp_private_alloc True True sample_pool 0xfffff001 0 =
     (Inr \<lparr>a_start = 0x1000, a_size = 0, a_ref = 1\<rparr>, sample_pool)"
  by (simp add: xrp_private_alloc_def sample_pool_def ALIGN_def PAGE_SIZE_def carve_block_def)

lemma alloc_wraps_past_pool:
  "fst (xrp_private_alloc True True sample_pool 0xfffff000 0x2000) =
     Inr \<lparr>a_start = 0x2000, a_size = 0xfffff000, a_ref = 1\<rparr> \<and>
   \<not> pool_wf (snd (xrp_private_alloc True True sample_pool 0xfffff000 0x2000))"
  by (simp add: xrp_private_alloc_def sample_pool_def ALIGN_def PAGE_SIZE_def carve_block_def pool_wf_def)

end
