(* ===== verification/XRP_Pool.thy ===== *)
theory XRP_Pool
  imports XRP_Alloc
begin

text \<open>
  The pool interface of \<^verbatim>\<open>xrp-kernel/xrp_alloc.h\<close> (\<open>struct xrp_allocation_ops\<close>, the reference count of
  an allocation) and its second provider, the CMA pool of \<^verbatim>\<open>xrp-kernel/xrp_cma_alloc.c\<close>.

  The interface is the locale \<open>allocation_pool\<close>: what a client of a pool may rely on.  It is
  interpreted on the private pool of \<^theory_text>\<open>XRP_Alloc\<close>.  The client proved correct once in the locale is
  the book-keeping of live allocations; \<open>pool_run\<close> executes an arbitrary sequence of allocations,
  \<open>xrp_allocation_get\<close> and \<open>xrp_allocation_put\<close> calls on the pool.

  The DMA functions of the kernel behind the CMA pool are parameters.
\<close>

subsection \<open>Operations\<close>

definition xrp_allocation_get :: "xrp_allocation \<Rightarrow> xrp_allocation" where
  "xrp_allocation_get a = a\<lparr>a_ref := a_ref a + 1\<rparr>"

definition xrp_allocation_put ::
  "('pool \<Rightarrow> xrp_allocation \<Rightarrow> 'pool) \<Rightarrow> 'pool \<Rightarrow> xrp_allocation \<Rightarrow> xrp_allocation option \<times> 'pool" where
  "xrp_allocation_put free pool a =
     (let a = a\<lparr>a_ref := a_ref a - 1\<rparr> in
      if a_ref a = 0 then (None, free pool a) else (Some a, pool))"

text \<open>
  The CMA pool.  \<open>dma_alloc_attrs\<close> and \<open>dma_free_attrs\<close> act on the state \<open>'d\<close> of the device's DMA
  memory; an allocation yields the kernel address and the DMA address.  \<open>dma_to_phys\<close> and
  \<open>phys_to_dma\<close> convert between the address spaces.
\<close>

record xrp_cma_allocation =
  allocation :: xrp_allocation
  kvaddr :: u32

definition xrp_cma_alloc ::
  "('d \<Rightarrow> u32 \<Rightarrow> (u32 \<times> u32) option \<times> 'd) \<Rightarrow> (u32 \<Rightarrow> u32) \<Rightarrow> bool \<Rightarrow> 'd \<Rightarrow> u32 \<Rightarrow> u32 \<Rightarrow>
     (errno + xrp_cma_allocation) \<times> 'd" where
  "xrp_cma_alloc dma_alloc_attrs dma_to_phys new_ok dev sz align =
     (let sz = ALIGN sz PAGE_SIZE in
      if \<not> new_ok then (Inl ENOMEM, dev)
      else case dma_alloc_attrs dev sz of
             (None, dev) \<Rightarrow> (Inl ENOMEM, dev)
           | (Some (kv, dma_addr), dev) \<Rightarrow>
               (Inr \<lparr>allocation = xrp_allocation_get
                       \<lparr>a_start = dma_to_phys dma_addr, a_size = sz, a_ref = 0\<rparr>,
                     kvaddr = kv\<rparr>, dev))"

definition xrp_cma_free ::
  "('d \<Rightarrow> u32 \<Rightarrow> u32 \<Rightarrow> u32 \<Rightarrow> 'd) \<Rightarrow> (u32 \<Rightarrow> u32) \<Rightarrow> 'd \<Rightarrow> xrp_cma_allocation \<Rightarrow> 'd" where
  "xrp_cma_free dma_free_attrs phys_to_dma dev a =
     dma_free_attrs dev (a_size (allocation a)) (kvaddr a) (phys_to_dma (a_start (allocation a)))"

definition xrp_cma_offset :: "xrp_allocation \<Rightarrow> u32" where
  "xrp_cma_offset a = a_start a"

text \<open>\<open>xrp_init_cma_pool\<close> only stores the device the parameters stand for.\<close>

definition xrp_init_cma_pool :: "bool \<Rightarrow> 'd \<Rightarrow> errno + 'd" where
  "xrp_init_cma_pool pool_ok dev = (if \<not> pool_ok then Inl ENOMEM else Inr dev)"

subsection \<open>Specification\<close>

text \<open>The live allocations and the available bytes partition the pool.\<close>

definition tiles :: "nat set \<Rightarrow> nat set \<Rightarrow> xrp_allocation list \<Rightarrow> bool" where
  "tiles av sp live \<longleftrightarrow>
     av \<union> (\<Union>a\<in>set live. bytes a) = sp \<and>
     (\<forall>a\<in>set live. 0 < unat (a_size a) \<and> bytes a \<inter> av = {}) \<and>
     sorted_wrt (\<lambda>a b. bytes a \<inter> bytes b = {}) live"

definition accounted ::
  "('pool \<Rightarrow> bool) \<Rightarrow> ('pool \<Rightarrow> nat set) \<Rightarrow> ('pool \<Rightarrow> nat set) \<Rightarrow> 'pool \<Rightarrow> xrp_allocation list \<Rightarrow> bool" where
  "accounted pwf avail extent p live \<longleftrightarrow> pwf p \<and> tiles (avail p) (extent p) live"

text \<open>A client of the private pool: the allocations it holds, and the operations it may perform.\<close>

datatype pool_op = Op_alloc u32 u32 | Op_get nat | Op_put nat

record pool_client =
  c_pool :: xrp_private_pool
  c_live :: "xrp_allocation list"

fun pool_op_step :: "pool_client \<Rightarrow> pool_op \<Rightarrow> pool_client" where
  "pool_op_step c (Op_alloc sz al) =
     (case xrp_private_alloc True True (c_pool c) sz al of
        (Inl e, p) \<Rightarrow> c\<lparr>c_pool := p\<rparr>
      | (Inr a, p) \<Rightarrow> \<lparr>c_pool = p, c_live = a # c_live c\<rparr>)"
| "pool_op_step c (Op_get i) =
     (if i < length (c_live c)
      then c\<lparr>c_live := (c_live c)[i := xrp_allocation_get (c_live c ! i)]\<rparr> else c)"
| "pool_op_step c (Op_put i) =
     (if i < length (c_live c)
      then case xrp_allocation_put xrp_private_free (c_pool c) (c_live c ! i) of
             (r, p) \<Rightarrow> \<lparr>c_pool = p,
                       c_live = take i (c_live c) @ (case r of None \<Rightarrow> [] | Some b \<Rightarrow> [b]) @
                         drop (Suc i) (c_live c)\<rparr>
      else c)"

fun pool_run :: "pool_client \<Rightarrow> pool_op list \<Rightarrow> pool_client" where
  "pool_run c [] = c"
| "pool_run c (x # xs) = pool_run (pool_op_step c x) xs"

fun op_fits :: "pool_op \<Rightarrow> bool" where
  "op_fits (Op_alloc sz al) = request_fits sz al"
| "op_fits _ = True"

abbreviation client_ok :: "pool_client \<Rightarrow> bool" where
  "client_ok c \<equiv> accounted pool_wf pool_free pool_span (c_pool c) (c_live c)"

subsection \<open>Tilings\<close>

lemma tiles_mid:
  "tiles av sp (xs @ a # ys) \<longleftrightarrow>
     0 < unat (a_size a) \<and> bytes a \<inter> av = {} \<and> tiles (av \<union> bytes a) sp (xs @ ys)"
proof -
  have "sorted_wrt (\<lambda>a b. bytes a \<inter> bytes b = {}) (xs @ a # ys) \<longleftrightarrow>
      (\<forall>b\<in>set (xs @ ys). bytes b \<inter> bytes a = {}) \<and> sorted_wrt (\<lambda>a b. bytes a \<inter> bytes b = {}) (xs @ ys)"
    by (simp add: sorted_wrt_append Int_commute ball_Un ball_conj_distrib) blast
  moreover have "(\<forall>b\<in>set (xs @ ys). 0 < unat (a_size b) \<and> bytes b \<inter> (av \<union> bytes a) = {}) \<longleftrightarrow>
      (\<forall>b\<in>set (xs @ ys). 0 < unat (a_size b) \<and> bytes b \<inter> av = {}) \<and> (\<forall>b\<in>set (xs @ ys). bytes b \<inter> bytes a = {})"
    by (simp add: Int_Un_distrib ball_conj_distrib)
  moreover have "av \<union> \<Union> (bytes ` set (xs @ a # ys)) = av \<union> bytes a \<union> \<Union> (bytes ` set (xs @ ys))"
    by auto
  ultimately show ?thesis unfolding tiles_def by auto
qed

lemma tiles_subset: "tiles av sp live \<Longrightarrow> a \<in> set live \<Longrightarrow> bytes a \<subseteq> sp"
  by (auto simp: tiles_def)

lemma tiles_resize:
  "bytes b = bytes a \<Longrightarrow> a_size b = a_size a \<Longrightarrow> tiles av sp (xs @ b # ys) = tiles av sp (xs @ a # ys)"
  by (simp add: tiles_mid)

lemma bytes_ref [simp]: "bytes (a\<lparr>a_ref := r\<rparr>) = bytes a"
  by (simp add: bytes_def)

subsection \<open>The pool interface\<close>

locale allocation_pool =
  fixes alloc :: "'pool \<Rightarrow> u32 \<Rightarrow> u32 \<Rightarrow> (errno + xrp_allocation) \<times> 'pool"
    and free :: "'pool \<Rightarrow> xrp_allocation \<Rightarrow> 'pool"
    and pwf :: "'pool \<Rightarrow> bool"
    and avail :: "'pool \<Rightarrow> nat set"
    and extent :: "'pool \<Rightarrow> nat set"
    and req :: "u32 \<Rightarrow> u32 \<Rightarrow> bool"
  assumes alloc_ok: "pwf p \<Longrightarrow> req sz al \<Longrightarrow> alloc p sz al = (Inr a, p') \<Longrightarrow>
      pwf p' \<and> extent p' = extent p \<and> bytes a \<subseteq> avail p \<and> avail p' = avail p - bytes a \<and>
      0 < unat (a_size a) \<and> a_ref a = 1"
    and alloc_err: "pwf p \<Longrightarrow> req sz al \<Longrightarrow> alloc p sz al = (Inl e, p') \<Longrightarrow> p' = p"
    and free_ok: "pwf p \<Longrightarrow> 0 < unat (a_size a) \<Longrightarrow> bytes a \<subseteq> extent p \<Longrightarrow> bytes a \<inter> avail p = {} \<Longrightarrow>
      pwf (free p a) \<and> extent (free p a) = extent p \<and> avail (free p a) = avail p \<union> bytes a"
begin

lemma accounted_alloc:
  assumes "accounted pwf avail extent p live" and "req sz al" and "alloc p sz al = (Inr a, p')"
  shows "accounted pwf avail extent p' (a # live) \<and> extent p' = extent p"
proof -
  have a: "pwf p'" "extent p' = extent p" "bytes a \<subseteq> avail p" "avail p' = avail p - bytes a" "0 < unat (a_size a)"
    using alloc_ok [OF _ assms(2,3)] assms(1) by (simp_all add: accounted_def)
  then have "avail p' \<union> bytes a = avail p" by auto
  then have "tiles (avail p') (extent p') ([] @ a # live)"
    unfolding tiles_mid using a assms(1) by (auto simp: accounted_def)
  with a show ?thesis by (simp add: accounted_def)
qed

lemma accounted_alloc_err:
  assumes "accounted pwf avail extent p live" and "req sz al" and "alloc p sz al = (Inl e, p')"
  shows "accounted pwf avail extent p' live \<and> extent p' = extent p"
  using assms alloc_err [of p sz al e p'] by (auto simp: accounted_def)

lemma accounted_ref:
  assumes "accounted pwf avail extent p (xs @ a # ys)"
  shows "accounted pwf avail extent p (xs @ a\<lparr>a_ref := r\<rparr> # ys)"
  using assms by (simp add: accounted_def tiles_mid)

lemma accounted_free:
  assumes "accounted pwf avail extent p (xs @ a # ys)"
  shows "accounted pwf avail extent (free p a) (xs @ ys) \<and> extent (free p a) = extent p"
proof -
  have w: "pwf p" and t: "tiles (avail p) (extent p) (xs @ a # ys)"
    using assms by (simp_all add: accounted_def)
  have "bytes a \<subseteq> extent p" using tiles_subset [OF t] by simp
  with w t have "pwf (free p a) \<and> extent (free p a) = extent p \<and> avail (free p a) = avail p \<union> bytes a"
    by (intro free_ok) (simp_all add: tiles_mid)
  with t show ?thesis by (simp add: accounted_def tiles_mid)
qed

lemma accounted_put:
  assumes "accounted pwf avail extent p (xs @ a # ys)" and "xrp_allocation_put free p a = (r, p')"
  shows "accounted pwf avail extent p' (xs @ (case r of None \<Rightarrow> [] | Some b \<Rightarrow> [b]) @ ys) \<and> extent p' = extent p"
  using assms(2) accounted_free [OF accounted_ref [OF assms(1)]] accounted_ref [OF assms(1)]
  by (auto simp: xrp_allocation_put_def Let_def split: if_splits)

lemma accounted_nothing_live: "accounted pwf avail extent p [] \<Longrightarrow> avail p = extent p"
  by (simp add: accounted_def tiles_def)

end

interpretation priv: allocation_pool "xrp_private_alloc True True" xrp_private_free pool_wf pool_free
    pool_span request_fits
proof (unfold_locales, goal_cases)
  case (1 p sz al a p')
  then have r: "request_ok sz al"
    using private_alloc_reject [of sz al True True p] by (cases "request_ok sz al") auto
  show ?case using alloc_sound [OF 1(1) r 1(3)] request_size [OF r] by simp
next
  case (2 p sz al e p')
  then show ?case
    using private_alloc_cases [of sz al p] private_alloc_reject [of sz al True True p]
    by (cases "request_ok sz al") auto
next
  case (3 p a)
  then show ?case by (intro free_sound)
qed

lemma pool_op_step_ok:
  assumes "client_ok c" and "op_fits x"
  shows "client_ok (pool_op_step c x) \<and> pool_span (c_pool (pool_op_step c x)) = pool_span (c_pool c)"
proof (cases x)
  case (Op_alloc sz al)
  with assms show ?thesis
    using priv.accounted_alloc [OF assms(1), of sz al] priv.accounted_alloc_err [OF assms(1), of sz al]
    by (auto split: prod.splits sum.splits)
next
  case (Op_get i)
  show ?thesis
  proof (cases "i < length (c_live c)")
    case True
    with assms have "accounted pool_wf pool_free pool_span (c_pool c)
        (take i (c_live c) @ c_live c ! i # drop (Suc i) (c_live c))"
      by (simp add: id_take_nth_drop [symmetric])
    then show ?thesis
      using True Op_get priv.accounted_ref by (simp add: xrp_allocation_get_def upd_conv_take_nth_drop)
  qed (use assms Op_get in simp)
next
  case (Op_put i)
  show ?thesis
  proof (cases "i < length (c_live c)")
    case True
    with assms have "accounted pool_wf pool_free pool_span (c_pool c)
        (take i (c_live c) @ c_live c ! i # drop (Suc i) (c_live c))"
      by (simp add: id_take_nth_drop [symmetric])
    from priv.accounted_put [OF this] show ?thesis
      using True Op_put by (auto split: prod.splits)
  qed (use assms Op_put in simp)
qed

lemma pool_run_ok:
  assumes "client_ok c" and "list_all op_fits xs"
  shows "client_ok (pool_run c xs) \<and> pool_span (c_pool (pool_run c xs)) = pool_span (c_pool c)"
  using assms
proof (induction xs arbitrary: c)
  case (Cons x xs)
  then show ?case using pool_op_step_ok [of c x] by simp
qed simp

subsection \<open>Properties\<close>

text \<open>
  A pool of four pages, of which a client takes one and two pages and shares and releases the first.
\<close>

definition sample_ops :: "pool_op list" where
  "sample_ops = [Op_alloc 0x1000 0, Op_alloc 0x2000 0, Op_get 1, Op_put 1, Op_put 1]"

lemma sample_run:
  "pool_run \<lparr>c_pool = \<lparr>p_start = 0x1000, p_size = 0x4000,
       free_list = [\<lparr>a_start = 0x1000, a_size = 0x4000, a_ref = 0\<rparr>]\<rparr>, c_live = []\<rparr> sample_ops =
     \<lparr>c_pool = \<lparr>p_start = 0x1000, p_size = 0x4000,
        free_list = [\<lparr>a_start = 0x1000, a_size = 0x1000, a_ref = 0\<rparr>,
          \<lparr>a_start = 0x4000, a_size = 0x1000, a_ref = 0\<rparr>]\<rparr>,
      c_live = [\<lparr>a_start = 0x2000, a_size = 0x2000, a_ref = 1\<rparr>]\<rparr>"
  by (simp add: sample_ops_def xrp_private_alloc_def ALIGN_def PAGE_SIZE_def carve_block_def
      xrp_allocation_get_def xrp_allocation_put_def xrp_private_free_def)

lemma sample_ops_fit: "list_all op_fits sample_ops"
  by (simp add: sample_ops_def request_fits_def eff_align_def eff_size_def round_up_def)

lemma init_client_ok:
  assumes "xrp_init_private_pool True True start sz = Inr p" and "sz \<noteq> 0"
    and "unat start + unat sz \<le> 2 ^ 32"
  shows "client_ok \<lparr>c_pool = p, c_live = []\<rparr> \<and> pool_span p = {unat start..<unat start + unat sz} \<and>
    p_start p = start \<and> p_size p = sz"
  using assms
  by (auto simp: accounted_def tiles_def xrp_init_private_pool_def pool_wf_def pool_span_def
      pool_free_def bytes_def unat_gt_0)

lemma pool_op_step_extent:
  "p_start (c_pool (pool_op_step c x)) = p_start (c_pool c) \<and>
   p_size (c_pool (pool_op_step c x)) = p_size (c_pool c)"
  by (cases x)
    (auto simp: xrp_private_alloc_def xrp_allocation_put_def xrp_private_free_def Let_def
      split: prod.splits sum.splits option.splits if_splits)

lemma pool_run_extent:
  "p_start (c_pool (pool_run c xs)) = p_start (c_pool c) \<and>
   p_size (c_pool (pool_run c xs)) = p_size (c_pool c)"
  by (induction xs arbitrary: c) (simp_all add: pool_op_step_extent)



text \<open>
  When every allocation of such a sequence has been released, the free list is again the single
  block the pool was created with.
\<close>

lemma pool_full_release:
  assumes "xrp_init_private_pool True True start sz = Inr p" and "sz \<noteq> 0"
    and "unat start + unat sz \<le> 2 ^ 32" and "list_all op_fits xs"
    and "pool_run \<lparr>c_pool = p, c_live = []\<rparr> xs = c" and "c_live c = []"
  shows "spans (free_list (c_pool c)) = [(start, sz)]"
proof -
  note i = init_client_ok [OF assms(1-3)]
  have x: "p_start (c_pool c) = start" "p_size (c_pool c) = sz"
    using pool_run_extent [of "\<lparr>c_pool = p, c_live = []\<rparr>" xs] i assms(5) by auto
  have w: "client_ok c" "pool_span (c_pool c) = {unat start..<unat start + unat sz}"
    using pool_run_ok [OF conjunct1 [OF i] assms(4)] i assms(5) by auto
  then have "pool_free (c_pool c) = {unat start..<unat start + unat sz}"
    using assms(6) priv.accounted_nothing_live [of "c_pool c"] by simp
  with w x have "spans (free_list (c_pool c)) = spans [\<lparr>a_start = start, a_size = sz, a_ref = 0\<rparr>]"
    using assms(2,3)
    by (intro free_wf_unique [of "unat start" "unat start + unat sz"])
      (auto simp: accounted_def pool_wf_def pool_free_def bytes_def unat_gt_0)
  then show ?thesis by simp
qed

lemma pool_full_release_example:
  "spans (free_list (c_pool (pool_run \<lparr>c_pool = \<lparr>p_start = 0x1000, p_size = 0x4000,
       free_list = [\<lparr>a_start = 0x1000, a_size = 0x4000, a_ref = 0\<rparr>]\<rparr>, c_live = []\<rparr>
     [Op_alloc 0x1000 0, Op_alloc 0x1000 0, Op_put 1, Op_put 0]))) = [(0x1000, 0x4000)]"
proof (rule pool_full_release [OF _ _ _ _ refl])
  show "list_all op_fits [Op_alloc 0x1000 0, Op_alloc 0x1000 0, Op_put 1, Op_put 0]"
    by (simp add: request_fits_def eff_align_def eff_size_def round_up_def)
qed (simp_all add: xrp_init_private_pool_def xrp_private_alloc_def ALIGN_def PAGE_SIZE_def
    carve_block_def xrp_allocation_put_def xrp_private_free_def)

text \<open>The CMA pool never looks at the alignment it is asked for.\<close>

lemma cma_alloc_ignores_align:
  "xrp_cma_alloc dma to_phys new_ok dev sz align = xrp_cma_alloc dma to_phys new_ok dev sz 0"
  by (simp add: xrp_cma_alloc_def)

end
