(* ===== verification/XRP_Address_Map.thy ===== *)
theory XRP_Address_Map
  imports XRP_Prelude "HOL-Library.Multiset"
begin

text \<open>
  Translation of host physical addresses to DSP addresses: \<^verbatim>\<open>xrp-kernel/xrp_address_map.c\<close> and
  \<^verbatim>\<open>xrp-kernel/xrp_address_map.h\<close>.  \<open>xrp_init_address_map\<close> reads the \<open>ranges\<close> property of the device
  tree into a table sorted by source address, \<open>xrp_get_address_mapping\<close> looks an address up with
  \<open>bsearch\<close> and \<open>xrp_translate_to_dsp\<close> computes the address the DSP uses for it.

  Parameters: the kernel's device-tree accessors (\<open>of_translate_address\<close>, \<open>of_read_number\<close>, the cell
  counts, the property and the child node) and the kernel's \<open>sort\<close>.  \<open>bsearch\<close> is the standard library
  routine and is modelled by binary search.  An access outside an array or through a null pointer is
  the value \<open>None\<close>.

  Shown: \<open>bsearch\<close> with the comparison of the code finds exactly the entry that covers the address;
  initialisation produces a sorted table of the same entries; translation preserves offsets inside an
  entry and is injective.
\<close>

subsection \<open>Data and operations\<close>

record xrp_address_map_entry =
  src_addr :: u32
  dst_addr :: u32
  e_size :: u32

record xrp_address_map =
  map_entries :: "xrp_address_map_entry list"

definition XRP_NO_TRANSLATION :: u32 where
  "XRP_NO_TRANSLATION = 0xffffffff"

definition xrp_compare_address :: "u32 \<Rightarrow> xrp_address_map_entry \<Rightarrow> int" where
  "xrp_compare_address addr e =
     (if addr < src_addr e then - 1
      else if addr - src_addr e < e_size e then 0
      else 1)"

definition xrp_compare_address_sort :: "xrp_address_map_entry \<Rightarrow> xrp_address_map_entry \<Rightarrow> int" where
  "xrp_compare_address_sort pa pb =
     (if src_addr pa < src_addr pb \<and> e_size pa \<le> src_addr pb - src_addr pa then - 1
      else if src_addr pb < src_addr pa \<and> e_size pb \<le> src_addr pa - src_addr pb then 1
      else 0)"

text \<open>The standard library's \<open>bsearch\<close> on the \<open>num\<close> elements of \<open>xs\<close> from index \<open>base\<close>.\<close>

function bsearch :: "('k \<Rightarrow> 'a \<Rightarrow> int) \<Rightarrow> 'k \<Rightarrow> 'a list \<Rightarrow> nat \<Rightarrow> nat \<Rightarrow> 'a option" where
  "bsearch cmp key xs base num =
     (if num = 0 then None
      else let pivot = base + num div 2; r = cmp key (xs ! pivot)
           in if r = 0 then Some (xs ! pivot)
              else if 0 < r then bsearch cmp key xs (pivot + 1) ((num - 1) div 2)
              else bsearch cmp key xs base (num div 2))"
  by pat_completeness auto
termination
  by (relation "measure (\<lambda>(cmp, key, xs, base, num). num)") auto

declare bsearch.simps [simp del]

definition xrp_get_address_mapping :: "xrp_address_map \<Rightarrow> u32 \<Rightarrow> xrp_address_map_entry option" where
  "xrp_get_address_mapping m addr =
     bsearch xrp_compare_address addr (map_entries m) 0 (length (map_entries m))"

definition xrp_translate_to_dsp :: "xrp_address_map \<Rightarrow> u32 \<Rightarrow> u32" where
  "xrp_translate_to_dsp m addr =
     (case xrp_get_address_mapping m addr of
        None \<Rightarrow> XRP_NO_TRANSLATION
      | Some e \<Rightarrow> dst_addr e + addr - src_addr e)"

text \<open>
  What the initialisation reads from the device tree: the cells of the \<open>ranges\<close> property (\<open>None\<close> if
  there is none), whether the node has a child, and the cell counts of the child and of the node.
\<close>

record of_node =
  of_ranges :: "u32 list option"
  has_child :: bool
  of_na :: nat
  of_pna :: nat
  of_ns :: nat

definition range_cells :: "of_node \<Rightarrow> nat" where
  "range_cells dt = of_na dt + of_pna dt + of_ns dt"

definition read_entry ::
  "(u32 list \<Rightarrow> u64) \<Rightarrow> (u32 list \<Rightarrow> nat \<Rightarrow> u64) \<Rightarrow> of_node \<Rightarrow> u32 list \<Rightarrow> xrp_address_map_entry" where
  "read_entry of_translate_address of_read_number dt rs =
     \<lparr>src_addr = ucast (of_translate_address rs),
      dst_addr = ucast (of_read_number rs (of_na dt)),
      e_size = ucast (of_read_number (drop (of_na dt + of_pna dt) rs) (of_ns dt))\<rparr>"

text \<open>
  The loop over the ranges; \<open>acc\<close> holds the entries written so far, so that its length is the index \<open>i\<close>
  of the code.  Writing at an index that is not below \<open>n\<close> is out of the bounds of the array.
\<close>

function read_ranges ::
  "(u32 list \<Rightarrow> xrp_address_map_entry) \<Rightarrow> u32 list \<Rightarrow> nat \<Rightarrow> nat \<Rightarrow> nat \<Rightarrow> xrp_address_map_entry list \<Rightarrow>
     xrp_address_map_entry list option" where
  "read_ranges rd rs step n off acc =
     (if off < length rs \<and> 0 < step then
        if length acc < n then read_ranges rd rs step n (off + step) (acc @ [rd (drop off rs)])
        else None
      else Some acc)"
  by pat_completeness auto
termination
  by (relation "measure (\<lambda>(rd, rs, step, n, off, acc). length rs - off)") auto

declare read_ranges.simps [simp del]

text \<open>\<open>entry_ok\<close> is the outcome of \<open>kmalloc_array\<close>, or of \<open>kmalloc\<close> for the table with one entry.\<close>

definition xrp_init_address_map ::
  "((xrp_address_map_entry \<Rightarrow> xrp_address_map_entry \<Rightarrow> int) \<Rightarrow> xrp_address_map_entry list \<Rightarrow>
      xrp_address_map_entry list) \<Rightarrow>
   (u32 list \<Rightarrow> u64) \<Rightarrow> (u32 list \<Rightarrow> nat \<Rightarrow> u64) \<Rightarrow> bool \<Rightarrow> of_node \<Rightarrow> (errno + xrp_address_map) option" where
  "xrp_init_address_map sort_fn of_translate_address of_read_number entry_ok dt =
     (case of_ranges dt of
        Some rs \<Rightarrow>
          if has_child dt then
            if range_cells dt = 0 then None
            else if \<not> entry_ok then Some (Inl ENOMEM)
            else case read_ranges (read_entry of_translate_address of_read_number dt) rs (range_cells dt)
                        (length rs div range_cells dt) 0 [] of
                   None \<Rightarrow> None
                 | Some es \<Rightarrow> Some (Inr \<lparr>map_entries = sort_fn xrp_compare_address_sort es\<rparr>)
          else if entry_ok then Some (Inr \<lparr>map_entries = [\<lparr>src_addr = 0, dst_addr = 0, e_size = 0xffffffff\<rparr>]\<rparr>)
          else None
      | None \<Rightarrow>
          if entry_ok then Some (Inr \<lparr>map_entries = [\<lparr>src_addr = 0, dst_addr = 0, e_size = 0xffffffff\<rparr>]\<rparr>)
          else None)"

subsection \<open>Specification\<close>

definition covers :: "xrp_address_map_entry \<Rightarrow> u32 \<Rightarrow> bool" where
  "covers e addr \<longleftrightarrow> unat (src_addr e) \<le> unat addr \<and> unat addr < unat (src_addr e) + unat (e_size e)"

text \<open>The address \<open>addr\<close> has in the window of the entry on the DSP's side, if it is in its source window.\<close>

definition translate_entry :: "xrp_address_map_entry \<Rightarrow> u32 \<Rightarrow> u32" where
  "translate_entry e addr = dst_addr e + addr - src_addr e"

definition entry_below :: "xrp_address_map_entry \<Rightarrow> xrp_address_map_entry \<Rightarrow> bool" where
  "entry_below a b \<longleftrightarrow> unat (src_addr a) + unat (e_size a) \<le> unat (src_addr b)"

definition map_wf :: "xrp_address_map \<Rightarrow> bool" where
  "map_wf m \<longleftrightarrow> sorted_wrt entry_below (map_entries m)"

definition src_disjoint :: "xrp_address_map_entry \<Rightarrow> xrp_address_map_entry \<Rightarrow> bool" where
  "src_disjoint a b \<longleftrightarrow> entry_below a b \<or> entry_below b a"

text \<open>Disjoint windows on the DSP's side.\<close>

definition dst_disjoint :: "xrp_address_map_entry \<Rightarrow> xrp_address_map_entry \<Rightarrow> bool" where
  "dst_disjoint a b \<longleftrightarrow>
     unat (dst_addr a) + unat (e_size a) \<le> unat (dst_addr b) \<or>
     unat (dst_addr b) + unat (e_size b) \<le> unat (dst_addr a)"

definition dst_fits :: "xrp_address_map_entry \<Rightarrow> bool" where
  "dst_fits e \<longleftrightarrow> unat (dst_addr e) + unat (e_size e) \<le> 2 ^ 32"

text \<open>The entries the property describes, in the order of the property.\<close>

definition entries_of :: "(u32 list \<Rightarrow> xrp_address_map_entry) \<Rightarrow> u32 list \<Rightarrow> nat \<Rightarrow> xrp_address_map_entry list" where
  "entries_of rd rs step = map (\<lambda>i. rd (drop (i * step) rs)) [0..<length rs div step]"

subsection \<open>Binary search\<close>

text \<open>
  \<open>bsearch\<close> is right on every array in which the elements above the key's place follow those below
  it.
\<close>

lemma bsearch_0 [simp]: "bsearch cmp key xs base 0 = None"
  by (subst bsearch.simps) simp

lemma bsearch_step:
  "num \<noteq> 0 \<Longrightarrow> bsearch cmp key xs base num =
     (if cmp key (xs ! (base + num div 2)) = 0 then Some (xs ! (base + num div 2))
      else if 0 < cmp key (xs ! (base + num div 2))
           then bsearch cmp key xs (base + num div 2 + 1) ((num - 1) div 2)
           else bsearch cmp key xs base (num div 2))"
  by (subst bsearch.simps) (simp add: Let_def)

lemma bsearch_Some:
  "bsearch cmp key xs base num = Some x \<Longrightarrow> base + num \<le> length xs \<Longrightarrow>
     x \<in> set xs \<and> cmp key x = 0"
proof (induction cmp key xs base num rule: bsearch.induct)
  case (1 cmp key xs base num)
  from "1.prems" have n: "num \<noteq> 0" by (metis bsearch_0 option.distinct(1))
  let ?p = "base + num div 2"
  have "?p < length xs" using n "1.prems"(2) by linarith
  moreover have "?p + 1 + (num - 1) div 2 \<le> length xs" "base + num div 2 \<le> length xs"
    using n "1.prems"(2) by presburger+
  ultimately show ?case
    using "1.prems"(1) "1.IH" [OF n refl refl] unfolding bsearch_step [OF n]
    by (auto split: if_splits)
qed

lemma bsearch_None:
  assumes "bsearch cmp key xs base num = None" and "base + num \<le> length xs"
    and "sorted_wrt (\<lambda>a b. cmp key b = 0 \<or> 0 < cmp key b \<longrightarrow> 0 < cmp key a) xs"
  shows "\<forall>i. base \<le> i \<and> i < base + num \<longrightarrow> cmp key (xs ! i) \<noteq> 0"
  using assms
proof (induction cmp key xs base num rule: bsearch.induct)
  case (1 cmp key xs base num)
  show ?case
  proof (cases "num = 0")
    case n: False
    let ?p = "base + num div 2"
    have p: "?p < length xs" "?p + 1 + (num - 1) div 2 = base + num"
      using n "1.prems"(2) by presburger+
    have mono: "cmp key (xs ! j) = 0 \<or> 0 < cmp key (xs ! j) \<longrightarrow> 0 < cmp key (xs ! i)"
      if "i < j" "j < length xs" for i j
      using sorted_wrt_nth_less [OF "1.prems"(3) that] by blast
    have r: "cmp key (xs ! ?p) \<noteq> 0"
      using "1.prems"(1) unfolding bsearch_step [OF n] by (auto split: if_splits)
    show ?thesis
    proof (cases "0 < cmp key (xs ! ?p)")
      case True
      have "bsearch cmp key xs (?p + 1) ((num - 1) div 2) = None"
        using "1.prems"(1) r True unfolding bsearch_step [OF n] by simp
      then have hi: "\<forall>i. ?p + 1 \<le> i \<and> i < base + num \<longrightarrow> cmp key (xs ! i) \<noteq> 0"
        using "1.IH"(1) [OF n refl refl r True] "1.prems"(2,3) p by simp
      show ?thesis
      proof (intro allI impI)
        fix i assume i: "base \<le> i \<and> i < base + num"
        consider "i < ?p" | "i = ?p" | "?p + 1 \<le> i" by linarith
        then show "cmp key (xs ! i) \<noteq> 0"
        proof cases
          case 1
          then show ?thesis using mono [of i ?p] p True by auto
        qed (use r hi i in auto)
      qed
    next
      case False
      have "bsearch cmp key xs base (num div 2) = None"
        using "1.prems"(1) r False unfolding bsearch_step [OF n] by simp
      then have lo: "\<forall>i. base \<le> i \<and> i < ?p \<longrightarrow> cmp key (xs ! i) \<noteq> 0"
        using "1.IH"(2) [OF n refl refl r False] "1.prems"(2,3) by simp
      show ?thesis
      proof (intro allI impI)
        fix i assume i: "base \<le> i \<and> i < base + num"
        consider "i < ?p" | "i = ?p" | "?p < i" by linarith
        then show "cmp key (xs ! i) \<noteq> 0"
        proof cases
          case 3
          then show ?thesis using mono [of ?p i] "1.prems"(2) i False by auto
        qed (use r lo i in auto)
      qed
    qed
  qed simp
qed

subsection \<open>Lookup\<close>

lemma compare_address_covers: "xrp_compare_address addr e = 0 \<longleftrightarrow> covers e addr"
  by (auto simp: xrp_compare_address_def covers_def word_less_nat_alt word_le_nat_alt unat_sub_if')

lemma compare_address_mono:
  assumes "entry_below a b" and "0 \<le> xrp_compare_address addr b"
  shows "0 < xrp_compare_address addr a"
  using assms
  by (auto simp: xrp_compare_address_def entry_below_def word_less_nat_alt unat_sub_if' split: if_splits)

lemma get_address_mapping_iff:
  assumes "map_wf m"
  shows "xrp_get_address_mapping m addr = Some e \<longleftrightarrow> e \<in> set (map_entries m) \<and> covers e addr"
proof -
  have sorted: "sorted_wrt (\<lambda>a b. xrp_compare_address addr b = 0 \<or> 0 < xrp_compare_address addr b \<longrightarrow>
      0 < xrp_compare_address addr a) (map_entries m)"
    using assms unfolding map_wf_def
    by (rule sorted_wrt_mono_rel [rotated]) (use compare_address_mono in fastforce)
  have some: "x \<in> set (map_entries m) \<and> covers x addr" if "xrp_get_address_mapping m addr = Some x" for x
    using bsearch_Some [of xrp_compare_address addr "map_entries m" 0 "length (map_entries m)" x] that
    by (simp add: xrp_get_address_mapping_def compare_address_covers)
  have none: "\<not> covers x addr" if "xrp_get_address_mapping m addr = None" "x \<in> set (map_entries m)" for x
    using bsearch_None [of xrp_compare_address addr "map_entries m" 0 "length (map_entries m)"] sorted that
    by (auto simp: xrp_get_address_mapping_def compare_address_covers in_set_conv_nth)
  have uniq: "x = y" if "x \<in> set (map_entries m)" "y \<in> set (map_entries m)" "covers x addr" "covers y addr" for x y
  proof -
    from that obtain i j where ij: "i < length (map_entries m)" "x = map_entries m ! i"
        "j < length (map_entries m)" "y = map_entries m ! j"
      by (metis in_set_conv_nth)
    have no: "\<not> entry_below x y" "\<not> entry_below y x" using that(3,4) by (auto simp: entry_below_def covers_def)
    have "\<not> i < j" "\<not> j < i"
      using no ij sorted_wrt_nth_less [of entry_below "map_entries m"] assms by (auto simp: map_wf_def)
    then show "x = y" using ij by simp
  qed
  show ?thesis
    using some none uniq by (cases "xrp_get_address_mapping m addr") blast+
qed

text \<open>
  The interface of an address map: a lookup that finds exactly the entry that covers an address.
\<close>

locale address_lookup =
  fixes lookup :: "'m \<Rightarrow> u32 \<Rightarrow> xrp_address_map_entry option"
    and mwf :: "'m \<Rightarrow> bool"
    and entries :: "'m \<Rightarrow> xrp_address_map_entry set"
  assumes lookup_iff: "mwf m \<Longrightarrow> lookup m addr = Some e \<longleftrightarrow> e \<in> entries m \<and> covers e addr"
begin

lemma lookup_None: "mwf m \<Longrightarrow> lookup m addr = None \<longleftrightarrow> (\<forall>e\<in>entries m. \<not> covers e addr)"
  using lookup_iff by (metis not_None_eq)

lemma lookup_block:
  assumes "mwf m" and "lookup m addr = Some e"
    and "unat addr - unat (src_addr e) + unat off < unat (e_size e)"
    and "unat (src_addr e) + unat (e_size e) \<le> 2 ^ 32"
  shows "lookup m (addr + off) = Some e"
proof -
  have "covers e addr" "e \<in> entries m" using assms(1,2) lookup_iff by auto
  moreover from this have "unat (addr + off) = unat addr + unat off"
    using assms(3,4) by (intro unat_add_le) (auto simp: covers_def)
  ultimately show ?thesis using assms(1,3) lookup_iff by (auto simp: covers_def)
qed

lemma lookup_inj:
  assumes "mwf m" and "lookup m x = Some d" and "lookup m y = Some e"
    and "\<forall>a\<in>entries m. dst_fits a" and "\<forall>a\<in>entries m. \<forall>b\<in>entries m. a = b \<or> dst_disjoint a b"
    and "translate_entry d x = translate_entry e y"
  shows "x = y"
proof -
  have c: "covers d x" "covers e y" "d \<in> entries m" "e \<in> entries m" using assms(1-3) lookup_iff by auto
  have t: "unat (translate_entry a z) = unat (dst_addr a) + (unat z - unat (src_addr a))"
    if "covers a z" "dst_fits a" for a z
  proof -
    have "unat (z - src_addr a) = unat z - unat (src_addr a)"
      using that(1) by (intro unat_sub) (simp add: covers_def word_le_nat_alt)
    moreover have "unat (dst_addr a + (z - src_addr a)) = unat (dst_addr a) + unat (z - src_addr a)"
      using that calculation by (intro unat_add_le) (auto simp: covers_def dst_fits_def)
    ultimately show ?thesis by (simp add: translate_entry_def add_diff_eq)
  qed
  have "unat (dst_addr d) + (unat x - unat (src_addr d)) = unat (dst_addr e) + (unat y - unat (src_addr e))"
    using assms(4,6) c t by metis
  moreover have "d = e \<or> dst_disjoint d e" using assms(5) c by blast
  ultimately have "unat x = unat y"
    using c unfolding covers_def dst_disjoint_def by auto
  then show ?thesis by (rule unsigned_word_eqI)
qed

end

interpretation amap: address_lookup xrp_get_address_mapping map_wf "\<lambda>m. set (map_entries m)"
  by unfold_locales (rule get_address_mapping_iff)

subsection \<open>Initialisation\<close>

lemma read_ranges_spec:
  assumes "0 < step" and "step dvd length rs" and "i \<le> length rs div step"
  shows "read_ranges rd rs step (length rs div step) (i * step) (map (\<lambda>i. rd (drop (i * step) rs)) [0..<i]) =
    Some (entries_of rd rs step)"
  using assms(3)
proof (induction "length rs div step - i" arbitrary: i)
  case 0
  then have "i = length rs div step" by simp
  then show ?case using assms(1,2) by (simp add: read_ranges.simps entries_of_def)
next
  case (Suc k)
  then have i: "i < length rs div step" by simp
  then have "i * step < length rs div step * step" using assms(1) by simp
  also have "\<dots> \<le> length rs" by simp
  finally have "i * step < length rs" .
  moreover have "read_ranges rd rs step (length rs div step) (Suc i * step)
      (map (\<lambda>i. rd (drop (i * step) rs)) [0..<Suc i]) = Some (entries_of rd rs step)"
    using Suc i by (intro Suc.hyps(1)) auto
  ultimately show ?case
    using i assms(1) by (subst read_ranges.simps) (simp add: add.commute)
qed

lemma sorted_wrt_sym_perm:
  assumes "sorted_wrt P xs" and "mset ys = mset xs" and "\<And>a b. P a b \<Longrightarrow> P b a"
  shows "sorted_wrt P ys"
  using assms(1,2)
proof (induction xs arbitrary: ys)
  case (Cons x xs)
  then have "x \<in> set ys" by (metis list.set_intros(1) set_mset_mset)
  then obtain u v where ys: "ys = u @ x # v" by (meson split_list)
  with Cons.prems have m: "mset (u @ v) = mset xs" by simp
  then have s: "set (u @ v) = set xs" by (metis set_mset_mset)
  have "sorted_wrt P (u @ v)" using Cons m by simp
  moreover have "P x z" if "z \<in> set (u @ v)" for z using Cons.prems(1) that unfolding s by simp
  ultimately show ?case using assms(3) by (auto simp: ys sorted_wrt_append)
qed simp

text \<open>The order \<open>xrp_compare_address_sort\<close> decides on entries that do not overlap.\<close>

lemma compare_address_sort_le:
  assumes "src_disjoint a b" and "xrp_compare_address_sort a b \<le> 0"
    and "0 < unat (e_size a)" and "0 < unat (e_size b)"
  shows "entry_below a b"
  using assms
  by (auto simp: src_disjoint_def entry_below_def xrp_compare_address_sort_def word_less_nat_alt
      word_le_nat_alt unat_sub_if' split: if_splits)

lemma sort_entries_wf:
  assumes "sorted_wrt src_disjoint es" and "\<forall>e\<in>set es. 0 < unat (e_size e)"
    and "mset ys = mset es" and "sorted_wrt (\<lambda>a b. xrp_compare_address_sort a b \<le> 0) ys"
  shows "sorted_wrt entry_below ys"
proof -
  have d: "sorted_wrt src_disjoint ys"
    using assms(1,3) by (rule sorted_wrt_sym_perm) (auto simp: src_disjoint_def)
  have "set ys = set es" using assms(3) by (metis set_mset_mset)
  then have "entry_below (ys ! i) (ys ! j)" if "i < j" "j < length ys" for i j
    using that assms(2) sorted_wrt_nth_less [OF d that] sorted_wrt_nth_less [OF assms(4) that]
    by (intro compare_address_sort_le) (auto simp: nth_mem)
  then show ?thesis by (simp add: sorted_wrt_iff_nth_less)
qed

subsection \<open>Properties\<close>

text \<open>A table with two windows, given by the property in descending order.\<close>

definition sample_node :: of_node where
  "sample_node = \<lparr>of_ranges = Some [0x60000000, 0xf0000000, 0x1000, 0x5ff00000, 0xa0000000, 0x100000],
     has_child = True, of_na = 1, of_pna = 1, of_ns = 1\<rparr>"

text \<open>The accessors for such a one-cell property, and insertion sort in the place of the kernel's \<open>sort\<close>.\<close>

definition sample_translate :: "u32 list \<Rightarrow> u64" where
  "sample_translate rs = ucast (rs ! 1)"

definition sample_read :: "u32 list \<Rightarrow> nat \<Rightarrow> u64" where
  "sample_read rs k = ucast (hd rs)"

fun insert_cmp :: "('a \<Rightarrow> 'a \<Rightarrow> int) \<Rightarrow> 'a \<Rightarrow> 'a list \<Rightarrow> 'a list" where
  "insert_cmp cmp x [] = [x]"
| "insert_cmp cmp x (y # ys) = (if cmp x y \<le> 0 then x # y # ys else y # insert_cmp cmp x ys)"

definition sample_sort :: "('a \<Rightarrow> 'a \<Rightarrow> int) \<Rightarrow> 'a list \<Rightarrow> 'a list" where
  "sample_sort cmp xs = foldr (insert_cmp cmp) xs []"

definition sample_map :: xrp_address_map where
  "sample_map = \<lparr>map_entries =
     [\<lparr>src_addr = 0xa0000000, dst_addr = 0x5ff00000, e_size = 0x100000\<rparr>,
      \<lparr>src_addr = 0xf0000000, dst_addr = 0x60000000, e_size = 0x1000\<rparr>]\<rparr>"

lemma sample_map_wf: "map_wf sample_map"
  by (simp add: map_wf_def sample_map_def entry_below_def)

text \<open>
  C21: On a sorted table of disjoint windows the lookup by binary search succeeds exactly on the
  addresses some window covers, and translation then yields the address at the same offset in the
  window's destination; every other address has no translation.
\<close>

theorem translate_to_dsp_spec:
  assumes "map_wf m"
  shows "(\<exists>e\<in>set (map_entries m). covers e addr \<and> xrp_get_address_mapping m addr = Some e \<and>
      xrp_translate_to_dsp m addr = dst_addr e + (addr - src_addr e)) \<or>
    ((\<forall>e\<in>set (map_entries m). \<not> covers e addr) \<and> xrp_get_address_mapping m addr = None \<and>
      xrp_translate_to_dsp m addr = XRP_NO_TRANSLATION)"
proof (cases "xrp_get_address_mapping m addr")
  case None
  with amap.lookup_None [OF assms, of addr] show ?thesis by (simp add: xrp_translate_to_dsp_def)
next
  case (Some e)
  with amap.lookup_iff [OF assms, of addr e] show ?thesis by (auto simp: xrp_translate_to_dsp_def)
qed

theorem translate_to_dsp_spec_witness:
  "xrp_translate_to_dsp sample_map 0xa0000010 = 0x5ff00010"
  using translate_to_dsp_spec [OF sample_map_wf, of "0xa0000010"]
  by (simp add: sample_map_def covers_def)



text \<open>
  If the destination windows are disjoint as well, no two host addresses share a DSP address.
\<close>

lemma translate_to_dsp_inj:
  assumes "map_wf m" and "\<forall>e\<in>set (map_entries m). dst_fits e"
    and "\<forall>a\<in>set (map_entries m). \<forall>b\<in>set (map_entries m). a = b \<or> dst_disjoint a b"
    and "xrp_get_address_mapping m x \<noteq> None" and "xrp_get_address_mapping m y \<noteq> None"
    and "xrp_translate_to_dsp m x = xrp_translate_to_dsp m y"
  shows "x = y"
  using amap.lookup_inj [OF assms(1) _ _ assms(2,3), of x _ y] assms(4-6)
  by (auto simp: xrp_translate_to_dsp_def translate_entry_def)

lemma translate_to_dsp_inj_example:
  "xrp_translate_to_dsp sample_map 0xa0000010 \<noteq> xrp_translate_to_dsp sample_map 0xf0000010"
proof -
  have "xrp_get_address_mapping sample_map 0xa0000010 \<noteq> None" "xrp_get_address_mapping sample_map 0xf0000010 \<noteq> None"
    by (simp_all add: amap.lookup_None [OF sample_map_wf]) (simp_all add: sample_map_def covers_def)
  then show ?thesis
    using translate_to_dsp_inj [OF sample_map_wf, of "0xa0000010" "0xf0000010"]
    by (auto simp: sample_map_def dst_fits_def dst_disjoint_def)
qed

text \<open>
  Without a \<open>ranges\<close> property, or without a child node, translation is the identity on all
  addresses; the last one, which the single window does not cover, is its own \<open>XRP_NO_TRANSLATION\<close>.
\<close>

lemma default_map_identity:
  assumes "of_ranges dt = None \<or> \<not> has_child dt"
  shows "\<exists>m. xrp_init_address_map sort_fn tr rd True dt = Some (Inr m) \<and>
    (\<forall>addr. xrp_translate_to_dsp m addr = addr)"
proof -
  let ?e = "\<lparr>src_addr = 0, dst_addr = 0, e_size = 0xffffffff\<rparr>"
  let ?m = "\<lparr>map_entries = [?e]\<rparr>"
  have wf: "map_wf ?m" by (simp add: map_wf_def)
  have "xrp_translate_to_dsp ?m addr = addr" for addr
  proof (cases "covers ?e addr")
    case True
    then show ?thesis
      using amap.lookup_iff [OF wf, of addr ?e] by (simp add: xrp_translate_to_dsp_def)
  next
    case False
    then have "4294967295 \<le> unat addr" by (simp add: covers_def)
    then have "unat addr = unat (0xffffffff :: u32)"
      using unat_lt32 [of addr] by (simp del: unat_lt32)
    then have "addr = 0xffffffff" by (rule unsigned_word_eqI)
    then show ?thesis
      using False amap.lookup_None [OF wf, of addr]
      by (simp add: xrp_translate_to_dsp_def XRP_NO_TRANSLATION_def)
  qed
  then show ?thesis using assms by (auto simp: xrp_init_address_map_def split: option.splits)
qed

lemma default_map_identity_example:
  "\<exists>m. xrp_init_address_map sample_sort sample_translate sample_read True (sample_node\<lparr>of_ranges := None\<rparr>) =
     Some (Inr m) \<and> xrp_translate_to_dsp m 0xffffffff = 0xffffffff"
  using default_map_identity [of "sample_node\<lparr>of_ranges := None\<rparr>" sample_sort sample_translate sample_read]
  by auto

text \<open>
  A \<open>ranges\<close> property whose length is not a multiple of the entry size makes the loop write one entry
  behind the array.
\<close>

lemma init_address_map_overflow:
  "xrp_init_address_map sort_fn tr rd True (sample_node\<lparr>of_ranges := Some [1, 2, 3, 4]\<rparr>) = None"
  by (simp add: xrp_init_address_map_def sample_node_def range_cells_def read_ranges.simps)

end
