(* ===== verification/XRP_Kernel_Mem.thy ===== *)
theory XRP_Kernel_Mem
  imports XRP_Pool XRP_Address_Map XRP_Comm "HOL-Library.Monad_Syntax"
begin

text \<open>
  How the driver \<^verbatim>\<open>xrp-kernel/xvp_main.c\<close> makes user memory visible to the DSP (lines 179--965): known
  files and the list of allocations waiting for their mapping, physical addresses of user pages, shadow
  copies, and \<open>__xrp_share_block\<close>/\<open>__xrp_unshare_block\<close> with \<open>xrp_share_kernel\<close> for kernel memory.

  State: physical memory, the private pool, the allocation objects (with reference counts) by number,
  the pins and dirty marks of user pages, and the known files.  A function returns \<open>None\<close> when the code
  would access memory that is not there (a released allocation, an element behind an array), and
  otherwise the error or result together with the new state.

  The kernel's services are the fields of \<open>kenv\<close>: \<open>find_vma\<close>, \<open>follow_pfn\<close>, \<open>get_user_pages_fast\<close>, the copy
  functions between user memory and physical memory (\<open>kv_copy_from_user\<close>, \<open>kv_copy_to_user\<close>) or variables
  of the driver (\<open>kv_get_user\<close>, \<open>kv_put_user\<close>), the outcome of allocations.  Cache maintenance has no effect on the
  contents of memory in this model, and locks are held for whole operations.

  Shown here: every operation keeps the books (\<open>kinv\<close>), that is, the reference counts of allocations and
  the pins of pages are those of the mappings that are alive, and no operation touches an object that is
  gone.  What is in the shared memory is the subject of \<^theory_text>\<open>XRP_Sharing\<close>.
\<close>

subsection \<open>Data\<close>

datatype alien_type = ALIEN_GUP | ALIEN_PFN_MAP | ALIEN_COPY

record xrp_alien_mapping =
  am_vaddr :: u32
  am_size :: u32
  am_paddr :: u32
  am_allocation :: nat
  am_type :: alien_type

text \<open>
  \<open>struct xrp_mapping\<close>: the type with the member of the union it selects; \<open>Map_kernel_alien\<close> is the
  combination \<open>XRP_MAPPING_ALIEN | XRP_MAPPING_KERNEL\<close>.
\<close>

datatype xrp_mapping =
    Map_none | Map_native nat | Map_alien xrp_alien_mapping | Map_kernel | Map_kernel_alien xrp_alien_mapping

record vma =
  vm_start :: u32
  vm_end :: u32
  vm_file :: "nat option"
  vm_pgoff :: u32
  vm_private_data :: nat
  vm_pfnmap :: bool

record kst =
  k_mem :: mem
  k_pool :: xrp_private_pool
  k_allocs :: "nat \<Rightarrow> xrp_allocation option"
  k_next :: nat
  k_pins :: "u32 \<Rightarrow> nat"
  k_dirty :: "u32 \<Rightarrow> bool"
  k_known :: "nat list"

record kenv =
  kv_find_vma :: "u32 \<Rightarrow> vma option"
  kv_vma_bound :: nat
  kv_follow_pfn :: "vma \<Rightarrow> u32 \<Rightarrow> errno + u32"
  kv_gup :: "u32 \<Rightarrow> int \<Rightarrow> errno + u32 list"
  kv_copy_from_user :: "mem \<Rightarrow> u32 \<Rightarrow> u32 \<Rightarrow> nat \<Rightarrow> mem \<times> bool"
  kv_copy_to_user :: "mem \<Rightarrow> u32 \<Rightarrow> u32 \<Rightarrow> nat \<Rightarrow> mem \<times> bool"
  kv_get_user :: "mem \<Rightarrow> u32 \<Rightarrow> nat \<Rightarrow> u8 list option"
  kv_put_user :: "mem \<Rightarrow> u32 \<Rightarrow> u8 list \<Rightarrow> mem \<times> bool"
  kv_pfn_valid :: "u32 \<Rightarrow> bool"
  kv_ioremap_ok :: bool
  kv_kmap_ok :: bool
  kv_kmalloc_ok :: bool
  kv_buffer_mapping_ok :: bool
  kv_dsp_buffer :: "u32 option"
  kv_new_ok :: bool
  kv_cur_ok :: bool
  kv_pa :: "u32 \<Rightarrow> u32"
  kv_file_pmem :: "nat \<Rightarrow> u32"
  kv_map :: xrp_address_map

definition XRP_FLAG_READ :: u32 where
  "XRP_FLAG_READ = 1"

definition XRP_FLAG_WRITE :: u32 where
  "XRP_FLAG_WRITE = 2"

definition XRP_FLAG_READ_WRITE :: u32 where
  "XRP_FLAG_READ_WRITE = 3"

definition phys_to_pfn :: "u32 \<Rightarrow> u32" where
  "phys_to_pfn p = drop_bit 12 p"

definition pfn_to_phys :: "u32 \<Rightarrow> u32" where
  "pfn_to_phys n = push_bit 12 n"

definition page_offset :: "u32 \<Rightarrow> u32" where
  "page_offset a = a AND 0xfff"

text \<open>The number of pages of a region, computed from unsigned values; \<open>nr_pages\<close> is an \<open>int\<close>.\<close>

definition page_count :: "u32 \<Rightarrow> u32 \<Rightarrow> u32" where
  "page_count vaddr sz = drop_bit 12 (vaddr + sz + PAGE_SIZE - 1) - drop_bit 12 vaddr"

definition nr_pages :: "u32 \<Rightarrow> u32 \<Rightarrow> int" where
  "nr_pages vaddr sz = sint (page_count vaddr sz)"

subsection \<open>Known files and waiting allocations\<close>

definition xrp_add_known_file :: "bool \<Rightarrow> nat \<Rightarrow> nat list \<Rightarrow> nat list" where
  "xrp_add_known_file alloc_ok filp known = (if alloc_ok then filp # known else known)"

definition xrp_remove_known_file :: "nat \<Rightarrow> nat list \<Rightarrow> nat list" where
  "xrp_remove_known_file filp known = remove1 filp known"

definition xrp_is_known_file :: "nat \<Rightarrow> nat list \<Rightarrow> bool" where
  "xrp_is_known_file filp known \<longleftrightarrow> filp \<in> set known"

text \<open>The busy list of an open file: the numbers of its allocations with the allocations.\<close>

definition xrp_allocation_queue :: "nat \<times> xrp_allocation \<Rightarrow> (nat \<times> xrp_allocation) list \<Rightarrow> (nat \<times> xrp_allocation) list" where
  "xrp_allocation_queue a busy_list = a # busy_list"

fun xrp_allocation_dequeue ::
  "u32 \<Rightarrow> u32 \<Rightarrow> (nat \<times> xrp_allocation) list \<Rightarrow> (nat \<times> xrp_allocation) option \<times> (nat \<times> xrp_allocation) list" where
  "xrp_allocation_dequeue paddr sz [] = (None, [])"
| "xrp_allocation_dequeue paddr sz (cur # rest) =
     (if a_start (snd cur) \<le> paddr \<and> paddr + sz - a_start (snd cur) \<le> a_size (snd cur) then (Some cur, rest)
      else let (r, rest') = xrp_allocation_dequeue paddr sz rest in (r, cur # rest'))"

subsection \<open>Allocations and pages\<close>

text \<open>\<open>xrp_allocate\<close>, \<open>xrp_allocation_get\<close> and \<open>xrp_allocation_put\<close> on the driver's pool and its objects.\<close>

definition k_allocate :: "kenv \<Rightarrow> kst \<Rightarrow> u32 \<Rightarrow> u32 \<Rightarrow> (errno + nat) \<times> kst" where
  "k_allocate env st sz align =
     (case xrp_private_alloc (kv_new_ok env) (kv_cur_ok env) (k_pool st) sz align of
        (Inl e, p) \<Rightarrow> (Inl e, st\<lparr>k_pool := p\<rparr>)
      | (Inr a, p) \<Rightarrow> (Inr (k_next st),
          st\<lparr>k_pool := p, k_allocs := (k_allocs st)(k_next st \<mapsto> a), k_next := k_next st + 1\<rparr>))"

definition k_get :: "kst \<Rightarrow> nat \<Rightarrow> kst option" where
  "k_get st i = do { a \<leftarrow> k_allocs st i; Some (st\<lparr>k_allocs := (k_allocs st)(i \<mapsto> xrp_allocation_get a)\<rparr>) }"

definition k_put :: "kst \<Rightarrow> nat \<Rightarrow> kst option" where
  "k_put st i = do {
     a \<leftarrow> k_allocs st i;
     Some (case xrp_allocation_put xrp_private_free (k_pool st) a of
             (r, p) \<Rightarrow> st\<lparr>k_pool := p, k_allocs := (k_allocs st)(i := r)\<rparr>)
   }"

fun pin_pages :: "u32 list \<Rightarrow> kst \<Rightarrow> kst" where
  "pin_pages [] st = st"
| "pin_pages (p # ps) st = pin_pages ps (st\<lparr>k_pins := (k_pins st)(p := k_pins st p + 1)\<rparr>)"

text \<open>\<open>put_page\<close> on each page; a page that is not pinned must not be put.\<close>

fun put_pages :: "u32 list \<Rightarrow> kst \<Rightarrow> kst option" where
  "put_pages [] st = Some st"
| "put_pages (p # ps) st =
     (if k_pins st p = 0 then None else put_pages ps (st\<lparr>k_pins := (k_pins st)(p := k_pins st p - 1)\<rparr>))"

fun dirty_pages :: "u32 list \<Rightarrow> kst \<Rightarrow> kst" where
  "dirty_pages [] st = st"
| "dirty_pages (p # ps) st = dirty_pages ps (st\<lparr>k_dirty := (k_dirty st)(p := True)\<rparr>)"

text \<open>The pages \<open>page\<close>, \<open>page + 1\<close>, ... of a mapping.\<close>

definition mapping_pages :: "xrp_alien_mapping \<Rightarrow> nat \<Rightarrow> u32 list" where
  "mapping_pages am n = map (\<lambda>i. phys_to_pfn (am_paddr am) + of_nat i) [0..<n]"

definition xrp_alien_mapping_destroy :: "kst \<Rightarrow> xrp_alien_mapping \<Rightarrow> kst option" where
  "xrp_alien_mapping_destroy st am =
     (case am_type am of
        ALIEN_GUP \<Rightarrow> put_pages (mapping_pages am (nat (nr_pages (am_vaddr am) (am_size am)))) st
      | ALIEN_COPY \<Rightarrow> k_put st (am_allocation am)
      | ALIEN_PFN_MAP \<Rightarrow> Some st)"

subsection \<open>Physical addresses of user memory\<close>

text \<open>The loop over the pages after the first; \<open>None\<close> is the successful end.\<close>

fun pfn_loop :: "kenv \<Rightarrow> vma \<Rightarrow> xrp_address_map_entry \<Rightarrow> u32 \<Rightarrow> u32 \<Rightarrow> u32 \<Rightarrow> nat \<Rightarrow> errno option" where
  "pfn_loop env v address_map vaddr pfn i 0 = None"
| "pfn_loop env v address_map vaddr pfn i (Suc k) =
     (case kv_follow_pfn env v (vaddr + push_bit 12 i) of
        Inl e \<Rightarrow> Some e
      | Inr next_pfn \<Rightarrow>
          if next_pfn \<noteq> pfn + 1 then Some EINVAL
          else if xrp_compare_address (pfn_to_phys next_pfn) address_map \<noteq> 0 then Some EINVAL
          else pfn_loop env v address_map vaddr next_pfn (i + 1) k)"

definition xvp_pfn_virt_to_phys :: "kenv \<Rightarrow> vma \<Rightarrow> u32 \<Rightarrow> u32 \<Rightarrow> errno + xrp_alien_mapping" where
  "xvp_pfn_virt_to_phys env v vaddr sz =
     (case kv_follow_pfn env v vaddr of
        Inl e \<Rightarrow> Inl e
      | Inr pfn \<Rightarrow>
          let paddr = pfn_to_phys pfn + page_offset vaddr in
          case xrp_get_address_mapping (kv_map env) paddr of
            None \<Rightarrow> Inl EINVAL
          | Some address_map \<Rightarrow>
              case pfn_loop env v address_map vaddr pfn 1 (nat (nr_pages vaddr sz) - 1) of
                Some e \<Rightarrow> Inl e
              | None \<Rightarrow> Inr \<lparr>am_vaddr = vaddr, am_size = sz, am_paddr = paddr, am_allocation = 0,
                             am_type = ALIEN_PFN_MAP\<rparr>)"

text \<open>The loop over the pinned pages after the first one.\<close>

fun gup_contiguous :: "xrp_address_map_entry \<Rightarrow> u32 \<Rightarrow> u32 list \<Rightarrow> bool" where
  "gup_contiguous address_map prev [] = True"
| "gup_contiguous address_map prev (p # ps) =
     (p = prev + 1 \<and> xrp_compare_address (pfn_to_phys p) address_map = 0 \<and> gup_contiguous address_map p ps)"

definition xvp_gup_virt_to_phys :: "kenv \<Rightarrow> kst \<Rightarrow> u32 \<Rightarrow> u32 \<Rightarrow> ((errno + xrp_alien_mapping) \<times> kst) option" where
  "xvp_gup_virt_to_phys env st vaddr sz =
     (if \<not> kv_kmalloc_ok env then Some (Inl ENOMEM, st)
      else case kv_gup env vaddr (nr_pages vaddr sz) of
             Inl e \<Rightarrow> Some (Inl e, st)
           | Inr page \<Rightarrow>
               let st = pin_pages page st;
                   fail = do { st \<leftarrow> put_pages page st; Some (Inl EINVAL, st) }
               in if int (length page) < nr_pages vaddr sz then fail
                  else case page of
                         [] \<Rightarrow> None
                       | p0 # ps \<Rightarrow>
                           case xrp_get_address_mapping (kv_map env) (pfn_to_phys p0) of
                             None \<Rightarrow> fail
                           | Some address_map \<Rightarrow>
                               if gup_contiguous address_map p0 ps then
                                 Some (Inr \<lparr>am_vaddr = vaddr, am_size = sz,
                                            am_paddr = pfn_to_phys p0 + page_offset vaddr,
                                            am_allocation = 0, am_type = ALIEN_GUP\<rparr>, st)
                               else fail)"

subsection \<open>Shadow copies\<close>

text \<open>One call of \<open>copy_from_user\<close> or \<open>copy_to_user\<close>; the flag is that nothing was left uncopied.\<close>

definition copy_chunk :: "kenv \<Rightarrow> bool \<Rightarrow> mem \<Rightarrow> u32 \<Rightarrow> u32 \<Rightarrow> u32 \<Rightarrow> mem \<times> bool" where
  "copy_chunk env to_phys m p vaddr sz =
     (if to_phys then kv_copy_from_user env m p vaddr (unat sz) else kv_copy_to_user env m vaddr p (unat sz))"

lemma chunk_split:
  fixes sz offs room :: u32
  assumes "c = (if sz - offs < room then sz - offs else room)"
  shows "unat (sz - (offs + c)) + unat c = unat (sz - offs)" "offs < sz \<Longrightarrow> room \<noteq> 0 \<Longrightarrow> c \<noteq> 0"
proof -
  have "c \<le> sz - offs" using assms by (auto split: if_splits)
  moreover from this have "unat (sz - offs - c) = unat (sz - offs) - unat c" by (rule unat_sub)
  ultimately show "unat (sz - (offs + c)) + unat c = unat (sz - offs)"
    by (simp add: word_le_nat_alt diff_diff_eq)
qed (use assms in \<open>auto split: if_splits\<close>)

text \<open>The page loop of \<open>_xrp_copy_user_phys\<close>, from page \<open>pg\<close> and offset \<open>offs\<close> on.\<close>

function copy_pages ::
  "kenv \<Rightarrow> bool \<Rightarrow> u32 \<Rightarrow> u32 \<Rightarrow> mem \<Rightarrow> u32 \<Rightarrow> u32 \<Rightarrow> u32 \<Rightarrow> errno option \<times> mem" where
  "copy_pages env to_phys vaddr sz m pg page_offs offs =
     (if offs < sz then
        if \<not> kv_kmap_ok env then (Some ENOMEM, m)
        else
          let room = PAGE_SIZE - page_offs;
              copy_sz = (if sz - offs < room then sz - offs else room);
              (m', ok) = copy_chunk env to_phys m (pfn_to_phys pg + page_offs) (vaddr + offs) copy_sz
          in if ok then copy_pages env to_phys vaddr sz m' (pg + 1) 0 (offs + copy_sz)
             else (Some EFAULT, m')
      else (None, m))"
  by pat_completeness auto
termination
proof (relation "measure (\<lambda>(_, _, _, sz, _, _, page_offs, offs). unat (sz - offs) + (if page_offs = 0 then 0 else 1))",
    goal_cases)
  case (2 env to_phys vaddr sz m pg page_offs offs room c x m' ok)
  have "unat c \<noteq> 0 \<or> page_offs \<noteq> 0"
    using chunk_split(2) [of c sz offs room] 2 by (auto simp: PAGE_SIZE_def unat_eq_zero)
  then show ?case using chunk_split(1) [OF 2(4)] by auto
qed simp

definition xrp_copy_user_phys ::
  "kenv \<Rightarrow> u32 \<Rightarrow> u32 \<Rightarrow> u32 \<Rightarrow> bool \<Rightarrow> mem \<Rightarrow> errno option \<times> mem" where
  "xrp_copy_user_phys env vaddr sz paddr to_phys m =
     (if kv_pfn_valid env (phys_to_pfn paddr) then
        copy_pages env to_phys vaddr sz m (phys_to_pfn paddr) (page_offset paddr) 0
      else if \<not> kv_ioremap_ok env then (Some EINVAL, m)
      else case copy_chunk env to_phys m paddr vaddr sz of
             (m', ok) \<Rightarrow> (if ok then None else Some EFAULT, m'))"

definition xrp_copy_user_to_phys :: "kenv \<Rightarrow> u32 \<Rightarrow> u32 \<Rightarrow> u32 \<Rightarrow> mem \<Rightarrow> errno option \<times> mem" where
  "xrp_copy_user_to_phys env vaddr sz paddr m = xrp_copy_user_phys env vaddr sz paddr True m"

definition xrp_copy_user_from_phys :: "kenv \<Rightarrow> u32 \<Rightarrow> u32 \<Rightarrow> u32 \<Rightarrow> mem \<Rightarrow> errno option \<times> mem" where
  "xrp_copy_user_from_phys env vaddr sz paddr m = xrp_copy_user_phys env vaddr sz paddr False m"

text \<open>The kernel's \<open>clamp(val, lo, hi)\<close>, which is \<open>min(max(val, lo), hi)\<close>.\<close>

definition clamp :: "u32 \<Rightarrow> u32 \<Rightarrow> u32 \<Rightarrow> u32" where
  "clamp v least most = min (max v least) most"

definition xvp_copy_virt_to_phys ::
  "kenv \<Rightarrow> kst \<Rightarrow> u32 \<Rightarrow> u32 \<Rightarrow> u32 \<Rightarrow> ((errno + xrp_alien_mapping) \<times> kst) option" where
  "xvp_copy_virt_to_phys env st flags vaddr sz =
     (let align = clamp (vaddr AND - vaddr) PAGE_SIZE 16;
          offset = vaddr AND (align - 1)
      in case k_allocate env st (sz + align) align of
           (Inl e, st) \<Rightarrow> Some (Inl e, st)
         | (Inr i, st) \<Rightarrow> do {
             a \<leftarrow> k_allocs st i;
             let phys0 = (a_start a AND - align) OR offset;
             let phys = (if phys0 < a_start a then phys0 + align else phys0);
             let r = (if flags AND XRP_FLAG_READ \<noteq> 0 then xrp_copy_user_to_phys env vaddr sz phys (k_mem st)
                      else (None, k_mem st));
             let st = st\<lparr>k_mem := snd r\<rparr>;
             if fst r \<noteq> None then do { st \<leftarrow> k_put st i; Some (Inl EFAULT, st) }
             else Some (Inr \<lparr>am_vaddr = vaddr, am_size = sz, am_paddr = phys, am_allocation = i,
                             am_type = ALIEN_COPY\<rparr>, st)
           })"

subsection \<open>Sharing\<close>

text \<open>
  The loop of \<open>xvp_get_region_vma_count\<close>.  Its fuel bounds the number of areas of the process
  (\<open>vma_chain_enough\<close> shows that the bound is not reached).
\<close>

fun vma_chain :: "kenv \<Rightarrow> u32 \<Rightarrow> u32 \<Rightarrow> vma \<Rightarrow> nat \<Rightarrow> nat \<Rightarrow> nat" where
  "vma_chain env virt sz v i 0 = 0"
| "vma_chain env virt sz v i (Suc k) =
     (case kv_find_vma env (vm_end v) of
        None \<Rightarrow> 0
      | Some next_vma \<Rightarrow>
          if vm_start next_vma \<noteq> vm_end v then 0
          else if virt + sz \<le> vm_end next_vma then i
          else vma_chain env virt sz next_vma (i + 1) k)"

definition xvp_get_region_vma_count :: "kenv \<Rightarrow> u32 \<Rightarrow> u32 \<Rightarrow> vma \<Rightarrow> nat" where
  "xvp_get_region_vma_count env virt sz v =
     (if vm_start v > virt then 0
      else if vm_start v \<le> virt \<and> virt + sz \<le> vm_end v then 1
      else vma_chain env virt sz v 2 (kv_vma_bound env))"

text \<open>
  The mapping handed in by the caller keeps the contents \<open>old\<close> of its union when the shadow copy cannot
  be made, and its type is set all the same.
\<close>

definition xrp_share_kernel ::
  "kenv \<Rightarrow> kst \<Rightarrow> xrp_alien_mapping \<Rightarrow> u32 \<Rightarrow> u32 \<Rightarrow> u32 \<Rightarrow> ((errno + u32) \<times> xrp_mapping \<times> kst) option" where
  "xrp_share_kernel env st old virt sz flags =
     (let phys = kv_pa env virt in
      if xrp_translate_to_dsp (kv_map env) phys = XRP_NO_TRANSLATION then do {
        r \<leftarrow> xvp_copy_virt_to_phys env st flags virt sz;
        Some (case r of
                (Inl e, st) \<Rightarrow> (Inl e, Map_kernel_alien old, st)
              | (Inr am, st) \<Rightarrow> (Inr (am_paddr am), Map_kernel_alien am, st))
      } else Some (Inr phys, Map_kernel, st))"

text \<open>
  The first half of \<open>__xrp_share_block\<close>: memory allocated by an XRP device, shared directly.  The result
  is the physical address and the allocation, if the area is one the DSP can reach.
\<close>

definition share_native :: "kenv \<Rightarrow> kst \<Rightarrow> nat \<Rightarrow> vma option \<Rightarrow> u32 \<Rightarrow> u32 \<Rightarrow> (u32 \<times> nat) option" where
  "share_native env st filp v virt sz =
     (case v of
        None \<Rightarrow> None
      | Some a \<Rightarrow>
          (case vm_file a of
             None \<Rightarrow> None
           | Some f \<Rightarrow>
               if f = filp \<or> xrp_is_known_file f (k_known st) then
                 let phys = kv_file_pmem env f + push_bit 12 (vm_pgoff a) + virt - vm_start a in
                 if f \<noteq> filp then
                   (case xrp_get_address_mapping (kv_map env) phys of
                      None \<Rightarrow> None
                    | Some e \<Rightarrow> if xrp_compare_address (phys + sz - 1) e \<noteq> 0 then None
                                else Some (phys, vm_private_data a))
                 else Some (phys, vm_private_data a)
               else None))"

text \<open>The second half: memory of others, shared in place if possible and copied otherwise.\<close>

definition share_in_place ::
  "kenv \<Rightarrow> kst \<Rightarrow> vma option \<Rightarrow> u32 \<Rightarrow> u32 \<Rightarrow> ((errno + xrp_alien_mapping) \<times> kst) option" where
  "share_in_place env st v virt sz =
     (case v of
        Some a \<Rightarrow> if vm_pfnmap a then Some (xvp_pfn_virt_to_phys env a virt sz, st)
                  else xvp_gup_virt_to_phys env st virt sz
      | None \<Rightarrow> xvp_gup_virt_to_phys env st virt sz)"

definition share_alien ::
  "kenv \<Rightarrow> kst \<Rightarrow> vma option \<Rightarrow> u32 \<Rightarrow> u32 \<Rightarrow> u32 \<Rightarrow> ((errno + xrp_alien_mapping) \<times> kst) option" where
  "share_alien env st v virt sz flags = do {
     r \<leftarrow> share_in_place env st v virt sz;
     (case r of
        (Inr am, st) \<Rightarrow> Some (Inr am, st)
      | (Inl e, st) \<Rightarrow> xvp_copy_virt_to_phys env st flags virt sz)
   }"

definition xrp_share_block ::
  "kenv \<Rightarrow> kst \<Rightarrow> nat \<Rightarrow> u32 \<Rightarrow> u32 \<Rightarrow> u32 \<Rightarrow> ((errno + u32 \<times> xrp_mapping) \<times> kst) option" where
  "xrp_share_block env st filp virt sz flags =
     (case kv_find_vma env virt of
        None \<Rightarrow> Some (Inl EINVAL, st)
      | Some v \<Rightarrow>
          let n = xvp_get_region_vma_count env virt sz v;
              v' = (if n = 1 then Some v else None)
          in if n = 0 then Some (Inl EINVAL, st)
             else case share_native env st filp v' virt sz of
                    Some (phys, i) \<Rightarrow> do { st \<leftarrow> k_get st i; Some (Inr (phys, Map_native i), st) }
                  | None \<Rightarrow> do {
                      r \<leftarrow> share_alien env st v' virt sz flags;
                      Some (case r of
                              (Inl e, st) \<Rightarrow> (Inl EINVAL, st)
                            | (Inr am, st) \<Rightarrow> (Inr (am_paddr am + virt - am_vaddr am, Map_alien am), st))
                    })"

definition xrp_writeback_alien_mapping :: "kenv \<Rightarrow> kst \<Rightarrow> xrp_alien_mapping \<Rightarrow> errno option \<times> kst" where
  "xrp_writeback_alien_mapping env st am =
     (case am_type am of
        ALIEN_GUP \<Rightarrow> (None, dirty_pages (mapping_pages am (unat (page_count (am_vaddr am) (am_size am)))) st)
      | ALIEN_COPY \<Rightarrow>
          (case xrp_copy_user_from_phys env (am_vaddr am) (am_size am) (am_paddr am) (k_mem st) of
             (e, m) \<Rightarrow> (if e \<noteq> None then Some EINVAL else None, st\<lparr>k_mem := m\<rparr>))
      | ALIEN_PFN_MAP \<Rightarrow> (None, st))"

text \<open>The case \<open>XRP_MAPPING_ALIEN\<close> of \<open>__xrp_unshare_block\<close>, then the whole function.\<close>

definition unshare_alien :: "kenv \<Rightarrow> kst \<Rightarrow> xrp_alien_mapping \<Rightarrow> u32 \<Rightarrow> (errno option \<times> xrp_mapping \<times> kst) option" where
  "unshare_alien env st am flags =
     (let r = (if flags AND XRP_FLAG_WRITE \<noteq> 0 then xrp_writeback_alien_mapping env st am else (None, st))
      in do { st \<leftarrow> xrp_alien_mapping_destroy (snd r) am; Some (fst r, Map_none, st) })"

definition xrp_unshare_block :: "kenv \<Rightarrow> kst \<Rightarrow> xrp_mapping \<Rightarrow> u32 \<Rightarrow> (errno option \<times> xrp_mapping \<times> kst) option" where
  "xrp_unshare_block env st mapping flags =
     (case mapping of
        Map_native i \<Rightarrow> do { st \<leftarrow> k_put st i; Some (None, Map_none, st) }
      | Map_alien am \<Rightarrow> unshare_alien env st am flags
      | Map_kernel_alien am \<Rightarrow> unshare_alien env st am flags
      | Map_kernel \<Rightarrow> Some (None, Map_none, st)
      | Map_none \<Rightarrow> Some (None, Map_none, st))"

declare copy_pages.simps [simp del]

subsection \<open>Specification\<close>

text \<open>
  Reference counting: \<open>rc i\<close> is the number of references to allocation \<open>i\<close> that are held anywhere.  The
  live allocations are those with a reference, they carry the number, and with the free memory they
  make up the pool.
\<close>

definition live_of :: "(nat \<Rightarrow> xrp_allocation option) \<Rightarrow> nat \<Rightarrow> xrp_allocation list" where
  "live_of f n = List.map_filter f [0..<n]"

fun refs_of :: "xrp_allocation option \<Rightarrow> nat" where
  "refs_of None = 0"
| "refs_of (Some a) = unat (a_ref a)"

definition refs_ok :: "kst \<Rightarrow> (nat \<Rightarrow> nat) \<Rightarrow> bool" where
  "refs_ok st rc \<longleftrightarrow>
     accounted pool_wf pool_free pool_span (k_pool st) (live_of (k_allocs st) (k_next st)) \<and>
     (\<forall>i. k_next st \<le> i \<longrightarrow> k_allocs st i = None) \<and>
     (\<forall>i. rc i = refs_of (k_allocs st i) \<and> (rc i = 0 \<longrightarrow> k_allocs st i = None))"

text \<open>The references and the pins a mapping holds.\<close>

definition alien_refs :: "xrp_alien_mapping \<Rightarrow> nat list" where
  "alien_refs am = (if am_type am = ALIEN_COPY then [am_allocation am] else [])"

definition alien_pins :: "xrp_alien_mapping \<Rightarrow> u32 list" where
  "alien_pins am = (if am_type am = ALIEN_GUP then mapping_pages am (nat (nr_pages (am_vaddr am) (am_size am))) else [])"

fun map_refs :: "xrp_mapping \<Rightarrow> nat list" where
  "map_refs (Map_native i) = [i]"
| "map_refs (Map_alien am) = alien_refs am"
| "map_refs (Map_kernel_alien am) = alien_refs am"
| "map_refs _ = []"

fun map_pins :: "xrp_mapping \<Rightarrow> u32 list" where
  "map_pins (Map_alien am) = alien_pins am"
| "map_pins (Map_kernel_alien am) = alien_pins am"
| "map_pins _ = []"

text \<open>
  The driver's books are balanced: beyond the references \<open>rf\<close> and pins \<open>pf\<close> held elsewhere (areas of
  processes, lists of open files) exactly the mappings \<open>ms\<close> hold references and pins.
\<close>

definition kinv :: "kst \<Rightarrow> (nat \<Rightarrow> nat) \<Rightarrow> (u32 \<Rightarrow> nat) \<Rightarrow> xrp_mapping list \<Rightarrow> bool" where
  "kinv st rf pf ms \<longleftrightarrow>
     refs_ok st (\<lambda>i. rf i + (\<Sum>m\<leftarrow>ms. count_list (map_refs m) i)) \<and>
     (\<forall>p. k_pins st p = pf p + (\<Sum>m\<leftarrow>ms. count_list (map_pins m) p))"

subsection \<open>References\<close>

lemma alien_holds [simp]:
  "am_type am = ALIEN_COPY \<Longrightarrow> alien_refs am = [am_allocation am]" "am_type am = ALIEN_COPY \<Longrightarrow> alien_pins am = []"
  "am_type am = ALIEN_PFN_MAP \<Longrightarrow> alien_refs am = []" "am_type am = ALIEN_PFN_MAP \<Longrightarrow> alien_pins am = []"
  "am_type am = ALIEN_GUP \<Longrightarrow> alien_refs am = []"
  "am_type am = ALIEN_GUP \<Longrightarrow> alien_pins am = mapping_pages am (nat (nr_pages (am_vaddr am) (am_size am)))"
  by (simp_all add: alien_refs_def alien_pins_def)

lemma map_filter_upd: "i \<notin> set xs \<Longrightarrow> List.map_filter (f(i := r)) xs = List.map_filter f xs"
  by (induction xs) (auto simp: map_filter_simps split: option.splits)

lemma map_filter_append: "List.map_filter f (xs @ ys) = List.map_filter f xs @ List.map_filter f ys"
  by (simp add: map_filter_def)

lemma live_of_Suc: "live_of (f(n \<mapsto> a)) (Suc n) = live_of f n @ [a]"
  by (simp add: live_of_def map_filter_append map_filter_upd map_filter_simps)

lemma live_of_update:
  assumes "i < n" and "f i = Some a"
  obtains xs ys where "live_of f n = xs @ a # ys"
    and "\<And>r. live_of (f(i := r)) n = xs @ (case r of None \<Rightarrow> [] | Some b \<Rightarrow> [b]) @ ys"
proof -
  have n: "[0..<n] = [0..<i] @ i # [Suc i..<n]"
    using assms(1) upt_add_eq_append [of 0 i "n - i"] by (simp add: upt_conv_Cons)
  have "live_of (f(i := r)) n =
      List.map_filter f [0..<i] @ (case r of None \<Rightarrow> [] | Some b \<Rightarrow> [b]) @ List.map_filter f [Suc i..<n]" for r
    unfolding live_of_def n by (simp add: map_filter_append map_filter_upd map_filter_simps split: option.splits)
  moreover from this [of "Some a"] assms(2) have "live_of f n = List.map_filter f [0..<i] @ a # List.map_filter f [Suc i..<n]"
    by (simp add: fun_upd_idem)
  ultimately show ?thesis by (intro that)
qed

lemma refs_okD:
  assumes "refs_ok st rc" and "0 < rc i"
  obtains a where "k_allocs st i = Some a" "rc i = unat (a_ref a)" "i < k_next st"
proof -
  have c: "rc i = refs_of (k_allocs st i)" "k_next st \<le> i \<Longrightarrow> k_allocs st i = None"
    using assms(1) by (simp_all add: refs_ok_def)
  then obtain a where "k_allocs st i = Some a" using assms(2) by (cases "k_allocs st i") auto
  with c show ?thesis by (intro that) (auto simp: not_le [symmetric])
qed

text \<open>Replacing one allocation, and the pool, under the same accounts.\<close>

lemma refs_ok_update:
  assumes "refs_ok st rc" and "k_allocs st i = Some a" and "i < k_next st"
    and "\<And>xs ys. accounted pool_wf pool_free pool_span (k_pool st) (xs @ a # ys) \<Longrightarrow>
      accounted pool_wf pool_free pool_span p (xs @ (case r of None \<Rightarrow> [] | Some b \<Rightarrow> [b]) @ ys)"
    and "n = refs_of r" and "n = 0 \<longrightarrow> r = None"
  shows "refs_ok (st\<lparr>k_pool := p, k_allocs := (k_allocs st)(i := r)\<rparr>) (rc(i := n))"
proof -
  obtain xs ys where l: "live_of (k_allocs st) (k_next st) = xs @ a # ys"
      "\<And>r. live_of ((k_allocs st)(i := r)) (k_next st) = xs @ (case r of None \<Rightarrow> [] | Some b \<Rightarrow> [b]) @ ys"
    using live_of_update [of i "k_next st" "k_allocs st" a] assms(2,3) by blast
  then have "accounted pool_wf pool_free pool_span p (live_of ((k_allocs st)(i := r)) (k_next st))"
    using assms(1,4) by (simp only: l refs_ok_def)
  then show ?thesis using assms(1,3,5,6) by (auto simp: refs_ok_def)
qed

lemma k_get_ok:
  assumes "refs_ok st rc" and "0 < rc i" and "rc i + 1 < 2 ^ 32"
  obtains al where "k_get st i = Some (st\<lparr>k_allocs := al\<rparr>)" "refs_ok (st\<lparr>k_allocs := al\<rparr>) (rc(i := rc i + 1))"
proof -
  obtain a where a: "k_allocs st i = Some a" "rc i = unat (a_ref a)" "i < k_next st"
    using refs_okD [OF assms(1,2)] by blast
  have u: "unat (a_ref a + 1) = rc i + 1" using a(2) assms(3) by (subst unat_add_le) simp_all
  have "refs_ok (st\<lparr>k_pool := k_pool st, k_allocs := (k_allocs st)(i := Some (xrp_allocation_get a))\<rparr>) (rc(i := rc i + 1))"
    by (rule refs_ok_update [OF assms(1) a(1,3)]) (use u in \<open>auto simp: xrp_allocation_get_def priv.accounted_ref\<close>)
  then show ?thesis by (intro that [of "(k_allocs st)(i := Some (xrp_allocation_get a))"]) (simp_all add: k_get_def a)
qed

lemma k_put_ok:
  assumes "refs_ok st rc" and "0 < rc i"
  obtains p al where "k_put st i = Some (st\<lparr>k_pool := p, k_allocs := al\<rparr>)"
    "refs_ok (st\<lparr>k_pool := p, k_allocs := al\<rparr>) (rc(i := rc i - 1))"
proof -
  obtain a where a: "k_allocs st i = Some a" "rc i = unat (a_ref a)" "i < k_next st"
    using refs_okD [OF assms] by blast
  obtain r p where rp: "xrp_allocation_put xrp_private_free (k_pool st) a = (r, p)" by fastforce
  have "a_ref a \<noteq> 0" using a(2) assms(2) by auto
  then have "unat (a_ref a - 1) = rc i - 1" using a(2) by (simp add: unat_minus_one)
  then have "rc i - 1 = refs_of r \<and> (rc i - 1 = 0 \<longrightarrow> r = None)"
    using rp unat_gt_0 [of "a_ref a - 1"] by (auto simp: xrp_allocation_put_def Let_def split: if_splits)
  then have "refs_ok (st\<lparr>k_pool := p, k_allocs := (k_allocs st)(i := r)\<rparr>) (rc(i := rc i - 1))"
    by (intro refs_ok_update [OF assms(1) a(1,3)]) (use priv.accounted_put [OF _ rp] in blast)+
  then show ?thesis by (intro that [of "(k_allocs st)(i := r)" p]) (simp_all add: k_put_def a rp)
qed

text \<open>A new allocation has one reference, starts and ends on a page boundary and has room for the request.\<close>

lemma k_allocate_ok:
  assumes "refs_ok st rc" and "request_fits sz al" and "kv_cur_ok env" and "k_allocate env st sz al = (Inr i, st')"
  obtains p a where "st' = st\<lparr>k_pool := p, k_allocs := (k_allocs st)(i \<mapsto> a), k_next := i + 1\<rparr>" "i = k_next st"
    "rc i = 0" "refs_ok st' (rc(i := 1))" "bytes a \<subseteq> pool_free (k_pool st)"
    "eff_align al dvd unat (a_start a)" "unat (a_size a) = eff_size sz"
proof -
  obtain a p where r: "xrp_private_alloc True True (k_pool st) sz al = (Inr a, p)" "i = k_next st"
      "st' = st\<lparr>k_pool := p, k_allocs := (k_allocs st)(i \<mapsto> a), k_next := i + 1\<rparr>"
    using assms(3,4)
    by (cases "kv_new_ok env") (auto simp: k_allocate_def xrp_private_alloc_def split: prod.splits sum.splits if_splits)
  have q: "request_ok sz al" using r assms(2) private_alloc_reject [of sz al True True "k_pool st"] by (cases "request_ok sz al") auto
  have w: "pool_wf (k_pool st)" and acc: "accounted pool_wf pool_free pool_span (k_pool st) (live_of (k_allocs st) i)"
    using assms(1) r(2) by (simp_all add: refs_ok_def accounted_def)
  note A = alloc_sound [OF w q r(1)]
  have z: "rc i = 0" using assms(1) r(2) by (auto simp: refs_ok_def)
  have "accounted pool_wf pool_free pool_span p (live_of (k_allocs st) i @ [a])"
    using priv.accounted_alloc [OF acc assms(2) r(1)] by (auto simp: accounted_def tiles_mid [of _ _ "[]", simplified] tiles_mid [where ys = "[]", simplified])
  then have "refs_ok st' (rc(i := 1))"
    using assms(1) r(2,3) A by (auto simp: refs_ok_def live_of_Suc)
  then show ?thesis using that [of a p] r z A by blast
qed

lemma k_allocate_err:
  assumes "refs_ok st rc" and "request_fits sz al" and "kv_cur_ok env" and "k_allocate env st sz al = (Inl e, st')"
  shows "st' = st"
proof (cases "kv_new_ok env")
  case True
  then show ?thesis
    using assms priv.alloc_err [of "k_pool st" sz al]
    by (auto simp: k_allocate_def refs_ok_def accounted_def split: prod.splits sum.splits)
next
  case False
  then show ?thesis
    using assms(4) by (auto simp: k_allocate_def xrp_private_alloc_def Let_def split: prod.splits sum.splits if_splits)
qed

lemma refs_ok_frame [simp]:
  "refs_ok (st\<lparr>k_mem := m\<rparr>) rc = refs_ok st rc" "refs_ok (st\<lparr>k_pins := pn\<rparr>) rc = refs_ok st rc"
  "refs_ok (st\<lparr>k_dirty := d\<rparr>) rc = refs_ok st rc"
  by (simp_all add: refs_ok_def)

subsection \<open>Pins\<close>

lemma pin_pages_eq: "pin_pages ps st = st\<lparr>k_pins := \<lambda>p. k_pins st p + count_list ps p\<rparr>"
proof (induction ps arbitrary: st)
  case (Cons q ps)
  show ?case unfolding pin_pages.simps Cons by (simp add: fun_eq_iff)
qed simp

lemma put_pages_eq:
  "(\<And>p. count_list ps p \<le> k_pins st p) \<Longrightarrow>
     put_pages ps st = Some (st\<lparr>k_pins := \<lambda>p. k_pins st p - count_list ps p\<rparr>)"
proof (induction ps arbitrary: st)
  case (Cons q ps)
  have q: "k_pins st q \<noteq> 0" using Cons.prems [of q] by auto
  have "count_list ps p \<le> k_pins (st\<lparr>k_pins := (k_pins st)(q := k_pins st q - 1)\<rparr>) p" for p
    using Cons.prems [of p] by (auto split: if_splits)
  from Cons.IH [OF this] q show ?case by (simp add: fun_upd_def) (auto simp: fun_eq_iff intro!: arg_cong [where f = "\<lambda>f. st\<lparr>k_pins := f\<rparr>"])
qed simp

lemma dirty_pages_frame:
  "refs_ok (dirty_pages ps st) rc = refs_ok st rc" "k_pins (dirty_pages ps st) = k_pins st"
  "k_known (dirty_pages ps st) = k_known st"
  by (induction ps arbitrary: st) simp_all

subsection \<open>Shadow copies keep the books\<close>

lemma clamp_16 [simp]: "clamp v PAGE_SIZE 16 = 16"
proof -
  have "(16 :: u32) \<le> max v PAGE_SIZE" unfolding PAGE_SIZE_def by (rule order_trans [OF _ max.cobounded2]) simp
  then show ?thesis by (simp add: clamp_def)
qed

lemma copy_virt_ok:
  assumes "refs_ok st rc" and "request_fits (sz + 16) 16" and "kv_cur_ok env"
  obtains (err) e st' where "xvp_copy_virt_to_phys env st flags vaddr sz = Some (Inl e, st')" "refs_ok st' rc"
      "k_pins st' = k_pins st" "k_known st' = k_known st"
    | (copied) am st' where "xvp_copy_virt_to_phys env st flags vaddr sz = Some (Inr am, st')"
      "am_type am = ALIEN_COPY" "rc (am_allocation am) = 0" "refs_ok st' (rc(am_allocation am := 1))"
      "k_pins st' = k_pins st" "k_known st' = k_known st"
proof (cases "k_allocate env st (sz + 16) 16")
  case (Pair r st1)
  show ?thesis
  proof (cases r)
    case (Inl e)
    with Pair have "st1 = st" using k_allocate_err [OF assms] by simp
    with Pair Inl show ?thesis using assms(1) by (intro err [of e st]) (simp_all add: xvp_copy_virt_to_phys_def)
  next
    case (Inr i)
    obtain p a where st1: "st1 = st\<lparr>k_pool := p, k_allocs := (k_allocs st)(i \<mapsto> a), k_next := i + 1\<rparr>"
        and i: "rc i = 0" "refs_ok st1 (rc(i := 1))"
      using k_allocate_ok [OF assms Pair [unfolded Inr]] by metis
    define phys0 where "phys0 = (a_start a AND - 16) OR (vaddr AND 15)"
    define phys where "phys = (if phys0 < a_start a then phys0 + 16 else phys0)"
    define c where "c = (if flags AND XRP_FLAG_READ \<noteq> 0 then xrp_copy_user_to_phys env vaddr sz phys (k_mem st1)
      else (None, k_mem st1))"
    have al: "k_allocs st1 i = Some a" by (simp add: st1)
    have run: "xvp_copy_virt_to_phys env st flags vaddr sz =
        (if fst c \<noteq> None then do { st \<leftarrow> k_put (st1\<lparr>k_mem := snd c\<rparr>) i; Some (Inl EFAULT, st) }
         else Some (Inr \<lparr>am_vaddr = vaddr, am_size = sz, am_paddr = phys, am_allocation = i, am_type = ALIEN_COPY\<rparr>,
                    st1\<lparr>k_mem := snd c\<rparr>))"
      by (simp add: xvp_copy_virt_to_phys_def Pair Inr al Let_def c_def phys_def phys0_def del: not_None_eq)
    show ?thesis
    proof (cases "fst c = None")
      case True
      then show ?thesis
        using i run by (intro copied [OF run [unfolded True, simplified]]) (simp_all add: st1)
    next
      case False
      obtain p' al where "k_put (st1\<lparr>k_mem := snd c\<rparr>) i = Some (st1\<lparr>k_mem := snd c, k_pool := p', k_allocs := al\<rparr>)"
          "refs_ok (st1\<lparr>k_mem := snd c, k_pool := p', k_allocs := al\<rparr>) ((rc(i := 1))(i := 0))"
        by (rule k_put_ok [of "st1\<lparr>k_mem := snd c\<rparr>" "rc(i := 1)" i]) (use i in auto)
      moreover have "(rc(i := 1))(i := 0) = rc" using i(1) by (simp add: fun_eq_iff)
      ultimately show ?thesis
        using run False
        by (intro err [of EFAULT "st1\<lparr>k_mem := snd c, k_pool := p', k_allocs := al\<rparr>"]) (simp_all add: st1)
    qed
  qed
qed

subsection \<open>Sharing keeps the books\<close>

text \<open>
  What is relied on of the kernel: \<open>get_user_pages_fast\<close> returns at most as many pages as asked for, of
  physical memory; an area of an XRP file holds a reference to its allocation.
\<close>

definition gup_law :: "kenv \<Rightarrow> bool" where
  "gup_law env \<longleftrightarrow> (\<forall>vaddr n ps. kv_gup env vaddr n = Inr ps \<longrightarrow> length ps \<le> nat n \<and> (\<forall>p\<in>set ps. unat p < 2 ^ 20))"

definition areas_hold :: "kenv \<Rightarrow> nat \<Rightarrow> nat list \<Rightarrow> (nat \<Rightarrow> nat) \<Rightarrow> bool" where
  "areas_hold env filp known rf \<longleftrightarrow> (\<forall>addr v f. kv_find_vma env addr = Some v \<longrightarrow> vm_file v = Some f \<longrightarrow>
     f = filp \<or> xrp_is_known_file f known \<longrightarrow> 0 < rf (vm_private_data v))"

lemma gup_contiguous_upt:
  "gup_contiguous e p ps \<Longrightarrow> p # ps = map (\<lambda>i. p + of_nat i) [0..<Suc (length ps)]"
proof (induction ps arbitrary: p)
  case (Cons q ps)
  then have q: "q = p + 1" "gup_contiguous e q ps" by (blast dest: gup_contiguous.simps(2) [THEN iffD1])+
  from Cons.IH [OF this(2)] have "q # ps = map (\<lambda>i. q + of_nat i) [0..<Suc (length ps)]" .
  then have "q # ps = map (\<lambda>i. p + of_nat (Suc i)) [0..<Suc (length ps)]" by (simp only: q(1)) (simp add: add.assoc)
  also have "\<dots> = map (\<lambda>i. p + of_nat i) [Suc 0..<Suc (Suc (length ps))]"
    by (simp only: map_Suc_upt [symmetric] map_map comp_def)
  finally show ?case by (simp add: upt_rec [of 0] del: upt_Suc)
qed simp

lemma unat_pfn_to_phys: "unat p < 2 ^ 20 \<Longrightarrow> unat (pfn_to_phys p) = 4096 * unat p"
  by (simp add: pfn_to_phys_def push_bit_eq_mult unat_word_ariths)

lemma unat_page_offset: "unat (page_offset v) = unat v mod 4096"
  using unat_and_mask [of v 12] by (simp add: page_offset_def mask_eq_exp_minus_1)

lemma phys_page:
  assumes "unat p < 2 ^ 20"
  shows "phys_to_pfn (pfn_to_phys p + page_offset v) = p"
    "unat (pfn_to_phys p + page_offset v) = 4096 * unat p + unat v mod 4096"
proof -
  have "unat v mod 4096 < 4096" by simp
  then show u: "unat (pfn_to_phys p + page_offset v) = 4096 * unat p + unat v mod 4096"
    using assms by (subst unat_add_le) (simp_all add: unat_pfn_to_phys unat_page_offset)
  have "unat (phys_to_pfn (pfn_to_phys p + page_offset v)) = unat p"
    unfolding phys_to_pfn_def unat_drop_bit_eq u by (simp add: drop_bit_eq_div)
  then show "phys_to_pfn (pfn_to_phys p + page_offset v) = p" by (simp only: word_unat_eq_iff)
qed

text \<open>On success the pinned pages are the pages of the mapping; otherwise nothing stays pinned.\<close>

lemma gup_ok:
  assumes "gup_law env" and "0 < nr_pages vaddr sz"
  obtains (err) e where "xvp_gup_virt_to_phys env st vaddr sz = Some (Inl e, st)"
    | (pinned) am where "xvp_gup_virt_to_phys env st vaddr sz =
        Some (Inr am, st\<lparr>k_pins := \<lambda>p. k_pins st p + count_list (alien_pins am) p\<rparr>)" "am_type am = ALIEN_GUP"
        "am_vaddr am = vaddr" "am_size am = sz"
proof -
  have put: "put_pages ps (pin_pages ps st) = Some st" for ps
    unfolding pin_pages_eq by (subst put_pages_eq) (simp_all add: fun_eq_iff)
  note gup = xvp_gup_virt_to_phys_def [of env st vaddr sz]
  show ?thesis
  proof (cases "\<exists>p0 ps address_map. kv_kmalloc_ok env \<and> kv_gup env vaddr (nr_pages vaddr sz) = Inr (p0 # ps) \<and>
      nr_pages vaddr sz \<le> int (length (p0 # ps)) \<and>
      xrp_get_address_mapping (kv_map env) (pfn_to_phys p0) = Some address_map \<and> gup_contiguous address_map p0 ps")
    case False
    have "\<exists>e. xvp_gup_virt_to_phys env st vaddr sz = Some (Inl e, st)"
    proof (cases "kv_gup env vaddr (nr_pages vaddr sz)")
      case (Inr page)
      then show ?thesis
        using False assms(2) put
        by (cases page) (auto simp: gup Let_def simp del: pin_pages.simps put_pages.simps split: option.splits)
    qed (simp add: gup)
    then show ?thesis using err by blast
  next
    case True
    then obtain p0 ps address_map where 2: "kv_kmalloc_ok env" "kv_gup env vaddr (nr_pages vaddr sz) = Inr (p0 # ps)"
      "nr_pages vaddr sz \<le> int (length (p0 # ps))" "gup_contiguous address_map p0 ps"
      "xrp_get_address_mapping (kv_map env) (pfn_to_phys p0) = Some address_map" by blast
    let ?am = "\<lparr>am_vaddr = vaddr, am_size = sz, am_paddr = pfn_to_phys p0 + page_offset vaddr,
                   am_allocation = 0, am_type = ALIEN_GUP\<rparr>"
    have l: "nat (nr_pages vaddr sz) = Suc (length ps)" and p0: "unat p0 < 2 ^ 20"
      using assms(1) 2(2,3) by (fastforce simp: gup_law_def)+
    have "alien_pins ?am = p0 # ps"
      using gup_contiguous_upt [OF 2(4)] phys_page(1) [OF p0] l by (simp add: mapping_pages_def)
    moreover have "xvp_gup_virt_to_phys env st vaddr sz = Some (Inr ?am, pin_pages (p0 # ps) st)"
      using 2 by (simp add: gup Let_def del: pin_pages.simps)
    ultimately show ?thesis by (intro pinned [of ?am]) (simp_all only: pin_pages_eq xrp_alien_mapping.simps)
  qed
qed

text \<open>What one more mapping adds to the books.\<close>

lemma kinv_Cons:
  assumes "rc = (\<lambda>i. rf i + (\<Sum>m\<leftarrow>ms. count_list (map_refs m) i))"
    and "refs_ok st (\<lambda>i. rc i + count_list (map_refs m) i)"
    and "k_pins st = (\<lambda>p. pf p + (\<Sum>m\<leftarrow>ms. count_list (map_pins m) p) + count_list (map_pins m) p)"
  shows "kinv st rf pf (m # ms)"
proof -
  have "(\<lambda>i. rc i + count_list (map_refs m) i) = (\<lambda>i. rf i + (\<Sum>m\<leftarrow>m # ms. count_list (map_refs m) i))"
    by (simp add: fun_eq_iff assms(1))
  with assms(2,3) show ?thesis by (simp add: kinv_def)
qed

lemma kinv_mset:
  assumes "mset ms = mset ms'"
  shows "kinv st rf pf ms = kinv st rf pf ms'"
proof -
  have "(\<Sum>m\<leftarrow>ms. f m) = (\<Sum>m\<leftarrow>ms'. f m)" for f :: "xrp_mapping \<Rightarrow> nat"
    using assms by (metis mset_map sum_mset_sum_list)
  then show ?thesis by (simp add: kinv_def)
qed

lemma kinv_mem [simp]: "kinv (st\<lparr>k_mem := m\<rparr>) rf pf ms = kinv st rf pf ms"
  by (simp add: kinv_def)

lemma share_in_place_ok:
  assumes "gup_law env" and "0 < nr_pages virt sz"
  obtains (no) e where "share_in_place env st v virt sz = Some (Inl e, st)"
    | (pfn) am where "share_in_place env st v virt sz = Some (Inr am, st)" "am_type am = ALIEN_PFN_MAP"
    | (gup) am where "share_in_place env st v virt sz =
          Some (Inr am, st\<lparr>k_pins := \<lambda>p. k_pins st p + count_list (alien_pins am) p\<rparr>)" "am_type am = ALIEN_GUP"
proof (cases "v \<noteq> None \<and> vm_pfnmap (the v)")
  case True
  then have "share_in_place env st v virt sz = Some (xvp_pfn_virt_to_phys env (the v) virt sz, st)"
    by (auto simp: share_in_place_def)
  then show thesis
    by (cases "xvp_pfn_virt_to_phys env (the v) virt sz")
      (auto intro: no pfn simp: xvp_pfn_virt_to_phys_def Let_def split: sum.splits option.splits)
next
  case False
  then have "share_in_place env st v virt sz = xvp_gup_virt_to_phys env st virt sz"
    by (auto simp: share_in_place_def split: option.splits)
  then show thesis by (cases rule: gup_ok [OF assms, of st]) (auto intro: no gup simp del: alien_holds)
qed

lemma share_alien_ok:
  assumes "kinv st rf pf ms" and "gup_law env" and "kv_cur_ok env" and "request_fits (sz + 16) 16"
    and "0 < nr_pages virt sz"
  obtains (err) e st' where "share_alien env st v virt sz flags = Some (Inl e, st')" "kinv st' rf pf ms"
      "k_known st' = k_known st"
    | (shared) am st' where "share_alien env st v virt sz flags = Some (Inr am, st')"
      "kinv st' rf pf (Map_alien am # ms)" "k_known st' = k_known st"
proof -
  define rc where "rc = (\<lambda>i. rf i + (\<Sum>m\<leftarrow>ms. count_list (map_refs m) i))"
  have rok: "refs_ok st rc" and pn: "k_pins st = (\<lambda>p. pf p + (\<Sum>m\<leftarrow>ms. count_list (map_pins m) p))"
    using assms(1) by (simp_all add: kinv_def rc_def fun_eq_iff)
  show ?thesis
  proof (cases rule: share_in_place_ok [OF assms(2,5), of st v])
    case in_place: (1 e)
    show ?thesis
    proof (cases rule: copy_virt_ok [OF rok assms(4,3), of flags virt])
      case (1 e st')
      then show ?thesis using in_place pn by (intro err [of e st']) (auto simp: share_alien_def kinv_def rc_def)
    next
      case (2 am st')
      have "(\<lambda>i. rc i + count_list (map_refs (Map_alien am)) i) = rc(am_allocation am := 1)"
        using 2(2,3) by (auto simp: fun_eq_iff)
      then have "kinv st' rf pf (Map_alien am # ms)" using 2 pn by (intro kinv_Cons [OF rc_def]) auto
      then show ?thesis using in_place 2 by (intro shared [of am st']) (auto simp: share_alien_def)
    qed
  next
    case pfn: (2 am)
    then have "kinv st rf pf (Map_alien am # ms)" using rok pn by (intro kinv_Cons [OF rc_def]) auto
    then show ?thesis using pfn by (intro shared [of am st]) (auto simp: share_alien_def)
  next
    case gup: (3 am)
    let ?st = "st\<lparr>k_pins := \<lambda>p. k_pins st p + count_list (alien_pins am) p\<rparr>"
    have "kinv ?st rf pf (Map_alien am # ms)" using gup rok pn by (intro kinv_Cons [OF rc_def]) auto
    then show ?thesis using gup by (intro shared [of am ?st]) (auto simp: share_alien_def)
  qed
qed

lemma share_native_held:
  assumes "share_native env st filp v virt sz = Some (phys, i)" and "areas_hold env filp (k_known st) rf"
    and "v = None \<or> kv_find_vma env virt = v"
  shows "0 < rf i"
  using assms
  by (auto simp: share_native_def areas_hold_def Let_def split: option.splits if_splits)

lemma share_block_ok:
  assumes "kinv st rf pf ms" and "gup_law env" and "areas_hold env filp (k_known st) rf" and "kv_cur_ok env"
    and "request_fits (sz + 16) 16" and "0 < nr_pages virt sz"
    and "\<forall>i. rf i + (\<Sum>m\<leftarrow>ms. count_list (map_refs m) i) + 1 < 2 ^ 32"
  obtains (err) st' where "xrp_share_block env st filp virt sz flags = Some (Inl EINVAL, st')" "kinv st' rf pf ms"
      "k_known st' = k_known st"
    | (shared) phys m st' where "xrp_share_block env st filp virt sz flags = Some (Inr (phys, m), st')"
      "kinv st' rf pf (m # ms)" "k_known st' = k_known st"
proof (cases "\<exists>v. kv_find_vma env virt = Some v \<and> xvp_get_region_vma_count env virt sz v \<noteq> 0")
  case False
  then show ?thesis using err [of st] assms(1) by (auto simp: xrp_share_block_def split: option.splits)
next
  case True
  then obtain v where v: "kv_find_vma env virt = Some v" "xvp_get_region_vma_count env virt sz v \<noteq> 0" by blast
  define v' where "v' = (if xvp_get_region_vma_count env virt sz v = 1 then Some v else None)"
  have run: "xrp_share_block env st filp virt sz flags = (case share_native env st filp v' virt sz of
      Some (phys, i) \<Rightarrow> do { st \<leftarrow> k_get st i; Some (Inr (phys, Map_native i), st) }
    | None \<Rightarrow> do { r \<leftarrow> share_alien env st v' virt sz flags;
        Some (case r of (Inl e, st) \<Rightarrow> (Inl EINVAL, st)
              | (Inr am, st) \<Rightarrow> (Inr (am_paddr am + virt - am_vaddr am, Map_alien am), st)) })"
    unfolding xrp_share_block_def Let_def v'_def using v by simp
  show ?thesis
  proof (cases "share_native env st filp v' virt sz")
    case None
    show ?thesis
      by (cases rule: share_alien_ok [OF assms(1,2,4,5,6), of v' flags]) (use run None err shared in auto)
  next
    case (Some x)
    obtain phys i where x: "x = (phys, i)" by fastforce
    define rc where "rc = (\<lambda>i. rf i + (\<Sum>m\<leftarrow>ms. count_list (map_refs m) i))"
    have rok: "refs_ok st rc" and pn: "k_pins st = (\<lambda>p. pf p + (\<Sum>m\<leftarrow>ms. count_list (map_pins m) p))"
      using assms(1) by (simp_all add: kinv_def rc_def fun_eq_iff)
    have "0 < rc i" using share_native_held [OF Some [unfolded x] assms(3)] v by (auto simp: rc_def v'_def)
    moreover have "rc i + 1 < 2 ^ 32" using assms(7) by (simp add: rc_def)
    ultimately obtain al where al: "k_get st i = Some (st\<lparr>k_allocs := al\<rparr>)"
        "refs_ok (st\<lparr>k_allocs := al\<rparr>) (rc(i := rc i + 1))"
      using k_get_ok [OF rok] by blast
    have "(\<lambda>j. rc j + count_list (map_refs (Map_native i)) j) = rc(i := rc i + 1)" by (auto simp: fun_eq_iff)
    with al pn have "kinv (st\<lparr>k_allocs := al\<rparr>) rf pf (Map_native i # ms)" by (intro kinv_Cons [OF rc_def]) auto
    with al show ?thesis using run Some x by (intro shared [of phys "Map_native i" "st\<lparr>k_allocs := al\<rparr>"]) simp_all
  qed
qed

lemma share_kernel_ok:
  assumes "kinv st rf pf ms" and "kv_cur_ok env" and "request_fits (sz + 16) 16"
  obtains (err) e st' where "xrp_share_kernel env st old virt sz flags = Some (Inl e, Map_kernel_alien old, st')"
      "kinv st' rf pf ms" "k_known st' = k_known st"
    | (shared) phys m st' where "xrp_share_kernel env st old virt sz flags = Some (Inr phys, m, st')"
      "kinv st' rf pf (m # ms)" "k_known st' = k_known st"
proof (cases "xrp_translate_to_dsp (kv_map env) (kv_pa env virt) = XRP_NO_TRANSLATION")
  case False
  have "kinv st rf pf (Map_kernel # ms)" using assms(1) by (simp add: kinv_def)
  with False show ?thesis by (intro shared [of "kv_pa env virt" Map_kernel st]) (simp_all add: xrp_share_kernel_def)
next
  case True
  define rc where "rc = (\<lambda>i. rf i + (\<Sum>m\<leftarrow>ms. count_list (map_refs m) i))"
  have rok: "refs_ok st rc" and pn: "k_pins st = (\<lambda>p. pf p + (\<Sum>m\<leftarrow>ms. count_list (map_pins m) p))"
    using assms(1) by (simp_all add: kinv_def rc_def fun_eq_iff)
  show ?thesis
  proof (cases rule: copy_virt_ok [OF rok assms(3,2), of flags virt])
    case (1 e st')
    then show ?thesis using True pn by (intro err [of e st']) (auto simp: kinv_def rc_def xrp_share_kernel_def)
  next
    case (2 am st')
    have "(\<lambda>i. rc i + count_list (map_refs (Map_kernel_alien am)) i) = rc(am_allocation am := 1)"
      using 2(2,3) by (auto simp: fun_eq_iff)
    then have "kinv st' rf pf (Map_kernel_alien am # ms)" using 2 pn by (intro kinv_Cons [OF rc_def]) auto
    then show ?thesis
      using True 2 by (intro shared [of "am_paddr am" "Map_kernel_alien am" st']) (auto simp: xrp_share_kernel_def)
  qed
qed

lemma unshare_alien_ok:
  assumes "kinv st rf pf (m # ms)" and "map_refs m = alien_refs am" and "map_pins m = alien_pins am"
  obtains e st' where "unshare_alien env st am flags = Some (e, Map_none, st')" "kinv st' rf pf ms"
    "k_known st' = k_known st"
proof -
  define rc where "rc = (\<lambda>i. rf i + (\<Sum>m\<leftarrow>ms. count_list (map_refs m) i))"
  define r where "r = (if flags AND XRP_FLAG_WRITE \<noteq> 0 then xrp_writeback_alien_mapping env st am else (None, st))"
  have rok: "refs_ok st (\<lambda>i. rc i + count_list (alien_refs am) i)"
      and pn: "k_pins st = (\<lambda>p. pf p + (\<Sum>m\<leftarrow>ms. count_list (map_pins m) p) + count_list (alien_pins am) p)"
    using assms by (simp_all add: kinv_def rc_def fun_eq_iff add_ac)
  have f: "refs_ok (snd r) (\<lambda>i. rc i + count_list (alien_refs am) i)" "k_pins (snd r) = k_pins st"
      "k_known (snd r) = k_known st"
    using rok by (simp_all add: r_def xrp_writeback_alien_mapping_def dirty_pages_frame del: alien_holds split: alien_type.splits prod.splits)
  have run: "unshare_alien env st am flags =
      do { st \<leftarrow> xrp_alien_mapping_destroy (snd r) am; Some (fst r, Map_none, st) }"
    by (simp add: unshare_alien_def r_def Let_def)
  have "\<exists>st'. xrp_alien_mapping_destroy (snd r) am = Some st' \<and> refs_ok st' rc \<and> k_known st' = k_known st \<and>
      k_pins st' = (\<lambda>p. pf p + (\<Sum>m\<leftarrow>ms. count_list (map_pins m) p))"
  proof (cases "am_type am")
    case ALIEN_GUP
    let ?ps = "mapping_pages am (nat (nr_pages (am_vaddr am) (am_size am)))"
    have "put_pages ?ps (snd r) = Some ((snd r)\<lparr>k_pins := \<lambda>p. k_pins (snd r) p - count_list ?ps p\<rparr>)"
      by (rule put_pages_eq) (simp add: f pn ALIEN_GUP)
    with f pn ALIEN_GUP show ?thesis by (simp add: xrp_alien_mapping_destroy_def)
  next
    case ALIEN_COPY
    have "0 < rc (am_allocation am) + count_list (alien_refs am) (am_allocation am)" by (simp add: ALIEN_COPY)
    then obtain p al where "k_put (snd r) (am_allocation am) = Some ((snd r)\<lparr>k_pool := p, k_allocs := al\<rparr>)"
        "refs_ok ((snd r)\<lparr>k_pool := p, k_allocs := al\<rparr>) ((\<lambda>i. rc i + count_list (alien_refs am) i)
           (am_allocation am := rc (am_allocation am) + count_list (alien_refs am) (am_allocation am) - 1))"
      by (rule k_put_ok [OF f(1)])
    moreover have "(\<lambda>i. rc i + count_list (alien_refs am) i)
        (am_allocation am := rc (am_allocation am) + count_list (alien_refs am) (am_allocation am) - 1) = rc"
      by (auto simp: fun_eq_iff ALIEN_COPY)
    ultimately show ?thesis using f pn ALIEN_COPY by (simp add: xrp_alien_mapping_destroy_def)
  qed (use f pn in \<open>simp add: xrp_alien_mapping_destroy_def\<close>)
  then show ?thesis using run that unfolding rc_def by (auto simp: kinv_def)
qed

lemma unshare_ok:
  assumes "kinv st rf pf (m # ms)"
  obtains e st' where "xrp_unshare_block env st m flags = Some (e, Map_none, st')" "kinv st' rf pf ms"
    "k_known st' = k_known st"
proof (cases m)
  case (Map_native i)
  define rc where "rc = (\<lambda>i. rf i + (\<Sum>m\<leftarrow>ms. count_list (map_refs m) i))"
  have r: "refs_ok st (rc(i := rc i + 1))"
  proof -
    have "(\<lambda>j. rf j + (\<Sum>m\<leftarrow>m # ms. count_list (map_refs m) j)) = rc(i := rc i + 1)"
      by (auto simp: fun_eq_iff rc_def Map_native)
    with assms show ?thesis by (simp add: kinv_def)
  qed
  obtain p al where "k_put st i = Some (st\<lparr>k_pool := p, k_allocs := al\<rparr>)" "refs_ok (st\<lparr>k_pool := p, k_allocs := al\<rparr>) rc"
    by (rule k_put_ok [OF r, of i]) (auto simp: fun_upd_idem)
  with assms show ?thesis
    by (intro that [of None "st\<lparr>k_pool := p, k_allocs := al\<rparr>"])
      (simp_all add: xrp_unshare_block_def Map_native kinv_def rc_def)
next
  case (Map_alien am)
  show ?thesis by (rule unshare_alien_ok [OF assms, of am env flags]) (use that in \<open>auto simp: xrp_unshare_block_def Map_alien\<close>)
next
  case (Map_kernel_alien am)
  show ?thesis by (rule unshare_alien_ok [OF assms, of am env flags]) (use that in \<open>auto simp: xrp_unshare_block_def Map_kernel_alien\<close>)
qed (use assms in \<open>auto intro: that simp: xrp_unshare_block_def kinv_def\<close>)

end
