(* ===== verification/XRP_Firmware.thy ===== *)
theory XRP_Firmware
  imports XRP_Address_Map XRP_Comm "HOL-Library.Monad_Syntax"
begin

text \<open>
  The firmware loader of the driver, \<^verbatim>\<open>xrp-kernel/xrp_firmware.c\<close>: it checks an Xtensa ELF image, stores the
  address of the communication area in the image's variable \<open>xrp_dsp_comm_base\<close> and copies the loadable
  segments into memory.

  The image is the list of its bytes (little endian, as the host).  A read or write outside of it is \<open>None\<close>,
  as is a loop that does not end within its fuel.  \<open>of_translate_address\<close>, \<open>pfn_valid\<close> and the outcome of
  \<open>kmap\<close>, \<open>ioremap\<close> and \<open>request_firmware\<close> are parameters.

  Shown: the fixup keeps to the image; valid segments arrive in device memory, and in system memory if they
  fit into one page; a segment that crosses a page boundary does not arrive in system memory.
\<close>

subsection \<open>ELF structures\<close>

definition fw_bytes :: "u8 list \<Rightarrow> nat \<Rightarrow> nat \<Rightarrow> u8 list option" where
  "fw_bytes fw off n = (if off + n \<le> length fw then Some (take n (drop off fw)) else None)"

definition fw8 :: "u8 list \<Rightarrow> nat \<Rightarrow> u32 option" where
  "fw8 fw off = map_option of_bytes32 (fw_bytes fw off 1)"

definition fw16 :: "u8 list \<Rightarrow> nat \<Rightarrow> u32 option" where
  "fw16 fw off = map_option of_bytes32 (fw_bytes fw off 2)"

definition fw32 :: "u8 list \<Rightarrow> nat \<Rightarrow> u32 option" where
  "fw32 fw off = map_option of_bytes32 (fw_bytes fw off 4)"

text \<open>The fields the loader reads of the ELF header, a program header, a section header and a symbol.\<close>

record elf_ehdr =
  e_ident :: "u8 list"
  e_type :: u32
  e_machine :: u32
  e_phoff :: u32
  e_shoff :: u32
  e_phentsize :: u32
  e_phnum :: u32
  e_shentsize :: u32
  e_shnum :: u32

record elf_phdr =
  p_type :: u32
  p_offset :: u32
  p_paddr :: u32
  p_filesz :: u32
  p_memsz :: u32
  p_flags :: u32

record elf_shdr =
  sh_type :: u32
  sh_addr :: u32
  sh_offset :: u32
  sh_size :: u32
  sh_entsize :: u32

record elf_sym =
  st_name :: u32
  st_value :: u32
  st_size :: u32
  st_info :: u32
  st_shndx :: u32

definition read_ehdr :: "u8 list \<Rightarrow> elf_ehdr option" where
  "read_ehdr fw = do {
     ident \<leftarrow> fw_bytes fw 0 4; t \<leftarrow> fw16 fw 16; mach \<leftarrow> fw16 fw 18; phoff \<leftarrow> fw32 fw 28; shoff \<leftarrow> fw32 fw 32;
     phentsize \<leftarrow> fw16 fw 42; phnum \<leftarrow> fw16 fw 44; shentsize \<leftarrow> fw16 fw 46; shnum \<leftarrow> fw16 fw 48;
     Some \<lparr>e_ident = ident, e_type = t, e_machine = mach, e_phoff = phoff, e_shoff = shoff,
           e_phentsize = phentsize, e_phnum = phnum, e_shentsize = shentsize, e_shnum = shnum\<rparr>
   }"

definition read_phdr :: "u8 list \<Rightarrow> nat \<Rightarrow> elf_phdr option" where
  "read_phdr fw o' = do {
     t \<leftarrow> fw32 fw o'; off \<leftarrow> fw32 fw (o' + 4); pa \<leftarrow> fw32 fw (o' + 12); fsz \<leftarrow> fw32 fw (o' + 16);
     msz \<leftarrow> fw32 fw (o' + 20); fl \<leftarrow> fw32 fw (o' + 24);
     Some \<lparr>p_type = t, p_offset = off, p_paddr = pa, p_filesz = fsz, p_memsz = msz, p_flags = fl\<rparr>
   }"

definition read_shdr :: "u8 list \<Rightarrow> nat \<Rightarrow> elf_shdr option" where
  "read_shdr fw o' = do {
     t \<leftarrow> fw32 fw (o' + 4); a \<leftarrow> fw32 fw (o' + 12); off \<leftarrow> fw32 fw (o' + 16); sz \<leftarrow> fw32 fw (o' + 20);
     es \<leftarrow> fw32 fw (o' + 36);
     Some \<lparr>sh_type = t, sh_addr = a, sh_offset = off, sh_size = sz, sh_entsize = es\<rparr>
   }"

definition read_sym :: "u8 list \<Rightarrow> nat \<Rightarrow> elf_sym option" where
  "read_sym fw o' = do {
     nm \<leftarrow> fw32 fw o'; v \<leftarrow> fw32 fw (o' + 4); sz \<leftarrow> fw32 fw (o' + 8); info \<leftarrow> fw8 fw (o' + 12); ndx \<leftarrow> fw16 fw (o' + 14);
     Some \<lparr>st_name = nm, st_value = v, st_size = sz, st_info = info, st_shndx = ndx\<rparr>
   }"

definition fw_size :: "u8 list \<Rightarrow> u32" where
  "fw_size fw = of_nat (length fw)"

subsection \<open>Segments\<close>

record load_env =
  le_translate :: "u32 \<Rightarrow> u32"
  le_pfn_valid :: "u32 \<Rightarrow> bool"
  le_kmap_ok :: bool
  le_ioremap_ok :: bool

definition OF_BAD_ADDR :: u32 where
  "OF_BAD_ADDR = 0xffffffff"

definition xrp_translate_to_cpu :: "load_env \<Rightarrow> elf_phdr \<Rightarrow> u32" where
  "xrp_translate_to_cpu le phdr = le_translate le (p_paddr phdr)"

text \<open>The two halves of the body of the loop: the part that is in the file, and the rest.\<close>

definition copy_part :: "u8 list \<Rightarrow> elf_phdr \<Rightarrow> mem \<Rightarrow> u32 \<Rightarrow> u32 \<Rightarrow> u32 \<Rightarrow> u32 \<Rightarrow> (mem \<times> u32 \<times> u32 \<times> u32) option" where
  "copy_part fw phdr m page page_offs offs sz =
     (if offs < p_filesz phdr then
        let copy_sz = (if p_filesz phdr - offs < sz then p_filesz phdr - offs else sz);
            copy_sz = ALIGN copy_sz 4
        in do {
          bs \<leftarrow> fw_bytes fw (unat (p_offset phdr + offs)) (unat copy_sz);
          Some (write_bytes m (page + page_offs) bs, page_offs + copy_sz, offs + copy_sz, sz - copy_sz)
        }
      else Some (m, page_offs, offs, sz))"

definition clear_part :: "elf_phdr \<Rightarrow> mem \<Rightarrow> u32 \<Rightarrow> u32 \<Rightarrow> u32 \<Rightarrow> u32 \<Rightarrow> mem \<times> u32 \<times> u32" where
  "clear_part phdr m page page_offs offs sz =
     (if offs < p_memsz phdr \<and> sz \<noteq> 0 then
        let sz = (if p_memsz phdr - offs < sz then p_memsz phdr - offs else sz);
            sz = ALIGN sz 4
        in (write_bytes m (page + page_offs) (replicate (unat sz) 0), page_offs + sz, offs + sz)
      else (m, page_offs, offs))"

text \<open>\<open>page\<close> is the physical address of the page that is mapped.\<close>

fun sysmem_loop :: "load_env \<Rightarrow> u8 list \<Rightarrow> elf_phdr \<Rightarrow> nat \<Rightarrow> mem \<Rightarrow> u32 \<Rightarrow> u32 \<Rightarrow> u32 \<Rightarrow> (errno option \<times> mem) option" where
  "sysmem_loop le fw phdr 0 m page page_offs offs = None"
| "sysmem_loop le fw phdr (Suc fuel) m page page_offs offs =
     (if offs < p_memsz phdr then
        let sz = PAGE_SIZE - page_offs in
        if \<not> le_kmap_ok le then Some (Some ENOMEM, m)
        else
          let page_offs = page_offs AND 0xfff in do {
            (m, page_offs, offs, sz) \<leftarrow> copy_part fw phdr m page page_offs offs sz;
            (case clear_part phdr m page page_offs offs sz of
               (m, page_offs, offs) \<Rightarrow> sysmem_loop le fw phdr fuel m (page + PAGE_SIZE) page_offs offs)
          }
      else Some (None, m))"

definition xrp_load_segment_to_sysmem ::
  "load_env \<Rightarrow> u8 list \<Rightarrow> nat \<Rightarrow> elf_phdr \<Rightarrow> mem \<Rightarrow> (errno option \<times> mem) option" where
  "xrp_load_segment_to_sysmem le fw fuel phdr m =
     (let pa = xrp_translate_to_cpu le phdr in sysmem_loop le fw phdr fuel m (pa AND - PAGE_SIZE) (pa AND 0xfff) 0)"

definition xrp_load_segment_to_iomem :: "load_env \<Rightarrow> u8 list \<Rightarrow> elf_phdr \<Rightarrow> mem \<Rightarrow> (errno option \<times> mem) option" where
  "xrp_load_segment_to_iomem le fw phdr m =
     (let pa = xrp_translate_to_cpu le phdr in
      if \<not> le_ioremap_ok le then Some (Some EINVAL, m)
      else do {
        bs \<leftarrow> fw_bytes fw (unat (p_offset phdr)) (unat (ALIGN (p_filesz phdr) 4));
        Some (None, write_bytes (write_bytes m pa bs) (pa + ALIGN (p_filesz phdr) 4)
                (replicate (unat (ALIGN (p_memsz phdr - ALIGN (p_filesz phdr) 4) 4)) 0))
      })"

subsection \<open>Symbols\<close>

definition xrp_section_bad :: "u8 list \<Rightarrow> elf_shdr \<Rightarrow> bool" where
  "xrp_section_bad fw shdr \<longleftrightarrow>
     fw_size fw < sh_offset shdr \<or> fw_size fw - sh_offset shdr < sh_size shdr"

definition SHT_SYMTAB :: u32 where "SHT_SYMTAB = 2"

definition SHT_STRTAB :: u32 where "SHT_STRTAB = 3"

definition STT_OBJECT :: u32 where "STT_OBJECT = 1"

text \<open>The last section of either type.\<close>

fun find_sections ::
  "u8 list \<Rightarrow> elf_ehdr \<Rightarrow> nat list \<Rightarrow> elf_shdr option \<times> elf_shdr option \<Rightarrow> (elf_shdr option \<times> elf_shdr option) option" where
  "find_sections fw ehdr [] acc = Some acc"
| "find_sections fw ehdr (i # is) (symtab, strtab) = do {
     shdr \<leftarrow> read_shdr fw (unat (e_shoff ehdr) + i * unat (e_shentsize ehdr));
     find_sections fw ehdr is
       (if sh_type shdr = SHT_SYMTAB then (Some shdr, strtab)
        else if sh_type shdr = SHT_STRTAB then (symtab, Some shdr)
        else (symtab, strtab))
   }"

text \<open>\<open>strncmp(str, name, n) == 0\<close> for the string at an offset of the image.\<close>

fun strncmp_eq :: "u8 list \<Rightarrow> nat \<Rightarrow> u8 list \<Rightarrow> nat \<Rightarrow> bool option" where
  "strncmp_eq fw off name 0 = Some True"
| "strncmp_eq fw off name (Suc n) =
     (if length fw \<le> off then None
      else case name of
             [] \<Rightarrow> Some (fw ! off = 0)
           | c # cs \<Rightarrow> if fw ! off \<noteq> c then Some False else if c = 0 then Some True else strncmp_eq fw (off + 1) cs n)"

text \<open>What is done with the symbol of the right name: its place in the image and its size.\<close>

definition symbol_place :: "u8 list \<Rightarrow> elf_ehdr \<Rightarrow> elf_sym \<Rightarrow> (errno + u32 \<times> u32) option" where
  "symbol_place fw ehdr esym =
     (if 0 < st_shndx esym \<and> st_shndx esym < e_shnum ehdr then do {
        shdr \<leftarrow> read_shdr fw (unat (e_shoff ehdr) + unat (st_shndx esym) * unat (e_shentsize ehdr));
        let in_section_off = st_value esym - sh_addr shdr;
        Some (if xrp_section_bad fw shdr then Inl EINVAL
              else if st_value esym < sh_addr shdr \<or> sh_size shdr < in_section_off \<or>
                      sh_size shdr - in_section_off < st_size esym then Inl EINVAL
              else Inr (sh_offset shdr + in_section_off, st_size esym))
      } else Some (Inl EINVAL))"

fun symbol_loop ::
  "u8 list \<Rightarrow> elf_ehdr \<Rightarrow> elf_shdr \<Rightarrow> elf_shdr \<Rightarrow> u8 list \<Rightarrow> nat \<Rightarrow> u32 \<Rightarrow> (errno + u32 \<times> u32) option" where
  "symbol_loop fw ehdr symtab strtab name 0 i = None"
| "symbol_loop fw ehdr symtab strtab name (Suc fuel) i =
     (if i < sh_size symtab then do {
        esym \<leftarrow> read_sym fw (unat (sh_offset symtab) + unat i);
        same \<leftarrow> (if st_info esym AND 0xf = STT_OBJECT \<and> st_name esym < sh_size strtab
                 then strncmp_eq fw (unat (sh_offset strtab) + unat (st_name esym)) name
                        (unat (sh_size strtab - st_name esym))
                 else Some False);
        if same then symbol_place fw ehdr esym
        else symbol_loop fw ehdr symtab strtab name fuel (i + sh_entsize symtab)
      } else Some (Inl ENOENT))"

definition xrp_firmware_find_symbol :: "u8 list \<Rightarrow> u8 list \<Rightarrow> nat \<Rightarrow> (errno + u32 \<times> u32) option" where
  "xrp_firmware_find_symbol fw name fuel = do {
     ehdr \<leftarrow> read_ehdr fw;
     if e_shoff ehdr = 0 then Some (Inl ENOENT)
     else if fw_size fw < e_shoff ehdr \<or> fw_size fw - e_shoff ehdr < e_shnum ehdr * e_shentsize ehdr
     then Some (Inl EINVAL)
     else do {
       tabs \<leftarrow> find_sections fw ehdr [0..<unat (e_shnum ehdr)] (None, None);
       (case tabs of
          (Some symtab, Some strtab) \<Rightarrow>
            if xrp_section_bad fw symtab then Some (Inl EINVAL)
            else if xrp_section_bad fw strtab then Some (Inl EINVAL)
            else symbol_loop fw ehdr symtab strtab name fuel 0
        | _ \<Rightarrow> Some (Inl ENOENT))
     }
   }"

text \<open>Storing a word in the image.\<close>

definition fw_store :: "u8 list \<Rightarrow> nat \<Rightarrow> u8 list \<Rightarrow> u8 list option" where
  "fw_store fw off bs =
     (if off + length bs \<le> length fw then Some (take off fw @ bs @ drop (off + length bs) fw) else None)"

definition xrp_firmware_fixup_symbol :: "u8 list \<Rightarrow> u8 list \<Rightarrow> nat \<Rightarrow> u32 \<Rightarrow> (errno option \<times> u8 list) option" where
  "xrp_firmware_fixup_symbol fw name fuel v = do {
     r \<leftarrow> xrp_firmware_find_symbol fw name fuel;
     (case r of
        Inl e \<Rightarrow> Some (Some e, fw)
      | Inr (addr, sz) \<Rightarrow>
          if sz \<noteq> 4 then Some (Some EINVAL, fw)
          else do { fw \<leftarrow> fw_store fw (unat addr) (bytes_of32 v); Some (None, fw) })
   }"

subsection \<open>Loading\<close>

definition ELFMAG :: "u8 list" where "ELFMAG = [0x7f, 0x45, 0x4c, 0x46]"

definition ET_EXEC :: u32 where "ET_EXEC = 2"

definition EM_XTENSA :: u32 where "EM_XTENSA = 94"

definition PT_LOAD :: u32 where "PT_LOAD = 1"

text \<open>Is the segment one to load (\<open>PF_X | PF_R | PF_W\<close> is 7), and is its entry valid?\<close>

definition loadable :: "elf_phdr \<Rightarrow> bool" where
  "loadable phdr \<longleftrightarrow> p_type phdr = PT_LOAD \<and> p_flags phdr AND 7 \<noteq> 0 \<and> 0 < p_memsz phdr"

definition phdr_bad :: "u8 list \<Rightarrow> elf_phdr \<Rightarrow> bool" where
  "phdr_bad fw phdr \<longleftrightarrow> fw_size fw \<le> p_offset phdr \<or> fw_size fw < p_offset phdr + p_filesz phdr"

fun load_segments :: "load_env \<Rightarrow> u8 list \<Rightarrow> nat \<Rightarrow> elf_ehdr \<Rightarrow> nat list \<Rightarrow> mem \<Rightarrow> (errno option \<times> mem) option" where
  "load_segments le fw fuel ehdr [] m = Some (None, m)"
| "load_segments le fw fuel ehdr (i # is) m = do {
     phdr \<leftarrow> read_phdr fw (unat (e_phoff ehdr) + i * unat (e_phentsize ehdr));
     if \<not> loadable phdr then load_segments le fw fuel ehdr is m
     else if phdr_bad fw phdr then Some (Some EINVAL, m)
     else
       let pa = xrp_translate_to_cpu le phdr in
       if pa = OF_BAD_ADDR then Some (Some EINVAL, m)
       else do {
         r \<leftarrow> (if le_pfn_valid le (drop_bit 12 pa) then xrp_load_segment_to_sysmem le fw fuel phdr m
               else xrp_load_segment_to_iomem le fw phdr m);
         (case r of
            (Some e, m) \<Rightarrow> Some (Some e, m)
          | (None, m) \<Rightarrow> load_segments le fw fuel ehdr is m)
       }
   }"

definition ehdr_bad :: "u8 list \<Rightarrow> elf_ehdr \<Rightarrow> bool" where
  "ehdr_bad fw ehdr \<longleftrightarrow>
     e_ident ehdr \<noteq> ELFMAG \<or> e_type ehdr \<noteq> ET_EXEC \<or> e_machine ehdr \<noteq> EM_XTENSA \<or>
     fw_size fw \<le> e_phoff ehdr \<or> fw_size fw < e_phoff ehdr + e_phentsize ehdr * e_phnum ehdr"

text \<open>
  \<open>comm_base\<close> is the address of the communication area as the DSP sees it, \<open>name\<close> the bytes of
  \<open>xrp_dsp_comm_base\<close>.  The outcome of the fixup is ignored.
\<close>

definition xrp_load_firmware ::
  "load_env \<Rightarrow> nat \<Rightarrow> xrp_address_map \<Rightarrow> u32 \<Rightarrow> u8 list \<Rightarrow> u8 list \<Rightarrow> mem \<Rightarrow> (errno option \<times> mem) option" where
  "xrp_load_firmware le fuel amap comm_phys name fw m = do {
     ehdr \<leftarrow> read_ehdr fw;
     if ehdr_bad fw ehdr then Some (Some EINVAL, m)
     else do {
       (rc, fw) \<leftarrow> xrp_firmware_fixup_symbol fw name fuel (xrp_translate_to_dsp amap comm_phys);
       load_segments le fw fuel ehdr [0..<unat (e_phnum ehdr)] m
     }
   }"

text \<open>\<open>request_firmware\<close> yields the image or an error; the image is released again on failure.\<close>

definition xrp_request_firmware ::
  "load_env \<Rightarrow> nat \<Rightarrow> xrp_address_map \<Rightarrow> u32 \<Rightarrow> u8 list \<Rightarrow> errno + u8 list \<Rightarrow> mem \<Rightarrow> (errno option \<times> mem) option" where
  "xrp_request_firmware le fuel amap comm_phys name img m =
     (case img of
        Inl e \<Rightarrow> Some (Some e, m)
      | Inr fw \<Rightarrow> xrp_load_firmware le fuel amap comm_phys name fw m)"

subsection \<open>Lemmas\<close>

lemma ALIGN4:
  assumes "unat v + 4 \<le> 2 ^ 32"
  shows "unat (ALIGN v 4) = round_up 4 (unat v)"
proof -
  have "pow2 (2 ^ 2)" by (rule pow2I) simp
  then show ?thesis using ALIGN_no_wrap [of 4 v] assms by simp
qed

lemma ALIGN4_id:
  assumes "4 dvd unat v"
  shows "ALIGN v 4 = v"
proof -
  obtain q where q: "unat v = 4 * q" using assms by (rule dvdE)
  then have "q < 1073741824" using unat_lt32 [of v] by linarith
  then have "unat (ALIGN v 4) = unat v" using q assms by (subst ALIGN4) (simp_all add: round_up_id)
  then show ?thesis by (simp only: word_unat_eq_iff)
qed

lemma fw_bytes_length: "fw_bytes fw off n = Some bs \<Longrightarrow> length bs = n \<and> off + n \<le> length fw"
  by (auto simp: fw_bytes_def split: if_splits)

text \<open>A symbol that is found lies in the image.\<close>

lemma symbol_place_in_image:
  assumes "symbol_place fw ehdr esym = Some (Inr (addr, sz))" and "length fw < 2 ^ 32"
  shows "unat addr + unat sz \<le> length fw"
proof -
  obtain shdr where good: "\<not> xrp_section_bad fw shdr" and a: "addr = sh_offset shdr + (st_value esym - sh_addr shdr)"
      and s: "st_value esym - sh_addr shdr \<le> sh_size shdr" "sz \<le> sh_size shdr - (st_value esym - sh_addr shdr)"
    using assms(1) by (auto simp: symbol_place_def Let_def not_less split: if_splits bind_splits)
  have n: "unat (fw_size fw) = length fw" using assms(2) by (simp add: fw_size_def unat_of_nat)
  have o': "unat (sh_offset shdr) + unat (sh_size shdr) \<le> length fw"
    using good n by (auto simp: xrp_section_bad_def not_less word_le_nat_alt unat_sub)
  let ?i = "st_value esym - sh_addr shdr"
  have i: "unat ?i \<le> unat (sh_size shdr)" "unat sz \<le> unat (sh_size shdr) - unat ?i"
    using s by (simp_all add: word_le_nat_alt unat_sub)
  then have "unat (sh_offset shdr + ?i) = unat (sh_offset shdr) + unat ?i"
    using o' assms(2) by (intro unat_add_le) linarith
  then show ?thesis using o' i unfolding a by linarith
qed

lemma symbol_loop_in_image:
  "symbol_loop fw ehdr symtab strtab name fuel i = Some (Inr (addr, sz)) \<Longrightarrow> length fw < 2 ^ 32 \<Longrightarrow>
     unat addr + unat sz \<le> length fw"
proof (induction fuel arbitrary: i)
  case (Suc fuel)
  then show ?case by (auto dest: symbol_place_in_image split: bind_splits if_splits)
qed simp

text \<open>What a segment looks like in memory: the bytes of the file and then zeros.\<close>

definition segment_image :: "u8 list \<Rightarrow> elf_phdr \<Rightarrow> u8 list" where
  "segment_image fw phdr = take (unat (p_filesz phdr)) (drop (unat (p_offset phdr)) fw) @
     replicate (unat (p_memsz phdr) - unat (p_filesz phdr)) 0"

text \<open>The sizes are multiples of four, and the file has the bytes.\<close>

definition segment_ok :: "u8 list \<Rightarrow> elf_phdr \<Rightarrow> bool" where
  "segment_ok fw phdr \<longleftrightarrow> 4 dvd unat (p_filesz phdr) \<and> 4 dvd unat (p_memsz phdr) \<and> p_filesz phdr \<le> p_memsz phdr \<and>
     unat (p_offset phdr) + unat (p_filesz phdr) \<le> length fw"

lemma iomem_result:
  assumes "segment_ok fw phdr" and "le_ioremap_ok le"
  shows "xrp_load_segment_to_iomem le fw phdr m =
    Some (None, write_bytes m (xrp_translate_to_cpu le phdr) (segment_image fw phdr))"
proof -
  have s: "4 dvd unat (p_filesz phdr)" "4 dvd unat (p_memsz phdr)" "unat (p_filesz phdr) \<le> unat (p_memsz phdr)"
      "unat (p_offset phdr) + unat (p_filesz phdr) \<le> length fw"
    using assms(1) by (simp_all add: segment_ok_def word_le_nat_alt)
  have r: "unat (p_memsz phdr - p_filesz phdr) = unat (p_memsz phdr) - unat (p_filesz phdr)"
    using s(3) by (intro unat_sub) (simp add: word_le_nat_alt)
  then have "4 dvd unat (p_memsz phdr - p_filesz phdr)" using s(1,2) by (simp add: dvd_diff_nat)
  then show ?thesis
    using s assms(2)
    by (simp add: xrp_load_segment_to_iomem_def Let_def ALIGN4_id fw_bytes_def segment_image_def write_bytes_append r)
qed

lemma page_parts:
  "unat (pa AND - PAGE_SIZE) = unat pa - unat pa mod 4096" "unat (pa AND 0xfff) = unat pa mod 4096"
  "(pa AND - PAGE_SIZE) + (pa AND 0xfff) = pa"
proof -
  have e: "PAGE_SIZE = 2 ^ 12" "(0xfff :: u32) = mask 12" by (simp_all add: PAGE_SIZE_def mask_eq_exp_minus_1)
  show "unat (pa AND - PAGE_SIZE) = unat pa - unat pa mod 4096" unfolding e unat_and_minus_exp by simp
  show "unat (pa AND 0xfff) = unat pa mod 4096" unfolding e unat_and_mask by simp
  have "- (2 ^ 12) = (NOT (mask 12) :: u32)" by (simp add: mask_eq_exp_minus_1 not_eq_complement)
  then show "(pa AND - PAGE_SIZE) + (pa AND 0xfff) = pa" unfolding e by (simp only: word_split_low [symmetric])
qed

text \<open>One pass of the loop body that takes \<open>n\<close> bytes of the file and clears \<open>z\<close> bytes after them.\<close>

lemma sysmem_step:
  assumes "le_kmap_ok le" and "offs < p_memsz phdr" and "page_offs AND 0xfff = po" and "sz = PAGE_SIZE - page_offs"
    and "offs < p_filesz phdr \<longrightarrow> n = (if p_filesz phdr - offs < sz then p_filesz phdr - offs else sz)"
    and "\<not> offs < p_filesz phdr \<longrightarrow> n = 0" and "4 dvd unat n"
    and "unat (p_offset phdr + offs) + unat n \<le> length fw"
    and "offs + n < p_memsz phdr \<and> sz - n \<noteq> 0 \<longrightarrow>
      z = (if p_memsz phdr - (offs + n) < sz - n then p_memsz phdr - (offs + n) else sz - n)"
    and "\<not> (offs + n < p_memsz phdr \<and> sz - n \<noteq> 0) \<longrightarrow> z = 0" and "4 dvd unat z"
  shows "sysmem_loop le fw phdr (Suc fuel) m page page_offs offs =
    sysmem_loop le fw phdr fuel
      (write_bytes (write_bytes m (page + po) (take (unat n) (drop (unat (p_offset phdr + offs)) fw)))
         (page + (po + n)) (replicate (unat z) 0))
      (page + PAGE_SIZE) (po + n + z) (offs + n + z)"
proof -
  have c: "copy_part fw phdr m page po offs sz =
      Some (write_bytes m (page + po) (take (unat n) (drop (unat (p_offset phdr + offs)) fw)), po + n, offs + n, sz - n)"
    using assms(5-8) by (cases "offs < p_filesz phdr") (simp_all add: copy_part_def Let_def ALIGN4_id fw_bytes_def)
  have z: "clear_part phdr m' page (po + n) (offs + n) (sz - n) =
      (write_bytes m' (page + (po + n)) (replicate (unat z) 0), po + n + z, offs + n + z)" for m'
  proof (cases "offs + n < p_memsz phdr \<and> sz - n \<noteq> 0")
    case True
    then have "(if p_memsz phdr - (offs + n) < sz - n then p_memsz phdr - (offs + n) else sz - n) = z" using assms(9) by simp
    with True show ?thesis by (simp only: clear_part_def Let_def if_True ALIGN4_id [OF assms(11)] simp_thms)
  next
    case False
    with assms(10) have "z = 0" by simp
    with False show ?thesis by (auto simp: clear_part_def)
  qed
  show ?thesis
    using assms(1-3) c [unfolded assms(4)] z [unfolded assms(4)] by (simp add: assms(4))
qed

lemma sysmem_done [simp]: "\<not> offs < p_memsz phdr \<Longrightarrow> sysmem_loop le fw phdr (Suc fuel) m page page_offs offs = Some (None, m)"
  by simp

declare sysmem_loop.simps(2) [simp del]

text \<open>Segments that are loaded into device memory, and a list of segments that do not overlap.\<close>

definition io_segment :: "load_env \<Rightarrow> u8 list \<Rightarrow> elf_phdr \<Rightarrow> bool" where
  "io_segment le fw phdr \<longleftrightarrow> segment_ok fw phdr \<and> \<not> phdr_bad fw phdr \<and> xrp_translate_to_cpu le phdr \<noteq> OF_BAD_ADDR \<and>
     \<not> le_pfn_valid le (drop_bit 12 (xrp_translate_to_cpu le phdr))"

definition seg_apart :: "load_env \<Rightarrow> elf_phdr \<Rightarrow> elf_phdr \<Rightarrow> bool" where
  "seg_apart le p q \<longleftrightarrow> apart (xrp_translate_to_cpu le p) (unat (p_memsz p)) (xrp_translate_to_cpu le q) (unat (p_memsz q))"

definition phdrs :: "u8 list \<Rightarrow> elf_ehdr \<Rightarrow> nat list \<Rightarrow> elf_phdr list option" where
  "phdrs fw ehdr is = those (map (\<lambda>i. read_phdr fw (unat (e_phoff ehdr) + i * unat (e_phentsize ehdr))) is)"

fun place_segments :: "load_env \<Rightarrow> u8 list \<Rightarrow> elf_phdr list \<Rightarrow> mem \<Rightarrow> mem" where
  "place_segments le fw [] m = m"
| "place_segments le fw (p # ps) m =
     place_segments le fw ps (write_bytes m (xrp_translate_to_cpu le p) (segment_image fw p))"

lemma length_segment_image: "segment_ok fw p \<Longrightarrow> length (segment_image fw p) = unat (p_memsz p)"
  by (auto simp: segment_ok_def segment_image_def word_le_nat_alt min_def)

lemma load_segments_place:
  assumes "phdrs fw ehdr is = Some ps" and "\<forall>p\<in>set ps. loadable p \<longrightarrow> io_segment le fw p" and "le_ioremap_ok le"
  shows "load_segments le fw fuel ehdr is m = Some (None, place_segments le fw (filter loadable ps) m)"
  using assms(1,2)
proof (induction "is" arbitrary: ps m)
  case (Cons i "is")
  then obtain p qs where p: "read_phdr fw (unat (e_phoff ehdr) + i * unat (e_phentsize ehdr)) = Some p"
      "phdrs fw ehdr is = Some qs" "ps = p # qs"
    by (auto simp: phdrs_def split: option.splits)
  show ?case
  proof (cases "loadable p")
    case True
    then have io: "io_segment le fw p" using Cons.prems(2) p(3) by simp
    then show ?thesis
      using True p Cons.IH [OF p(2)] Cons.prems(2) iomem_result [of fw p le m] assms(3)
      by (simp add: io_segment_def)
  qed (use p Cons.IH [OF p(2)] Cons.prems(2) in simp)
qed (simp add: phdrs_def)

lemma place_segments_keep:
  assumes "\<forall>p\<in>set ps. segment_ok fw p \<and> seg_apart le p q" and "n = unat (p_memsz q)"
  shows "read_bytes (place_segments le fw ps m) (xrp_translate_to_cpu le q) n = read_bytes m (xrp_translate_to_cpu le q) n"
  using assms(1)
proof (induction ps arbitrary: m)
  case (Cons p ps)
  then show ?case
    using less_imp_le [OF unat_lt32 [of "p_memsz q"]] less_imp_le [OF unat_lt32 [of "p_memsz p"]]
    by (simp add: assms(2) read_write_apart length_segment_image seg_apart_def)
qed simp

lemma place_segments_read:
  assumes "\<forall>p\<in>set ps. segment_ok fw p" and "sorted_wrt (\<lambda>p q. seg_apart le q p) ps" and "q \<in> set ps"
  shows "read_bytes (place_segments le fw ps m) (xrp_translate_to_cpu le q) (unat (p_memsz q)) = segment_image fw q"
  using assms
proof (induction ps arbitrary: m)
  case (Cons p ps)
  show ?case
  proof (cases "q \<in> set ps")
    case False
    then have "q = p" using Cons.prems(3) by simp
    moreover have "\<forall>r\<in>set ps. segment_ok fw r \<and> seg_apart le r p" using Cons.prems(1,2) by simp
    ultimately show ?thesis
      using place_segments_keep [of ps fw le p] Cons.prems(1) less_imp_le [OF unat_lt32 [of "p_memsz p"]]
      by (simp add: read_write_bytes length_segment_image)
  qed (use Cons in simp)
qed simp

lemma fw_store_word:
  assumes "off + 4 \<le> length fw" and "fw_store fw off (bytes_of32 v) = Some fw'"
  shows "length fw' = length fw" "fw32 fw' off = Some v" "i < off \<or> off + 4 \<le> i \<Longrightarrow> i < length fw \<Longrightarrow> fw' ! i = fw ! i"
proof -
  have f: "fw' = take off fw @ bytes_of32 v @ drop (off + 4) fw" using assms by (simp add: fw_store_def)
  then show "length fw' = length fw" using assms(1) by simp
  then show "fw32 fw' off = Some v" using assms(1) by (simp add: fw32_def fw_bytes_def f)
  assume i: "i < off \<or> off + 4 \<le> i" "i < length fw"
  then show "fw' ! i = fw ! i" using assms(1) by (auto simp: f nth_append)
qed

subsection \<open>Properties\<close>

text \<open>
  A segment that fits into one page is loaded in system memory exactly as in device memory: its
  bytes of the file, then zeros up to its size in memory, at the translated address.
\<close>

lemma one_page_segment_loaded:
  assumes "segment_ok fw phdr" and "le_kmap_ok le" and "le_ioremap_ok le" and "0 < p_memsz phdr"
    and "unat (xrp_translate_to_cpu le phdr) mod 4096 + unat (p_memsz phdr) \<le> 4096"
  shows "xrp_load_segment_to_sysmem le fw (Suc (Suc fuel)) phdr m = xrp_load_segment_to_iomem le fw phdr m \<and>
    xrp_load_segment_to_iomem le fw phdr m =
      Some (None, write_bytes m (xrp_translate_to_cpu le phdr) (segment_image fw phdr))"
proof -
  let ?pa = "xrp_translate_to_cpu le phdr" and ?fs = "p_filesz phdr" and ?ms = "p_memsz phdr"
  define po where "po = ?pa AND 0xfff"
  have s: "4 dvd unat ?fs" "4 dvd unat ?ms" "unat ?fs \<le> unat ?ms" "unat (p_offset phdr) + unat ?fs \<le> length fw"
    using assms(1) by (simp_all add: segment_ok_def word_le_nat_alt)
  have po: "unat po = unat ?pa mod 4096" "po AND 0xfff = po" using page_parts(2) by (simp_all add: po_def)
  define sz where "sz = PAGE_SIZE - po"
  have sz: "unat sz = 4096 - unat po"
    unfolding sz_def using po(1) by (subst unat_sub) (simp_all add: word_le_nat_alt)
  have mz: "unat (?ms - ?fs) = unat ?ms - unat ?fs" using s(3) by (intro unat_sub) (simp add: word_le_nat_alt)
  have d: "4 dvd unat (?ms - ?fs)" unfolding mz using s(1,2) by (simp add: dvd_diff_nat)
  have le: "unat ?ms \<le> unat sz" using assms(5) sz po(1) by simp
  then have n: "?fs = (if ?fs < sz then ?fs else sz)"
    using s(3) by (auto simp: word_less_nat_alt word_unat_eq_iff)
  have sf: "unat (sz - ?fs) = unat sz - unat ?fs" using le s(3) by (intro unat_sub) (simp add: word_le_nat_alt)
  have z: "?ms - ?fs = (if ?ms - ?fs < sz - ?fs then ?ms - ?fs else sz - ?fs)"
    using le by (auto simp: word_less_nat_alt word_unat_eq_iff sf mz)
  have z0: "\<not> (0 + ?fs < ?ms \<and> sz - ?fs \<noteq> 0) \<longrightarrow> ?ms - ?fs = 0"
    using le s(3) by (auto simp: word_less_nat_alt word_unat_eq_iff sf mz simp del: right_minus_eq)
  have f0: "\<not> 0 < ?fs \<longrightarrow> ?fs = 0" by (simp add: word_gt_0)
  note step = sysmem_step [OF assms(2,4) po(2) sz_def, of ?fs fw "?ms - ?fs", unfolded diff_zero add_0 add_0_right,
      OF impI [OF n] f0 s(1,4) impI [OF z] z0 [unfolded add_0] d]
  have "xrp_load_segment_to_sysmem le fw (Suc (Suc fuel)) phdr m =
      sysmem_loop le fw phdr (Suc (Suc fuel)) m (?pa AND - PAGE_SIZE) po 0"
    by (simp add: xrp_load_segment_to_sysmem_def po_def Let_def)
  also have "\<dots> = Some (None, write_bytes m ?pa (segment_image fw phdr))"
    unfolding step using page_parts(3) [of ?pa] s(4)
    by (simp add: segment_image_def write_bytes_append mz add.assoc [symmetric] flip: po_def)
  finally show ?thesis using iomem_result [OF assms(1,3)] by simp
qed

text \<open>A loader that maps every address to itself, and an image whose segment of one page starts at \<open>0x100\<close>.\<close>

definition sample_le :: load_env where
  "sample_le = \<lparr>le_translate = \<lambda>a. a, le_pfn_valid = \<lambda>_. True, le_kmap_ok = True, le_ioremap_ok = True\<rparr>"

definition sample_phdr :: "u32 \<Rightarrow> u32 \<Rightarrow> elf_phdr" where
  "sample_phdr fsz msz = \<lparr>p_type = PT_LOAD, p_offset = 0x100, p_paddr = 0x4010, p_filesz = fsz, p_memsz = msz, p_flags = 7\<rparr>"

lemma one_page_segment_loaded_example:
  "xrp_load_segment_to_sysmem sample_le (replicate 0x200 7) (Suc (Suc 0)) (sample_phdr 0x80 0x100) (\<lambda>_. 0xff) =
     Some (None, write_bytes (\<lambda>_. 0xff) 0x4010 (segment_image (replicate 0x200 7) (sample_phdr 0x80 0x100)))"
proof -
  have "segment_ok (replicate 0x200 7) (sample_phdr 0x80 0x100)"
    by (simp add: segment_ok_def sample_phdr_def)
  from one_page_segment_loaded [OF this, of sample_le 0 "\<lambda>_. 0xff"] show ?thesis
    by (simp add: sample_le_def sample_phdr_def xrp_translate_to_cpu_def)
qed

text \<open>
  C39: A segment that crosses a page boundary is not loaded correctly into system memory: behind the
  first page the loop skips one page, which keeps its old contents, and the rest of the segment
  is stored in the page after it.
\<close>

theorem two_page_segment_skips:
  assumes "segment_ok fw phdr" and "p_filesz phdr = p_memsz phdr" and "le_kmap_ok le" and "length fw < 2 ^ 32"
    and "pa = xrp_translate_to_cpu le phdr" and "4 dvd unat pa" and "page = pa AND - PAGE_SIZE"
    and "first = 4096 - unat pa mod 4096"
    and "first < unat (p_filesz phdr)" and "unat (p_filesz phdr) \<le> first + 4096" and "unat page + 0x3000 \<le> 2 ^ 32"
  shows "\<exists>m'. xrp_load_segment_to_sysmem le fw (Suc (Suc (Suc (Suc fuel)))) phdr m = Some (None, m') \<and>
    (\<forall>x. unat page + 0x1000 \<le> unat x \<and> unat x < unat page + 0x2000 \<longrightarrow> m' x = m x) \<and>
    read_bytes m' (page + 0x2000) (unat (p_filesz phdr) - first) = drop first (segment_image fw phdr)"
proof -
  let ?fs = "p_filesz phdr"
  define po where "po = pa AND 0xfff"
  define s0 where "s0 = PAGE_SIZE - po"
  have po: "unat po = unat pa mod 4096" "po AND 0xfff = po" using page_parts(2) by (simp_all add: po_def)
  have "unat s0 = 4096 - unat po" unfolding s0_def using po(1) by (subst unat_sub) (simp_all add: word_le_nat_alt)
  then have s0: "unat s0 = first" using po(1) assms(8) by simp
  have ps: "po + s0 = PAGE_SIZE" by (simp add: s0_def)
  have f4: "4 dvd first" using assms(6,8) by (simp add: dvd_diff_nat dvd_mod)
  have rest: "unat (?fs - s0) = unat ?fs - first" using assms(9) s0 by (subst unat_sub) (simp_all add: word_le_nat_alt)
  have s: "4 dvd unat ?fs" "unat (p_offset phdr) + unat ?fs \<le> length fw" using assms(1) by (simp_all add: segment_ok_def)
  have off: "unat (p_offset phdr + s0) = unat (p_offset phdr) + first"
    using s(2) s0 assms(4,9) by (subst unat_add_le) simp_all
  let ?m1 = "write_bytes m (page + po) (take first (drop (unat (p_offset phdr)) fw))"
  let ?m3 = "write_bytes ?m1 (page + PAGE_SIZE + PAGE_SIZE) (take (unat ?fs - first) (drop (unat (p_offset phdr) + first) fw))"
  have lt: "s0 < ?fs" "0 < ?fs" using assms(9) s0 by (auto simp: word_less_nat_alt)
  have 1: "sysmem_loop le fw phdr (Suc (Suc (Suc (Suc fuel)))) m page po 0 =
      sysmem_loop le fw phdr (Suc (Suc (Suc fuel))) ?m1 (page + PAGE_SIZE) PAGE_SIZE s0"
    using lt assms(2,3) f4 s assms(9)
    by (subst sysmem_step [where po = po and sz = s0 and n = s0 and z = 0])
      (simp_all add: po(2) s0_def [symmetric] s0 ps, auto)
  have 2: "sysmem_loop le fw phdr (Suc (Suc (Suc fuel))) ?m1 (page + PAGE_SIZE) PAGE_SIZE s0 =
      sysmem_loop le fw phdr (Suc (Suc fuel)) ?m1 (page + PAGE_SIZE + PAGE_SIZE) 0 s0"
    using lt assms(2,3) off s assms(9)
    by (subst sysmem_step [where po = 0 and sz = 0 and n = 0 and z = 0]) (simp_all add: PAGE_SIZE_def)
  have 3: "sysmem_loop le fw phdr (Suc (Suc fuel)) ?m1 (page + PAGE_SIZE + PAGE_SIZE) 0 s0 = Some (None, ?m3)"
    using lt assms(2,3) off s assms(9,10) rest f4 s0
    by (subst sysmem_step [where po = 0 and sz = PAGE_SIZE and n = "?fs - s0" and z = 0])
      (auto simp: dvd_diff_nat word_less_nat_alt word_unat_eq_iff)
  have p2: "unat (page + 0x2000) = unat page + 0x2000" "page + PAGE_SIZE + PAGE_SIZE = page + 0x2000"
    using assms(11) by (subst unat_add_le) (simp_all add: PAGE_SIZE_def)
  have pa: "page + po = pa" "unat page + unat po = unat pa"
    using page_parts [of pa] po(1) by (simp_all add: assms(7) po_def)
  have len: "length (take first (drop (unat (p_offset phdr)) fw)) = first"
      "length (take (unat ?fs - first) (drop (unat (p_offset phdr) + first) fw)) = unat ?fs - first"
    using s(2) assms(9) by simp_all
  have "?m3 x = m x" if x: "unat page + 0x1000 \<le> unat x" "unat x < unat page + 0x2000" for x
  proof -
    have "unat (x - pa) = unat x - unat pa" using x(1) pa(2) po(1) by (intro unat_sub) (simp add: word_le_nat_alt)
    then have "first \<le> unat (x - pa)" using x(1) pa(2) po(1) assms(8) by simp
    moreover have "unat (x - (page + 0x2000)) = 2 ^ 32 + unat x - (unat page + 0x2000)"
      using x(2) p2(1) by (simp add: unat_sub_if')
    then have "unat ?fs - first \<le> unat (x - (page + 0x2000))" using x assms(10,11) by simp
    moreover have "first \<le> 2 ^ 32" "unat ?fs - first \<le> 2 ^ 32" using assms(8,10) by simp_all
    ultimately show ?thesis
      unfolding pa p2 by (simp only: write_bytes_apply len) (simp only: not_le [symmetric] simp_thms if_False)
  qed
  moreover have "read_bytes ?m3 (page + 0x2000) (unat ?fs - first) = drop first (segment_image fw phdr)"
    unfolding p2 using len assms(2,10)
    by (subst read_write_bytes) (simp_all add: segment_image_def drop_take add.commute)
  ultimately show ?thesis
    using 1 2 3 by (simp add: xrp_load_segment_to_sysmem_def Let_def assms(5,7) po_def)
qed

theorem two_page_segment_skips_witness:
  "\<exists>m'. xrp_load_segment_to_sysmem sample_le (replicate 0x2000 7) (Suc (Suc (Suc (Suc 0)))) (sample_phdr 0x1000 0x1000) (\<lambda>_. 0xff) =
       Some (None, m') \<and> m' 0x5000 = 0xff"
proof -
  have ok: "segment_ok (replicate 0x2000 7) (sample_phdr 0x1000 0x1000)"
    by (simp add: segment_ok_def sample_phdr_def)
  have "xrp_translate_to_cpu sample_le (sample_phdr 0x1000 0x1000) = 0x4010"
    by (simp add: sample_le_def sample_phdr_def xrp_translate_to_cpu_def)
  note t = this
  have "unat (0x4010 :: u32) mod 4096 = 16" by simp
  then have "\<exists>m'. xrp_load_segment_to_sysmem sample_le (replicate 0x2000 7) (Suc (Suc (Suc (Suc 0)))) (sample_phdr 0x1000 0x1000)
      (\<lambda>_. 0xff) = Some (None, m') \<and>
    (\<forall>x. unat (0x4000 :: u32) + 0x1000 \<le> unat x \<and> unat x < unat (0x4000 :: u32) + 0x2000 \<longrightarrow> m' x = 0xff) \<and>
    read_bytes m' (0x4000 + 0x2000) (unat (p_filesz (sample_phdr 0x1000 0x1000)) - 0xff0) =
      drop 0xff0 (segment_image (replicate 0x2000 7) (sample_phdr 0x1000 0x1000))"
    by (intro two_page_segment_skips [OF ok, where pa = "0x4010"])
      (simp_all add: t PAGE_SIZE_def, simp_all add: sample_le_def sample_phdr_def)
  then obtain m' where m': "xrp_load_segment_to_sysmem sample_le (replicate 0x2000 7) (Suc (Suc (Suc (Suc 0)))) (sample_phdr 0x1000 0x1000)
      (\<lambda>_. 0xff) = Some (None, m')" "\<forall>x. unat (0x4000 :: u32) + 0x1000 \<le> unat x \<and> unat x < unat (0x4000 :: u32) + 0x2000 \<longrightarrow> m' x = 0xff"
    by blast
  from m'(2) have "m' 0x5000 = 0xff" by (elim allE [of _ "0x5000"]) simp
  with m'(1) show ?thesis by blast
qed

text \<open>
  C32: Storing the address of the communication area keeps to the image: whatever the image contains, a fixup that
  succeeds changes exactly one aligned or unaligned word of it to the given value, a fixup that fails
  changes nothing, and once the symbol search has come to a result the fixup does, too.
\<close>

theorem fixup_keeps_to_image:
  assumes "length fw < 2 ^ 32" and "xrp_firmware_find_symbol fw name fuel = Some r"
  shows "\<exists>res fw'. xrp_firmware_fixup_symbol fw name fuel v = Some (res, fw') \<and> length fw' = length fw \<and>
    (res \<noteq> None \<longrightarrow> fw' = fw) \<and>
    (res = None \<longrightarrow> (\<exists>off. off + 4 \<le> length fw \<and> fw32 fw' off = Some v \<and>
       (\<forall>i<length fw. i < off \<or> off + 4 \<le> i \<longrightarrow> fw' ! i = fw ! i)))"
proof (cases "\<exists>addr. r = Inr (addr, 4)")
  case False
  then show ?thesis using assms(2) by (auto simp: xrp_firmware_fixup_symbol_def split: sum.splits)
next
  case True
  then obtain addr where r: "r = Inr (addr, 4)" by blast
  have "unat addr + unat (4 :: u32) \<le> length fw"
    using assms r symbol_loop_in_image
    by (force simp: xrp_firmware_find_symbol_def split: bind_splits if_splits option.splits prod.splits)
  then have in': "unat addr + 4 \<le> length fw" by simp
  then obtain fw' where fw': "fw_store fw (unat addr) (bytes_of32 v) = Some fw'" by (simp add: fw_store_def)
  have "xrp_firmware_fixup_symbol fw name fuel v = Some (None, fw')"
    using assms(2) r fw' by (simp add: xrp_firmware_fixup_symbol_def)
  with in' fw_store_word [OF in' fw'] show ?thesis by (intro exI [of _ None] exI [of _ fw'] conjI) auto
qed

text \<open>
  An image without segments, with a variable of four bytes at the address \<open>0x1000\<close> whose name is the single
  letter \<open>a\<close>.
\<close>

definition sample_image :: "u8 list" where
  "sample_image = [
    127, 69, 76, 70, 0, 0, 0, 0, 0, 0, 0, 0, 0, 0, 0, 0, 2, 0, 94, 0, 0, 0, 0, 0, 0, 0, 0, 0, 52, 0, 0, 0, 52,
    0, 0, 0, 0, 0, 0, 0, 0, 0, 32, 0, 0, 0, 40, 0, 4, 0, 0, 0, 0, 0, 0, 0, 0, 0, 0, 0, 0, 0, 0, 0, 0, 0, 0, 0,
    0, 0, 0, 0, 0, 0, 0, 0, 0, 0, 0, 0, 0, 0, 0, 0, 0, 0, 0, 0, 0, 0, 0, 0, 0, 0, 0, 0, 1, 0, 0, 0, 0, 0, 0,
    0, 0, 16, 0, 0, 212, 0, 0, 0, 4, 0, 0, 0, 0, 0, 0, 0, 0, 0, 0, 0, 0, 0, 0, 0, 0, 0, 0, 0, 0, 0, 0, 0, 2,
    0, 0, 0, 0, 0, 0, 0, 0, 0, 0, 0, 216, 0, 0, 0, 16, 0, 0, 0, 0, 0, 0, 0, 0, 0, 0, 0, 0, 0, 0, 0, 16, 0, 0,
    0, 0, 0, 0, 0, 3, 0, 0, 0, 0, 0, 0, 0, 0, 0, 0, 0, 232, 0, 0, 0, 2, 0, 0, 0, 0, 0, 0, 0, 0, 0, 0, 0, 0, 0,
    0, 0, 0, 0, 0, 0, 32, 18, 165, 32, 0, 0, 0, 0, 0, 16, 0, 0, 4, 0, 0, 0, 1, 0, 1, 0, 97, 0
  ]"

lemma sample_find_symbol: "xrp_firmware_find_symbol sample_image [97] (Suc 0) = Some (Inr (212, 4))"
  by code_simp

theorem fixup_keeps_to_image_witness:
  "\<exists>fw' off. xrp_firmware_fixup_symbol sample_image [97] (Suc 0) 0xf0000000 = Some (None, fw') \<and>
     length fw' = length sample_image \<and> fw32 fw' off = Some 0xf0000000"
proof -
  have "length sample_image < 2 ^ 32" by (simp add: sample_image_def)
  from fixup_keeps_to_image [OF this sample_find_symbol, of "0xf0000000"] show ?thesis
    by (auto simp: xrp_firmware_fixup_symbol_def sample_find_symbol split: bind_splits)
qed



text \<open>A program header at the start of the image, and its eight bytes of data.\<close>

definition sample_segment :: "u8 list" where
  "sample_segment = [1, 0, 0, 0, 32, 0, 0, 0, 0, 0, 0, 0, 0, 64, 0, 0, 8, 0, 0, 0, 12, 0, 0, 0, 7, 0, 0, 0, 0, 0, 0, 0, 1, 2, 3, 4, 5, 6, 7, 8]"

definition sample_ehdr :: elf_ehdr where
  "sample_ehdr = \<lparr>e_ident = ELFMAG, e_type = ET_EXEC, e_machine = EM_XTENSA, e_phoff = 0, e_shoff = 0,
     e_phentsize = 32, e_phnum = 1, e_shentsize = 0, e_shnum = 0\<rparr>"


text \<open>
  The test of a segment's entry wraps around: an entry with an offset and a size whose sum exceeds \<open>2 ^ 32\<close>
  is accepted although the image does not have the bytes, and loading it reads behind the image.
\<close>

lemma phdr_check_wraps:
  assumes "length fw < 2 ^ 32" and "p_offset phdr < fw_size fw" and "2 ^ 32 \<le> unat (p_offset phdr) + unat (p_filesz phdr)"
    and "p_offset phdr + p_filesz phdr \<le> fw_size fw" and "4 dvd unat (p_filesz phdr)" and "le_ioremap_ok le"
  shows "\<not> phdr_bad fw phdr \<and> xrp_load_segment_to_iomem le fw phdr m = None"
proof -
  have "\<not> unat (p_offset phdr) + unat (p_filesz phdr) \<le> length fw" using assms(1,3) by linarith
  then show ?thesis
    using assms(2,4,5,6)
    by (auto simp: phdr_bad_def xrp_load_segment_to_iomem_def Let_def ALIGN4_id fw_bytes_def not_le not_less)
qed

end
