(* ===== verification/XRP_Kernel_Boot.thy ===== *)
theory XRP_Kernel_Boot
  imports XRP_Pool XRP_Firmware
begin

text \<open>
  Power management and life cycle of the device in \<^verbatim>\<open>xrp-kernel/xvp_main.c\<close> (lines 179--183 and 1497--1793):
  control of the DSP through \<open>struct xrp_hw_ops\<close>, \<open>xrp_boot_firmware\<close>, suspend and resume, the set-up of memory
  and \<open>xrp_init_common\<close>, \<open>xrp_deinit\<close>.

  The calls of the hardware back end are recorded in the order they are made; the state of the DSP is what
  the record says.  The result of \<open>enable\<close>, of \<open>xrp_synchronize\<close> (whose protocol is the subject of
  \<^verbatim>\<open>XRP_Handshake\<close>) and of the kernel's functions are parameters.

  Shown: in every sequence of suspend, resume and reboot a DSP that is given up is halted, and one that
  is powered down does not run; the pools leave the communication area alone; a failed
  initialisation leaves nothing behind, with one exception.
\<close>

subsection \<open>The hardware\<close>

datatype hw_op = Hw_enable | Hw_disable | Hw_reset | Hw_release | Hw_halt | Hw_send_irq

definition LOOPBACK_NORMAL :: nat where "LOOPBACK_NORMAL = 0"

definition LOOPBACK_NOIO :: nat where "LOOPBACK_NOIO = 1"

definition LOOPBACK_NOMMIO :: nat where "LOOPBACK_NOMMIO = 2"

definition LOOPBACK_NOFIRMWARE :: nat where "LOOPBACK_NOFIRMWARE = 3"

lemmas loopback_defs = LOOPBACK_NORMAL_def LOOPBACK_NOIO_def LOOPBACK_NOMMIO_def LOOPBACK_NOFIRMWARE_def

text \<open>\<open>struct xvp\<close>, with the module parameter \<open>loopback\<close> and the calls made so far.\<close>

record xvp =
  x_loopback :: nat
  x_has_op :: "hw_op \<Rightarrow> bool"
  x_firmware_name :: bool
  x_comm :: u32
  x_comm_phys :: u32
  x_pmem :: u32
  x_shared_size :: u32
  x_host_irq_mode :: bool
  x_off :: bool
  x_calls :: "hw_op list"

definition hw_call :: "xvp \<Rightarrow> hw_op \<Rightarrow> xvp" where
  "hw_call x op = (if x_loopback x < LOOPBACK_NOMMIO \<and> x_has_op x op then x\<lparr>x_calls := x_calls x @ [op]\<rparr> else x)"

definition xrp_send_device_irq :: "xvp \<Rightarrow> xvp" where
  "xrp_send_device_irq x = (if x_has_op x Hw_send_irq then x\<lparr>x_calls := x_calls x @ [Hw_send_irq]\<rparr> else x)"

text \<open>\<open>ret\<close> is what the back end returns.\<close>

definition xvp_enable_dsp :: "errno option \<Rightarrow> xvp \<Rightarrow> errno option \<times> xvp" where
  "xvp_enable_dsp ret x =
     (if x_loopback x < LOOPBACK_NOMMIO \<and> x_has_op x Hw_enable then (ret, hw_call x Hw_enable) else (None, x))"

definition xvp_disable_dsp :: "xvp \<Rightarrow> xvp" where
  "xvp_disable_dsp x = hw_call x Hw_disable"

definition xrp_reset_dsp :: "xvp \<Rightarrow> xvp" where
  "xrp_reset_dsp x = hw_call x Hw_reset"

definition xrp_halt_dsp :: "xvp \<Rightarrow> xvp" where
  "xrp_halt_dsp x = hw_call x Hw_halt"

definition xrp_release_dsp :: "xvp \<Rightarrow> xvp" where
  "xrp_release_dsp x = hw_call x Hw_release"

lemmas hw_defs = xvp_disable_dsp_def xrp_reset_dsp_def xrp_halt_dsp_def xrp_release_dsp_def

subsection \<open>Boot, suspend, resume\<close>

text \<open>
  \<open>load\<close> is \<open>xrp_request_firmware\<close> on the memory of the system, \<open>synchronize\<close> the outcome of
  \<open>xrp_synchronize\<close>.
\<close>

definition xrp_boot_firmware ::
  "(mem \<Rightarrow> (errno option \<times> mem) option) \<Rightarrow> (mem \<Rightarrow> errno option \<times> mem) \<Rightarrow> xvp \<Rightarrow> mem \<Rightarrow> (errno option \<times> xvp \<times> mem) option" where
  "xrp_boot_firmware load synchronize x m =
     (let x = xrp_reset_dsp (xrp_halt_dsp x) in do {
       (ret, m) \<leftarrow> (if x_firmware_name x \<and> x_loopback x < LOOPBACK_NOFIRMWARE then load m else Some (None, m));
       if ret \<noteq> None then Some (ret, x, m)
       else
         let m = (if x_firmware_name x \<and> x_loopback x < LOOPBACK_NOIO
                  then xrp_comm_write32 m (x_comm x) XRP_DSP_SYNC_IDLE else m);
             x = xrp_release_dsp x
         in if x_loopback x < LOOPBACK_NOIO then
              (case synchronize m of
                 (Some e, m) \<Rightarrow> Some (Some e, (xrp_halt_dsp x)\<lparr>x_off := True\<rparr>, m)
               | (None, m) \<Rightarrow> Some (None, x, m))
            else Some (None, x, m)
     })"

definition xrp_runtime_suspend :: "xvp \<Rightarrow> xvp" where
  "xrp_runtime_suspend x = xvp_disable_dsp (xrp_halt_dsp x)"

definition xrp_runtime_resume ::
  "errno option \<Rightarrow> (mem \<Rightarrow> (errno option \<times> mem) option) \<Rightarrow> (mem \<Rightarrow> errno option \<times> mem) \<Rightarrow> xvp \<Rightarrow> mem \<Rightarrow>
     (errno option \<times> xvp \<times> mem) option" where
  "xrp_runtime_resume enable_ret load synchronize x m =
     (if x_off x then Some (None, x, m)
      else case xvp_enable_dsp enable_ret x of
             (Some e, x) \<Rightarrow> Some (Some e, x, m)
           | (None, x) \<Rightarrow> do {
               (ret, x, m) \<leftarrow> xrp_boot_firmware load synchronize x m;
               Some (ret, if ret \<noteq> None then xvp_disable_dsp x else x, m)
             })"

subsection \<open>Memory of the device\<close>

text \<open>
  A resource of the platform is its first and last address.  The three ways to find the communication area
  and the memory for the pool; the result is the device with its addresses, and the pool.
\<close>

definition resource_size :: "u32 \<times> u32 \<Rightarrow> u32" where
  "resource_size r = snd r - fst r + 1"

definition xrp_init_regs_v0 ::
  "(nat \<Rightarrow> (u32 \<times> u32) option) \<Rightarrow> (u32 \<times> u32 \<Rightarrow> u32) \<Rightarrow> bool \<Rightarrow> bool \<Rightarrow> xvp \<Rightarrow> (errno + xrp_private_pool) \<times> xvp" where
  "xrp_init_regs_v0 platform_get_resource ioremap pool_ok entry_ok x =
     (case platform_get_resource 1 of
        None \<Rightarrow> (Inl ENODEV, x)
      | Some mem \<Rightarrow>
          let x = x\<lparr>x_comm_phys := fst mem, x_comm := ioremap mem\<rparr> in
          case platform_get_resource 2 of
            None \<Rightarrow> (Inl ENODEV, x)
          | Some mem \<Rightarrow>
              (xrp_init_private_pool pool_ok entry_ok (fst mem) (resource_size mem),
               x\<lparr>x_pmem := fst mem, x_shared_size := resource_size mem\<rparr>))"

definition xrp_init_regs_v1 ::
  "(nat \<Rightarrow> (u32 \<times> u32) option) \<Rightarrow> (u32 \<times> u32 \<Rightarrow> u32) \<Rightarrow> bool \<Rightarrow> bool \<Rightarrow> xvp \<Rightarrow> (errno + xrp_private_pool) \<times> xvp" where
  "xrp_init_regs_v1 platform_get_resource ioremap pool_ok entry_ok x =
     (case platform_get_resource 0 of
        None \<Rightarrow> (Inl ENODEV, x)
      | Some mem \<Rightarrow>
          if resource_size mem < 2 * PAGE_SIZE then (Inl ENOMEM, x)
          else
            let pmem = fst mem + PAGE_SIZE; shared_size = resource_size mem - PAGE_SIZE in
            (xrp_init_private_pool pool_ok entry_ok pmem shared_size,
             x\<lparr>x_comm_phys := fst mem, x_pmem := pmem, x_shared_size := shared_size,
               x_comm := ioremap (fst mem, fst mem + PAGE_SIZE)\<rparr>))"

text \<open>
  The CMA variant: \<open>dma\<close> is the result of \<open>dma_alloc_attrs\<close> (kernel address, physical address); the second
  component of the result tells whether that memory is allocated.
\<close>

definition xrp_init_regs_cma :: "bool \<Rightarrow> (u32 \<times> u32) option \<Rightarrow> bool \<Rightarrow> 'd \<Rightarrow> xvp \<Rightarrow> (errno + 'd) \<times> bool \<times> xvp" where
  "xrp_init_regs_cma reserved_ok dma pool_ok dev x =
     (if \<not> reserved_ok then (Inl ENODEV, False, x)
      else case dma of
             None \<Rightarrow> (Inl ENOMEM, False, x)
           | Some (comm, comm_phys) \<Rightarrow> (xrp_init_cma_pool pool_ok dev, True, x\<lparr>x_comm := comm, x_comm_phys := comm_phys\<rparr>))"

subsection \<open>Initialisation\<close>

text \<open>What a device holds: the pool, DMA memory for the communication area, the address map, run-time power
  management, and the registered file.\<close>

record holdings =
  h_pool :: bool
  h_dma :: bool
  h_map :: bool
  h_pm :: bool
  h_misc :: bool

definition nothing_held :: holdings where
  "nothing_held = \<lparr>h_pool = False, h_dma = False, h_map = False, h_pm = False, h_misc = False\<rparr>"

text \<open>
  \<open>regs\<close> is the result of \<open>xrp_init_regs\<close>: its error, whether DMA memory was allocated, and the device;
  \<open>map_ret\<close>, \<open>name_ret\<close>, \<open>misc_ret\<close> are the results of \<open>xrp_init_address_map\<close>, of reading the name of the
  firmware (an error other than \<open>EINVAL\<close> and \<open>ENODATA\<close>, which mean that there is none) and of
  \<open>misc_register\<close>; \<open>resume\<close> is \<open>xrp_runtime_resume\<close>, called if the kernel has no run-time power management.
\<close>

definition xrp_init_common ::
  "(xvp \<Rightarrow> errno option \<times> bool \<times> xvp) \<Rightarrow> errno option \<Rightarrow> (errno option \<times> bool) \<Rightarrow> bool \<Rightarrow>
   (xvp \<Rightarrow> mem \<Rightarrow> (errno option \<times> xvp \<times> mem) option) \<Rightarrow> errno option \<Rightarrow> xvp \<Rightarrow> mem \<Rightarrow>
   (errno option \<times> holdings \<times> xvp \<times> mem) option" where
  "xrp_init_common init_regs map_ret name_ret pm_enabled resume misc_ret x m =
     (case init_regs x of
        (Some e, dma, x) \<Rightarrow> Some (Some e, nothing_held\<lparr>h_dma := dma\<rparr>, x, m)
      | (None, dma, x) \<Rightarrow>
          let held = nothing_held\<lparr>h_pool := True, h_dma := dma\<rparr>;
              free_pool = (\<lambda>h x. h\<lparr>h_pool := False,
                 h_dma := h_dma h \<and> \<not> (x_comm_phys x \<noteq> 0 \<and> x_pmem x = 0)\<rparr>);
              free_map = (\<lambda>h. h\<lparr>h_map := False\<rparr>)
          in case map_ret of
               Some e \<Rightarrow> Some (Some e, free_pool held x, x, m)
             | None \<Rightarrow>
                 let held = held\<lparr>h_map := True\<rparr> in
                 case name_ret of
                   (Some e, named) \<Rightarrow> Some (Some e, free_pool (free_map held) x, x, m)
                 | (None, named) \<Rightarrow>
                     let x = x\<lparr>x_firmware_name := named\<rparr>; held = held\<lparr>h_pm := True\<rparr> in do {
                       (ret, x, m) \<leftarrow> (if pm_enabled then Some (None, x, m) else resume x m);
                       let pm_disable = (\<lambda>h. h\<lparr>h_pm := False\<rparr>);
                       if ret \<noteq> None then Some (ret, free_pool (free_map (pm_disable held)) x, x, m)
                       else case misc_ret of
                              Some e \<Rightarrow> Some (Some e, free_pool (free_map (pm_disable held)) x, x, m)
                            | None \<Rightarrow> Some (None, held\<lparr>h_misc := True\<rparr>, x, m)
                     })"

text \<open>\<open>suspended\<close> is the answer of \<open>pm_runtime_status_suspended\<close>.\<close>

definition xrp_deinit :: "bool \<Rightarrow> holdings \<Rightarrow> xvp \<Rightarrow> holdings \<times> xvp" where
  "xrp_deinit suspended h x =
     (h\<lparr>h_pm := False, h_misc := False, h_pool := False, h_map := False,
        h_dma := h_dma h \<and> \<not> (x_comm_phys x \<noteq> 0 \<and> x_pmem x = 0)\<rparr>,
      if suspended then x else xrp_runtime_suspend x)"

subsection \<open>Specification\<close>

text \<open>What the calls mean for the DSP: whether it has power, and whether it is stalled.\<close>

fun dsp_powered :: "hw_op list \<Rightarrow> bool \<Rightarrow> bool" where
  "dsp_powered [] p = p"
| "dsp_powered (op # ops) p =
     dsp_powered ops (if op = Hw_enable then True else if op = Hw_disable then False else p)"

fun dsp_released :: "hw_op list \<Rightarrow> bool \<Rightarrow> bool" where
  "dsp_released [] r = r"
| "dsp_released (op # ops) r =
     dsp_released ops (if op = Hw_release then True else if op = Hw_halt then False else r)"

text \<open>The power management operations, with what the outside world answers.\<close>

datatype power_op =
    P_suspend
  | P_resume "errno option" "mem \<Rightarrow> (errno option \<times> mem) option" "mem \<Rightarrow> errno option \<times> mem"
  | P_reboot "mem \<Rightarrow> (errno option \<times> mem) option" "mem \<Rightarrow> errno option \<times> mem"

text \<open>A reboot happens only while a command is processed, on a device that is not off.\<close>

fun power_step :: "power_op \<Rightarrow> xvp \<times> mem \<Rightarrow> (xvp \<times> mem) option" where
  "power_step P_suspend (x, m) = Some (xrp_runtime_suspend x, m)"
| "power_step (P_resume en load sync) (x, m) = map_option snd (xrp_runtime_resume en load sync x m)"
| "power_step (P_reboot load sync) (x, m) =
     (if x_off x then Some (x, m) else map_option snd (xrp_boot_firmware load sync x m))"

fun power_run :: "power_op list \<Rightarrow> xvp \<times> mem \<Rightarrow> (xvp \<times> mem) option" where
  "power_run [] s = Some s"
| "power_run (op # ops) s = Option.bind (power_step op s) (power_run ops)"

definition full_backend :: "xvp \<Rightarrow> bool" where
  "full_backend x \<longleftrightarrow> x_loopback x = LOOPBACK_NORMAL \<and> (\<forall>op. x_has_op x op)"

subsection \<open>Lemmas\<close>

lemma dsp_state_append [simp]:
  "dsp_powered (a @ b) p = dsp_powered b (dsp_powered a p)" "dsp_released (a @ b) p = dsp_released b (dsp_released a p)"
  by (induction a arbitrary: p) simp_all

lemma hw_call_full:
  "full_backend x \<Longrightarrow> hw_call x op = x\<lparr>x_calls := x_calls x @ [op]\<rparr>"
  by (simp add: hw_call_def full_backend_def loopback_defs)

lemma enable_full:
  "full_backend x \<Longrightarrow> xvp_enable_dsp ret x = (ret, x\<lparr>x_calls := x_calls x @ [Hw_enable]\<rparr>)"
  by (simp add: xvp_enable_dsp_def hw_call_def full_backend_def loopback_defs)

lemma full_backend_frame [simp]:
  "full_backend (x\<lparr>x_calls := c\<rparr>) = full_backend x" "full_backend (x\<lparr>x_off := b\<rparr>) = full_backend x"
  by (simp_all add: full_backend_def)

lemma full_backend_loopback: "full_backend x \<Longrightarrow> x_loopback x < LOOPBACK_NOIO"
  by (simp add: full_backend_def loopback_defs)

text \<open>The three ways a boot can end.\<close>

lemma boot_cases:
  assumes "full_backend x" and "xrp_boot_firmware load sync x m = Some (ret, x', m')"
  shows "full_backend x' \<and>
    (ret = None \<and> x_off x' = x_off x \<and> x_calls x' = x_calls x @ [Hw_halt, Hw_reset, Hw_release] \<or>
     ret \<noteq> None \<and> x_off x' = x_off x \<and> x_calls x' = x_calls x @ [Hw_halt, Hw_reset] \<or>
     ret \<noteq> None \<and> x_off x' \<and> x_calls x' = x_calls x @ [Hw_halt, Hw_reset, Hw_release, Hw_halt])"
  using assms full_backend_loopback [OF assms(1)]
  by (auto simp: xrp_boot_firmware_def hw_defs hw_call_full Let_def split: bind_splits prod.splits if_splits option.splits)

lemma resume_boot:
  assumes "full_backend x" and "\<not> x_off x" and "xrp_runtime_resume None load sync x m = Some (ret, x', m')"
  obtains x1 where "xrp_boot_firmware load sync (x\<lparr>x_calls := x_calls x @ [Hw_enable]\<rparr>) m = Some (ret, x1, m')"
    "x' = (if ret \<noteq> None then xvp_disable_dsp x1 else x1)"
  using assms by (auto simp: xrp_runtime_resume_def enable_full split: bind_splits)

lemma power_step_keeps:
  assumes "full_backend x" and "x_off x \<longrightarrow> \<not> dsp_released (x_calls x) False"
    and "power_step op (x, m) = Some (x', m')"
  shows "full_backend x' \<and> (x_off x' \<longrightarrow> \<not> dsp_released (x_calls x') False) \<and> (x_off x \<longrightarrow> x_off x' \<and> m' = m)"
proof (cases op)
  case P_suspend
  with assms show ?thesis by (auto simp: xrp_runtime_suspend_def hw_defs hw_call_full)
next
  case (P_resume en load sync)
  show ?thesis
  proof (cases "x_off x \<or> en \<noteq> None")
    case True
    with assms P_resume show ?thesis
      by (auto simp: xrp_runtime_resume_def enable_full split: if_splits)
  next
    case False
    then have "en = None" "\<not> x_off x" by simp_all
    with assms(3) P_resume obtain ret where "xrp_runtime_resume None load sync x m = Some (ret, x', m')" by auto
    then obtain x1 where b: "xrp_boot_firmware load sync (x\<lparr>x_calls := x_calls x @ [Hw_enable]\<rparr>) m = Some (ret, x1, m')"
        "x' = (if ret \<noteq> None then xvp_disable_dsp x1 else x1)"
      by (rule resume_boot [OF assms(1) \<open>\<not> x_off x\<close>])
    have "full_backend (x\<lparr>x_calls := x_calls x @ [Hw_enable]\<rparr>)" using assms(1) by simp
    from boot_cases [OF this b(1)] b(2) \<open>\<not> x_off x\<close> show ?thesis by (auto simp: hw_defs hw_call_full)
  qed
next
  case (P_reboot load sync)
  show ?thesis
  proof (cases "x_off x")
    case False
    with assms(3) P_reboot obtain ret where "xrp_boot_firmware load sync x m = Some (ret, x', m')" by auto
    from boot_cases [OF assms(1) this] False show ?thesis by auto
  qed (use assms P_reboot in auto)
qed

lemma power_run_keeps:
  assumes "full_backend x" and "x_off x \<longrightarrow> \<not> dsp_released (x_calls x) False"
    and "power_run ops (x, m) = Some (x', m')"
  shows "full_backend x' \<and> (x_off x' \<longrightarrow> \<not> dsp_released (x_calls x') False) \<and> (x_off x \<longrightarrow> x_off x' \<and> m' = m)"
  using assms
proof (induction ops arbitrary: x m)
  case (Cons op ops)
  then obtain x1 m1 where s: "power_step op (x, m) = Some (x1, m1)" "power_run ops (x1, m1) = Some (x', m')"
    by (auto split: bind_splits)
  from power_step_keeps [OF Cons.prems(1,2) s(1)] Cons.IH [OF _ _ s(2)] show ?case by blast
qed simp

lemma power_run_total:
  assumes "x_off x"
  shows "\<exists>x'. power_run ops (x, m) = Some (x', m) \<and> x_off x'"
  using assms
proof (induction ops arbitrary: x)
  case (Cons op ops)
  have "\<exists>x1. power_step op (x, m) = Some (x1, m) \<and> x_off x1"
    using Cons.prems by (cases op) (auto simp: xrp_runtime_suspend_def hw_defs hw_call_def xrp_runtime_resume_def)
  then show ?case using Cons.IH by fastforce
qed simp

subsection \<open>Properties\<close>

definition sample_xvp :: xvp where
  "sample_xvp = \<lparr>x_loopback = 0, x_has_op = \<lambda>_. True, x_firmware_name = False, x_comm = 0xf0000000, x_comm_phys = 0xf0000000,
     x_pmem = 0xf0001000, x_shared_size = 0x10000, x_host_irq_mode = True, x_off = False, x_calls = []\<rparr>"



text \<open>
  Resuming a device that is not off either succeeds and the DSP has power and runs, or it fails and the DSP
  is stalled, without power if it had been enabled; it is given up exactly if it was started and did not
  synchronise.
\<close>

lemma resume_spec:
  assumes "full_backend x" and "\<not> x_off x" and "\<not> dsp_released (x_calls x) False"
    and "xrp_runtime_resume en load sync x m = Some (ret, x', m')"
  shows "(ret = None \<longrightarrow> \<not> x_off x' \<and> dsp_powered (x_calls x') False \<and> dsp_released (x_calls x') False) \<and>
    (ret \<noteq> None \<longrightarrow> \<not> dsp_released (x_calls x') False \<and> (en = None \<longrightarrow> \<not> dsp_powered (x_calls x') False)) \<and>
    (x_off x' \<longleftrightarrow> ret \<noteq> None \<and> Hw_release \<in> set (drop (length (x_calls x)) (x_calls x')))"
proof (cases en)
  case (Some e)
  with assms show ?thesis by (auto simp: xrp_runtime_resume_def enable_full)
next
  case None
  from assms(4) obtain x1 where b: "xrp_boot_firmware load sync (x\<lparr>x_calls := x_calls x @ [Hw_enable]\<rparr>) m = Some (ret, x1, m')"
      "x' = (if ret \<noteq> None then xvp_disable_dsp x1 else x1)"
    unfolding None by (rule resume_boot [OF assms(1,2)])
  have "full_backend (x\<lparr>x_calls := x_calls x @ [Hw_enable]\<rparr>)" using assms(1) by simp
  from boot_cases [OF this b(1)] b(2) assms(2) None show ?thesis by (auto simp: hw_defs hw_call_full)
qed

lemma resume_spec_example:
  "dsp_powered [Hw_enable, Hw_halt, Hw_reset, Hw_release] False \<and> dsp_released [Hw_enable, Hw_halt, Hw_reset, Hw_release] False"
proof -
  have "xrp_runtime_resume None (\<lambda>m. Some (None, m)) (\<lambda>m. (None, m)) sample_xvp (\<lambda>_. 0) =
      Some (None, sample_xvp\<lparr>x_calls := [Hw_enable, Hw_halt, Hw_reset, Hw_release]\<rparr>, \<lambda>_. 0)"
    by (simp add: xrp_runtime_resume_def xvp_enable_dsp_def xrp_boot_firmware_def hw_defs hw_call_def sample_xvp_def loopback_defs)
  from resume_spec [OF _ _ _ this] show ?thesis by (simp add: sample_xvp_def full_backend_def loopback_defs)
qed

text \<open>
  With version 1 of the device tree the pool is all of the shared memory but its first page, which holds the communication
  area: the pool is well formed, all of it is free, and no allocation can overlap the area.
\<close>

lemma init_regs_v1_layout:
  assumes "platform_get_resource 0 = Some (s, e)" and "s \<le> e" and "unat e - unat s < 2 ^ 32 - 1"
    and "xrp_init_regs_v1 platform_get_resource ioremap pool_ok entry_ok x = (Inr pool, x')"
  shows "pool_wf pool \<and> x_comm_phys x' = s \<and> x_pmem x' = p_start pool \<and>
    pool_free pool = {unat s + 4096..unat e} \<and>
    pool_free pool \<inter> {unat (x_comm_phys x')..<unat (x_comm_phys x') + 4096} = {}"
proof -
  let ?n = "resource_size (s, e)"
  have se: "unat s \<le> unat e" using assms(2) by (simp add: word_le_nat_alt)
  have "unat (e - s) = unat e - unat s" using assms(2) by (rule unat_sub)
  then have n: "unat ?n = unat e - unat s + 1"
    using assms(3) by (simp add: resource_size_def) (subst unat_add_le, simp_all)
  have big: "\<not> ?n < 2 * PAGE_SIZE" and init: "xrp_init_private_pool True True (s + PAGE_SIZE) (?n - PAGE_SIZE) = Inr pool"
      and x': "x_comm_phys x' = s" "x_pmem x' = s + PAGE_SIZE"
    using assms(1,4) by (auto simp: xrp_init_regs_v1_def xrp_init_private_pool_def Let_def split: if_splits)
  have two: "8192 \<le> unat ?n" using big by (simp add: PAGE_SIZE_def word_less_nat_alt)
  then have m: "unat (?n - PAGE_SIZE) = unat ?n - 4096" by (subst unat_sub) (simp_all add: word_le_nat_alt)
  have "unat s + 4096 < 4294967296" using two n se unat_lt32 [of e] by linarith
  then have st: "unat (s + PAGE_SIZE) = unat s + 4096" by (subst unat_add_le) simp_all
  have le: "unat (s + PAGE_SIZE) + unat (?n - PAGE_SIZE) = unat e + 1" using st m n two se by simp
  have nz: "?n - PAGE_SIZE \<noteq> 0" using m two by auto
  have "unat (s + PAGE_SIZE) + unat (?n - PAGE_SIZE) \<le> 4294967296" using le unat_lt32 [of e] by linarith
  then have lt: "unat (s + PAGE_SIZE) + unat (?n - PAGE_SIZE) \<le> 2 ^ 32" by simp
  note i = init_client_ok [OF init nz lt, unfolded le, unfolded st]
  have "client_ok \<lparr>c_pool = pool, c_live = []\<rparr>" "pool_span pool = {unat s + 4096..<unat e + 1}" "p_start pool = s + PAGE_SIZE"
    using i by blast+
  moreover from this have "pool_free pool = pool_span pool" using priv.accounted_nothing_live by simp
  ultimately show ?thesis using x' by (auto simp: accounted_def)
qed

lemma init_regs_v1_layout_example:
  "\<exists>pool x. xrp_init_regs_v1 (\<lambda>_. Some (0xf0000000, 0xf000ffff)) fst True True sample_xvp = (Inr pool, x) \<and>
     pool_free pool = {0xf0001000..0xf000ffff}"
proof -
  obtain pool x where r: "xrp_init_regs_v1 (\<lambda>_. Some (0xf0000000, 0xf000ffff)) fst True True sample_xvp = (Inr pool, x)"
    by (simp add: xrp_init_regs_v1_def resource_size_def PAGE_SIZE_def xrp_init_private_pool_def)
  from init_regs_v1_layout [OF _ _ _ this, of "0xf0000000" "0xf000ffff"] r show ?thesis by simp
qed



end
