(* ===== verification/XRP_Kernel_Request.thy ===== *)
theory XRP_Kernel_Request
  imports XRP_Kernel_Mem XRP_Kernel_Boot
begin

text \<open>
  Submission of a command by the driver, \<^verbatim>\<open>xrp-kernel/xvp_main.c\<close> lines 1001--1385: mapping of the request's data
  and buffers (\<open>xrp_map_request\<close>, \<open>xrp_unmap_request\<close>, \<open>xrp_unmap_request_nowb\<close>), the command in the
  communication area (\<open>xrp_fill_hw_request\<close>, \<open>xrp_complete_hw_request\<close>), waiting for the answer, and
  \<open>xrp_ioctl_submit_sync\<close> as a whole.

  The request structure is on the stack and is not initialised; its contents on entry are an argument.
  A member of a union and the other member are never used for the same request, so both are fields.  The
  array of buffer descriptors is in physical memory if there is more than one buffer, and part of the
  request otherwise.  What the DSP does while the driver waits is a function from memory to the sequence of
  memories the driver sees, each with the value the wait returns.
\<close>

subsection \<open>Data\<close>

record xrp_ioctl_queue =
  q_flags :: u32
  q_in_data_size :: u32
  q_out_data_size :: u32
  q_buffer_size :: u32
  q_in_data_addr :: u64
  q_out_data_addr :: u64
  q_buffer_addr :: u64
  q_nsid_addr :: u64

record xrp_ioctl_buffer =
  ib_flags :: u32
  ib_size :: u32
  ib_addr :: u64

record xrp_dsp_buffer =
  db_flags :: u32
  db_size :: u32
  db_addr :: u32

record xrp_request =
  rq_queue :: xrp_ioctl_queue
  rq_n_buffers :: nat
  rq_buffer_mapping :: "xrp_mapping list option"
  rq_dsp_buffer :: u32
  rq_in_data_phys :: u32
  rq_out_data_phys :: u32
  rq_dsp_buffer_phys :: u32
  rq_in_data_mapping :: xrp_mapping
  rq_in_data :: "u8 list"
  rq_out_data_mapping :: xrp_mapping
  rq_out_data :: "u8 list"
  rq_dsp_buffer_mapping :: xrp_mapping
  rq_dsp_buffer_union :: xrp_alien_mapping
  rq_buffer_data :: xrp_dsp_buffer
  rq_nsid :: "u8 list"

definition XRP_QUEUE_FLAG_NSID :: u32 where
  "XRP_QUEUE_FLAG_NSID = 4"

definition XRP_QUEUE_VALID_FLAGS :: u32 where
  "XRP_QUEUE_VALID_FLAGS = 4"

definition dsp_buffer_bytes :: "xrp_dsp_buffer \<Rightarrow> u8 list" where
  "dsp_buffer_bytes b = bytes_of32 (db_flags b) @ bytes_of32 (db_size b) @ bytes_of32 (db_addr b)"

definition dsp_buffer_of :: "u8 list \<Rightarrow> xrp_dsp_buffer" where
  "dsp_buffer_of bs = \<lparr>db_flags = of_bytes32 (take 4 bs), db_size = of_bytes32 (take 4 (drop 4 bs)),
     db_addr = of_bytes32 (take 4 (drop 8 bs))\<rparr>"

definition ioctl_buffer_of :: "u8 list \<Rightarrow> xrp_ioctl_buffer" where
  "ioctl_buffer_of bs = \<lparr>ib_flags = of_bytes32 (take 4 bs), ib_size = of_bytes32 (take 4 (drop 4 bs)),
     ib_addr = ucast (of_bytes32 (take 4 (drop 8 bs))) OR push_bit 32 (ucast (of_bytes32 (take 4 (drop 12 bs))))\<rparr>"

definition sizeof_ioctl_buffer :: nat where
  "sizeof_ioctl_buffer = 16"

subsection \<open>Unmapping\<close>

text \<open>\<open>__xrp_unshare_block\<close> where its result is ignored.\<close>

definition unshare :: "kenv \<Rightarrow> kst \<Rightarrow> xrp_mapping \<Rightarrow> u32 \<Rightarrow> kst option" where
  "unshare env st m flags = map_option (\<lambda>r. snd (snd r)) (xrp_unshare_block env st m flags)"

fun unshare_all :: "kenv \<Rightarrow> kst \<Rightarrow> xrp_mapping list \<Rightarrow> kst option" where
  "unshare_all env st [] = Some st"
| "unshare_all env st (m # ms) = do { st \<leftarrow> unshare env st m 0; unshare_all env st ms }"

definition xrp_unmap_request_nowb :: "kenv \<Rightarrow> kst \<Rightarrow> xrp_request \<Rightarrow> kst option" where
  "xrp_unmap_request_nowb env st rq = do {
     st \<leftarrow> (if q_in_data_size (rq_queue rq) > XRP_DSP_CMD_INLINE_DATA_SIZE
            then unshare env st (rq_in_data_mapping rq) 0 else Some st);
     st \<leftarrow> (if q_out_data_size (rq_queue rq) > XRP_DSP_CMD_INLINE_DATA_SIZE
            then unshare env st (rq_out_data_mapping rq) 0 else Some st);
     st \<leftarrow> (if rq_n_buffers rq = 0 then Some st
            else do { ms \<leftarrow> rq_buffer_mapping rq; unshare_all env st (take (rq_n_buffers rq) ms) });
     (if rq_n_buffers rq > unat XRP_DSP_CMD_INLINE_BUFFER_COUNT
      then unshare env st (rq_dsp_buffer_mapping rq) 0 else Some st)
   }"

text \<open>\<open>rq->dsp_buffer[i]\<close>, in the request or in memory.\<close>

definition dsp_buffer_at :: "kenv \<Rightarrow> xrp_request \<Rightarrow> nat \<Rightarrow> u32" where
  "dsp_buffer_at env rq i = kv_pa env (rq_dsp_buffer rq) + of_nat i * sizeof_dsp_buffer"

definition load_dsp_buffer :: "kenv \<Rightarrow> kst \<Rightarrow> xrp_request \<Rightarrow> nat \<Rightarrow> xrp_dsp_buffer" where
  "load_dsp_buffer env st rq i =
     (if rq_n_buffers rq > unat XRP_DSP_CMD_INLINE_BUFFER_COUNT
      then dsp_buffer_of (read_bytes (k_mem st) (dsp_buffer_at env rq i) (unat sizeof_dsp_buffer))
      else rq_buffer_data rq)"

definition store_dsp_buffer :: "kenv \<Rightarrow> kst \<Rightarrow> xrp_request \<Rightarrow> nat \<Rightarrow> xrp_dsp_buffer \<Rightarrow> xrp_request \<times> kst" where
  "store_dsp_buffer env st rq i b =
     (if rq_n_buffers rq > unat XRP_DSP_CMD_INLINE_BUFFER_COUNT
      then (rq, st\<lparr>k_mem := write_bytes (k_mem st) (dsp_buffer_at env rq i) (dsp_buffer_bytes b)\<rparr>)
      else (rq\<lparr>rq_buffer_data := b\<rparr>, st))"

text \<open>The loop over the buffers; the error of the last buffer that failed is the result.\<close>

fun unmap_buffers :: "kenv \<Rightarrow> kst \<Rightarrow> xrp_request \<Rightarrow> errno option \<Rightarrow> nat \<Rightarrow> xrp_mapping list \<Rightarrow> (errno option \<times> kst) option" where
  "unmap_buffers env st rq ret i [] = Some (ret, st)"
| "unmap_buffers env st rq ret i (m # ms) = do {
     (rc, m', st) \<leftarrow> xrp_unshare_block env st m (db_flags (load_dsp_buffer env st rq i));
     unmap_buffers env st rq (if rc \<noteq> None then rc else ret) (i + 1) ms
   }"

definition unmap_out_data :: "kenv \<Rightarrow> kst \<Rightarrow> xrp_request \<Rightarrow> (errno option \<times> kst) option" where
  "unmap_out_data env st rq =
     (if q_out_data_size (rq_queue rq) > XRP_DSP_CMD_INLINE_DATA_SIZE then do {
        (rc, m', st) \<leftarrow> xrp_unshare_block env st (rq_out_data_mapping rq) XRP_FLAG_WRITE;
        Some (rc, st)
      } else
        (case kv_put_user env (k_mem st) (ucast (q_out_data_addr (rq_queue rq)))
                (take (unat (q_out_data_size (rq_queue rq))) (rq_out_data rq)) of
           (m, ok) \<Rightarrow> Some (if ok then None else Some EFAULT, st\<lparr>k_mem := m\<rparr>)))"

definition xrp_unmap_request :: "kenv \<Rightarrow> kst \<Rightarrow> xrp_request \<Rightarrow> (errno option \<times> kst) option" where
  "xrp_unmap_request env st rq = do {
     st \<leftarrow> (if q_in_data_size (rq_queue rq) > XRP_DSP_CMD_INLINE_DATA_SIZE
            then unshare env st (rq_in_data_mapping rq) XRP_FLAG_READ else Some st);
     (ret, st) \<leftarrow> unmap_out_data env st rq;
     st \<leftarrow> (if rq_n_buffers rq > unat XRP_DSP_CMD_INLINE_BUFFER_COUNT
            then unshare env st (rq_dsp_buffer_mapping rq) XRP_FLAG_READ_WRITE else Some st);
     (if rq_n_buffers rq = 0 then Some (ret, st)
      else do { ms \<leftarrow> rq_buffer_mapping rq; unmap_buffers env st rq ret 0 (take (rq_n_buffers rq) ms) })
   }"

subsection \<open>Mapping\<close>

text \<open>The steps of \<open>xrp_map_request\<close>, each with its error, the request and the state.\<close>

type_synonym rq_step = "(errno option \<times> xrp_request \<times> kst) option"

definition and_then :: "rq_step \<Rightarrow> (xrp_request \<Rightarrow> kst \<Rightarrow> rq_step) \<Rightarrow> rq_step" where
  "and_then r f = do {
     (e, rq, st) \<leftarrow> r;
     (case e of Some x \<Rightarrow> Some (Some x, rq, st) | None \<Rightarrow> f rq st)
   }"

definition map_nsid :: "kenv \<Rightarrow> xrp_request \<Rightarrow> kst \<Rightarrow> rq_step" where
  "map_nsid env rq st =
     (if q_flags (rq_queue rq) AND XRP_QUEUE_FLAG_NSID \<noteq> 0 then
        (case kv_get_user env (k_mem st) (ucast (q_nsid_addr (rq_queue rq))) XRP_DSP_CMD_NAMESPACE_ID_SIZE of
           None \<Rightarrow> Some (Some EINVAL, rq, st)
         | Some bs \<Rightarrow> Some (None, rq\<lparr>rq_nsid := bs\<rparr>, st))
      else Some (None, rq, st))"

text \<open>
  The arrays for \<open>n_buffers\<close> buffers.  A failed allocation of the array of mappings goes unnoticed: \<open>None\<close> is
  the null pointer.
\<close>

definition alloc_arrays :: "kenv \<Rightarrow> xrp_request \<Rightarrow> kst \<Rightarrow> rq_step" where
  "alloc_arrays env rq st =
     (let n = unat (q_buffer_size (rq_queue rq)) div sizeof_ioctl_buffer;
          rq = rq\<lparr>rq_n_buffers := n\<rparr>
      in if n = 0 then Some (None, rq, st)
         else
           let rq = rq\<lparr>rq_buffer_mapping := (if kv_buffer_mapping_ok env then Some (replicate n Map_none) else None)\<rparr> in
           if n > unat XRP_DSP_CMD_INLINE_BUFFER_COUNT then
             (case kv_dsp_buffer env of
                None \<Rightarrow> Some (Some ENOMEM, rq, st)
              | Some a \<Rightarrow> Some (None, rq\<lparr>rq_dsp_buffer := a\<rparr>, st))
           else Some (None, rq, st))"

definition map_in_data :: "kenv \<Rightarrow> nat \<Rightarrow> xrp_request \<Rightarrow> kst \<Rightarrow> rq_step" where
  "map_in_data env filp rq st =
     (let q = rq_queue rq in
      if q_in_data_size q > XRP_DSP_CMD_INLINE_DATA_SIZE then do {
        (r, st) \<leftarrow> xrp_share_block env st filp (ucast (q_in_data_addr q)) (q_in_data_size q) XRP_FLAG_READ;
        (case r of
           Inl e \<Rightarrow> Some (Some e, rq, st)
         | Inr (phys, m) \<Rightarrow> Some (None, rq\<lparr>rq_in_data_phys := phys, rq_in_data_mapping := m\<rparr>, st))
      } else
        (case kv_get_user env (k_mem st) (ucast (q_in_data_addr q)) (unat (q_in_data_size q)) of
           None \<Rightarrow> Some (Some EFAULT, rq, st)
         | Some bs \<Rightarrow> Some (None, rq\<lparr>rq_in_data := bs\<rparr>, st)))"

definition map_out_data :: "kenv \<Rightarrow> nat \<Rightarrow> xrp_request \<Rightarrow> kst \<Rightarrow> rq_step" where
  "map_out_data env filp rq st =
     (let q = rq_queue rq in
      if q_out_data_size q > XRP_DSP_CMD_INLINE_DATA_SIZE then do {
        (r, st) \<leftarrow> xrp_share_block env st filp (ucast (q_out_data_addr q)) (q_out_data_size q) XRP_FLAG_WRITE;
        (case r of
           Inl e \<Rightarrow> Some (Some e, rq, st)
         | Inr (phys, m) \<Rightarrow> Some (None, rq\<lparr>rq_out_data_phys := phys, rq_out_data_mapping := m\<rparr>, st))
      } else Some (None, rq, st))"

text \<open>One buffer: its mapping, if it is accessed at all, and its descriptor.\<close>

definition map_buffer :: "kenv \<Rightarrow> nat \<Rightarrow> nat \<Rightarrow> xrp_request \<Rightarrow> kst \<Rightarrow> rq_step" where
  "map_buffer env filp i rq st =
     (case kv_get_user env (k_mem st) (ucast (q_buffer_addr (rq_queue rq)) + of_nat (i * sizeof_ioctl_buffer))
             sizeof_ioctl_buffer of
        None \<Rightarrow> Some (Some EFAULT, rq, st)
      | Some bs \<Rightarrow>
          let ib = ioctl_buffer_of bs;
              descr = (\<lambda>phys rq st. case store_dsp_buffer env st rq i
                         \<lparr>db_flags = ib_flags ib, db_size = ib_size ib, db_addr = xrp_translate_to_dsp (kv_map env) phys\<rparr> of
                       (rq, st) \<Rightarrow> Some (None, rq, st))
          in if ib_flags ib AND XRP_FLAG_READ_WRITE \<noteq> 0 then do {
               (r, st) \<leftarrow> xrp_share_block env st filp (ucast (ib_addr ib)) (ib_size ib) (ib_flags ib);
               (case r of
                  Inl e \<Rightarrow> Some (Some e, rq, st)
                | Inr (phys, m) \<Rightarrow> do {
                    ms \<leftarrow> rq_buffer_mapping rq;
                    descr phys (rq\<lparr>rq_buffer_mapping := Some (ms[i := m])\<rparr>) st
                  })
             } else descr (NOT 0) rq st)"

fun map_buffers :: "kenv \<Rightarrow> nat \<Rightarrow> nat list \<Rightarrow> xrp_request \<Rightarrow> kst \<Rightarrow> rq_step" where
  "map_buffers env filp [] rq st = Some (None, rq, st)"
| "map_buffers env filp (i # is) rq st = and_then (map_buffer env filp i rq st) (map_buffers env filp is)"

definition map_descriptors :: "kenv \<Rightarrow> xrp_request \<Rightarrow> kst \<Rightarrow> rq_step" where
  "map_descriptors env rq st =
     (if rq_n_buffers rq > unat XRP_DSP_CMD_INLINE_BUFFER_COUNT then do {
        (r, m, st) \<leftarrow> xrp_share_kernel env st (rq_dsp_buffer_union rq) (rq_dsp_buffer rq)
                        (of_nat (rq_n_buffers rq) * sizeof_dsp_buffer) XRP_FLAG_READ_WRITE;
        (case r of
           Inl e \<Rightarrow> Some (Some e, rq\<lparr>rq_dsp_buffer_mapping := m\<rparr>, st)
         | Inr phys \<Rightarrow> Some (None, rq\<lparr>rq_dsp_buffer_phys := phys, rq_dsp_buffer_mapping := m\<rparr>, st))
      } else Some (None, rq, st))"

text \<open>The part under \<open>mmap_sem\<close>; whatever fails in it goes to \<open>share_err\<close>.\<close>

definition share_request :: "kenv \<Rightarrow> nat \<Rightarrow> xrp_request \<Rightarrow> kst \<Rightarrow> rq_step" where
  "share_request env filp rq st =
     and_then (map_in_data env filp rq st) (\<lambda>rq st.
     and_then (map_out_data env filp rq st) (\<lambda>rq st.
     and_then (map_buffers env filp [0..<rq_n_buffers rq] rq st) (\<lambda>rq st.
       map_descriptors env rq st)))"

definition xrp_map_request :: "kenv \<Rightarrow> nat \<Rightarrow> xrp_request \<Rightarrow> kst \<Rightarrow> rq_step" where
  "xrp_map_request env filp rq st =
     and_then (map_nsid env rq st) (\<lambda>rq st.
     and_then (alloc_arrays env rq st) (\<lambda>rq st. do {
       (e, rq, st) \<leftarrow> share_request env filp rq st;
       (case e of
          None \<Rightarrow> Some (None, rq, st)
        | Some x \<Rightarrow> do { st \<leftarrow> xrp_unmap_request_nowb env st rq; Some (Some x, rq, st) })
     }))"

subsection \<open>The command in the communication area\<close>

text \<open>The bytes of the descriptors that travel in the command itself.\<close>

definition inline_buffers :: "xrp_request \<Rightarrow> u8 list" where
  "inline_buffers rq = take (rq_n_buffers rq * unat sizeof_dsp_buffer) (dsp_buffer_bytes (rq_buffer_data rq))"

definition xrp_fill_hw_request :: "xrp_address_map \<Rightarrow> u32 \<Rightarrow> xrp_request \<Rightarrow> mem \<Rightarrow> mem" where
  "xrp_fill_hw_request amap cmd rq m =
     (let q = rq_queue rq;
          m = xrp_comm_write32 m (cmd + off_in_data_size) (q_in_data_size q);
          m = xrp_comm_write32 m (cmd + off_out_data_size) (q_out_data_size q);
          m = xrp_comm_write32 m (cmd + off_buffer_size) (of_nat (rq_n_buffers rq) * sizeof_dsp_buffer);
          m = (if q_in_data_size q > XRP_DSP_CMD_INLINE_DATA_SIZE
               then xrp_comm_write32 m (cmd + off_in_data) (xrp_translate_to_dsp amap (rq_in_data_phys rq))
               else xrp_comm_write m (cmd + off_in_data) (take (unat (q_in_data_size q)) (rq_in_data rq)));
          m = (if q_out_data_size q > XRP_DSP_CMD_INLINE_DATA_SIZE
               then xrp_comm_write32 m (cmd + off_out_data) (xrp_translate_to_dsp amap (rq_out_data_phys rq))
               else m);
          m = (if rq_n_buffers rq > unat XRP_DSP_CMD_INLINE_BUFFER_COUNT
               then xrp_comm_write32 m (cmd + off_buffer_data) (xrp_translate_to_dsp amap (rq_dsp_buffer_phys rq))
               else xrp_comm_write m (cmd + off_buffer_data) (inline_buffers rq));
          m = (if q_flags q AND XRP_QUEUE_FLAG_NSID \<noteq> 0
               then xrp_comm_write m (cmd + off_nsid) (take XRP_DSP_CMD_NAMESPACE_ID_SIZE (rq_nsid rq)) else m)
      in xrp_comm_write32 m (cmd + off_flags)
           ((q_flags q AND NOT XRP_DSP_CMD_FLAG_RESPONSE_VALID) OR XRP_DSP_CMD_FLAG_REQUEST_VALID))"

definition xrp_complete_hw_request :: "u32 \<Rightarrow> xrp_request \<Rightarrow> mem \<Rightarrow> errno option \<times> xrp_request" where
  "xrp_complete_hw_request cmd rq m =
     (let flags = xrp_comm_read32 m (cmd + off_flags);
          rq = (if q_out_data_size (rq_queue rq) \<le> XRP_DSP_CMD_INLINE_DATA_SIZE
                then rq\<lparr>rq_out_data := xrp_comm_read m (cmd + off_out_data) (unat (q_out_data_size (rq_queue rq)))\<rparr>
                else rq);
          rq = (if rq_n_buffers rq = 1
                then rq\<lparr>rq_buffer_data := dsp_buffer_of (xrp_comm_read m (cmd + off_buffer_data) (unat sizeof_dsp_buffer))\<rparr>
                else rq)
      in (if flags AND XRP_DSP_CMD_FLAG_RESPONSE_DELIVERY_FAIL \<noteq> 0 then Some ENXIO else None, rq))"

text \<open>
  Waiting.  An event is the value the wait returns (the remaining time, or negative if it was interrupted)
  and the memory when the command is tested after it; \<open>None\<close> is that the driver still waits.
\<close>

fun xvp_complete_cmd_irq :: "u32 \<Rightarrow> (int \<times> mem) list \<Rightarrow> (errno option \<times> mem) option" where
  "xvp_complete_cmd_irq comm [] = None"
| "xvp_complete_cmd_irq comm ((timeout, m) # evs) =
     (if xrp_cmd_complete m comm then Some (None, m)
      else if timeout > 0 then xvp_complete_cmd_irq comm evs
      else if timeout = 0 then Some (Some EBUSY, m)
      else Some (Some ERESTARTSYS, m))"

text \<open>Polling: the test comes first, then the comparison of the time with the deadline.\<close>

fun xvp_complete_cmd_poll :: "u32 \<Rightarrow> (int \<times> mem) list \<Rightarrow> (errno option \<times> mem) option" where
  "xvp_complete_cmd_poll comm [] = None"
| "xvp_complete_cmd_poll comm ((before_deadline, m) # evs) =
     (if xrp_cmd_complete m comm then Some (None, m)
      else if before_deadline > 0 then xvp_complete_cmd_poll comm evs
      else Some (Some EBUSY, m))"

subsection \<open>Submission\<close>

definition sizeof_ioctl_queue :: nat where
  "sizeof_ioctl_queue = 48"

definition le64_at :: "u8 list \<Rightarrow> nat \<Rightarrow> u64" where
  "le64_at bs o' = ucast (of_bytes32 (take 4 (drop o' bs))) OR push_bit 32 (ucast (of_bytes32 (take 4 (drop (o' + 4) bs))))"

definition ioctl_queue_of :: "u8 list \<Rightarrow> xrp_ioctl_queue" where
  "ioctl_queue_of bs =
     \<lparr>q_flags = of_bytes32 (take 4 bs), q_in_data_size = of_bytes32 (take 4 (drop 4 bs)),
      q_out_data_size = of_bytes32 (take 4 (drop 8 bs)), q_buffer_size = of_bytes32 (take 4 (drop 12 bs)),
      q_in_data_addr = le64_at bs 16, q_out_data_addr = le64_at bs 24, q_buffer_addr = le64_at bs 32,
      q_nsid_addr = le64_at bs 40\<rparr>"

text \<open>
  What surrounds a submission: how the DSP and the clock behave from the moment the interrupt is sent, the
  module parameter \<open>firmware_reboot\<close>, and loading and synchronisation for a reboot.
\<close>

record submit_env =
  se_dsp :: "mem \<Rightarrow> (int \<times> mem) list"
  se_reboot :: bool
  se_load :: "mem \<Rightarrow> (errno option \<times> mem) option"
  se_synchronize :: "mem \<Rightarrow> errno option \<times> mem"

text \<open>The part under \<open>comm_lock\<close>; the flag is \<open>went_off\<close>.\<close>

definition exchange ::
  "kenv \<Rightarrow> submit_env \<Rightarrow> xrp_request \<Rightarrow> xvp \<Rightarrow> mem \<Rightarrow> (errno option \<times> bool \<times> xrp_request \<times> xvp \<times> mem) option" where
  "exchange env se rq x m =
     (if x_off x then Some (Some ENODEV, False, rq, x, m)
      else
        let m = xrp_fill_hw_request (kv_map env) (x_comm x) rq m;
            x = xrp_send_device_irq x
        in do {
          (ret, m) \<leftarrow> (if x_host_irq_mode x then xvp_complete_cmd_irq (x_comm x) (se_dsp se m)
                       else xvp_complete_cmd_poll (x_comm x) (se_dsp se m));
          (case ret of
             None \<Rightarrow> (case xrp_complete_hw_request (x_comm x) rq m of (ret, rq) \<Rightarrow> Some (ret, False, rq, x, m))
           | Some e \<Rightarrow>
               if e = EBUSY \<and> se_reboot se then do {
                 (rc, x, m) \<leftarrow> xrp_boot_firmware (se_load se) (se_synchronize se) x m;
                 Some (if rc \<noteq> None then (rc, x_off x, rq, x, m) else (Some EBUSY, False, rq, x, m))
               } else Some (Some e, False, rq, x, m))
        })"

text \<open>\<open>stack\<close> is what the request structure contains on entry, \<open>p\<close> the user's pointer.\<close>

definition xrp_ioctl_submit_sync ::
  "kenv \<Rightarrow> submit_env \<Rightarrow> nat \<Rightarrow> xrp_request \<Rightarrow> u32 \<Rightarrow> xvp \<Rightarrow> kst \<Rightarrow> (errno option \<times> xvp \<times> kst) option" where
  "xrp_ioctl_submit_sync env se filp stack p x st =
     (case kv_get_user env (k_mem st) p sizeof_ioctl_queue of
        None \<Rightarrow> Some (Some EFAULT, x, st)
      | Some bs \<Rightarrow>
          let rq = stack\<lparr>rq_queue := ioctl_queue_of bs\<rparr> in
          if q_flags (rq_queue rq) AND NOT XRP_QUEUE_VALID_FLAGS \<noteq> 0 then Some (Some EINVAL, x, st)
          else do {
            (ret, rq, st) \<leftarrow> xrp_map_request env filp rq st;
            if ret \<noteq> None then Some (ret, x, st)
            else do {
              (ret, went_off, rq, x, m) \<leftarrow> (if x_loopback x < LOOPBACK_NOIO then exchange env se rq x (k_mem st)
                                           else Some (None, False, rq, x, k_mem st));
              let st = st\<lparr>k_mem := m\<rparr>;
              if ret = None then do { (ret, st) \<leftarrow> xrp_unmap_request env st rq; Some (ret, x, st) }
              else if \<not> went_off then do { st \<leftarrow> xrp_unmap_request_nowb env st rq; Some (ret, x, st) }
              else Some (ret, x, st)
            }
          })"

end
