(* ===== verification/XRP_Sharing.thy ===== *)
theory XRP_Sharing
  imports XRP_Kernel_Mem
begin

text \<open>
  What the DSP and the user see of a block shared by \<^theory_text>\<open>XRP_Kernel_Mem\<close>: the page-wise copy loop of
  \<open>_xrp_copy_user_phys\<close> copies exactly the block; a shadow copy lies within its allocation, holds the
  user's bytes and is written back; a block shared in place is contiguous on both sides.

  Assumed of the kernel (the predicates \<open>copy_law\<close>, \<open>pfn_law\<close> here, \<open>gup_law\<close> and \<open>areas_hold\<close> there) is the
  documented behaviour of its functions; \<open>sample_env\<close> is a machine that satisfies it.
\<close>

subsection \<open>Contents of shadow copies\<close>

text \<open>
  The user's memory: \<open>tr\<close> is the physical address of a byte at a virtual address.  The copy functions of the
  kernel, when they report that everything was copied, have copied exactly the bytes asked for.
\<close>

definition user_bytes :: "(u32 \<Rightarrow> u32) \<Rightarrow> mem \<Rightarrow> u32 \<Rightarrow> nat \<Rightarrow> u8 list" where
  "user_bytes tr m vaddr n = map (\<lambda>i. m (tr (vaddr + of_nat i))) [0..<n]"

fun user_write :: "(u32 \<Rightarrow> u32) \<Rightarrow> mem \<Rightarrow> u32 \<Rightarrow> u8 list \<Rightarrow> mem" where
  "user_write tr m vaddr [] = m"
| "user_write tr m vaddr (b # bs) = user_write tr (m(tr vaddr := b)) (vaddr + 1) bs"

definition copy_law :: "kenv \<Rightarrow> (u32 \<Rightarrow> u32) \<Rightarrow> bool" where
  "copy_law env tr \<longleftrightarrow>
     (\<forall>m p vaddr n m'. kv_copy_from_user env m p vaddr n = (m', True) \<longrightarrow>
        m' = write_bytes m p (user_bytes tr m vaddr n)) \<and>
     (\<forall>m p vaddr n m'. kv_copy_to_user env m vaddr p n = (m', True) \<longrightarrow>
        m' = user_write tr m vaddr (read_bytes m p n))"

text \<open>The \<open>n\<close> bytes of user memory and the \<open>n\<close> bytes of physical memory do not overlap.\<close>

definition clear_of :: "(u32 \<Rightarrow> u32) \<Rightarrow> u32 \<Rightarrow> u32 \<Rightarrow> nat \<Rightarrow> bool" where
  "clear_of tr vaddr p n \<longleftrightarrow> (\<forall>i<n. n \<le> unat (tr (vaddr + of_nat i) - p))"

text \<open>Copying in one direction.\<close>

definition copied :: "(u32 \<Rightarrow> u32) \<Rightarrow> bool \<Rightarrow> mem \<Rightarrow> u32 \<Rightarrow> u32 \<Rightarrow> nat \<Rightarrow> mem" where
  "copied tr to_phys m p vaddr n =
     (if to_phys then write_bytes m p (user_bytes tr m vaddr n) else user_write tr m vaddr (read_bytes m p n))"

lemma length_user_bytes [simp]: "length (user_bytes tr m vaddr n) = n"
  by (simp add: user_bytes_def)

lemma user_bytes_append:
  "user_bytes tr m vaddr (k + n) = user_bytes tr m vaddr k @ user_bytes tr m (vaddr + of_nat k) n"
  using read_bytes_append [of "m \<circ> tr" vaddr k n] by (simp add: user_bytes_def read_bytes_def)

lemma user_write_append:
  "user_write tr m vaddr (xs @ ys) = user_write tr (user_write tr m vaddr xs) (vaddr + of_nat (length xs)) ys"
  by (induction xs arbitrary: m vaddr) (simp_all add: ac_simps)

lemma user_write_other: "(\<And>i. i < length bs \<Longrightarrow> x \<noteq> tr (vaddr + of_nat i)) \<Longrightarrow> user_write tr m vaddr bs x = m x"
proof (induction bs arbitrary: m vaddr)
  case (Cons b bs)
  have "x \<noteq> tr (vaddr + 1 + of_nat i)" if "i < length bs" for i
    using Cons.prems [of "Suc i"] that by (simp add: ac_simps)
  moreover have "x \<noteq> tr vaddr" using Cons.prems [of 0] by simp
  ultimately show ?case using Cons.IH by simp
qed simp

lemma user_bytes_write:
  "inj_on (\<lambda>i. tr (vaddr + of_nat i)) {..<length bs} \<Longrightarrow>
     user_bytes tr (user_write tr m vaddr bs) vaddr (length bs) = bs"
proof (induction bs arbitrary: m vaddr)
  case (Cons b bs)
  have s: "tr (vaddr + 1 + of_nat i) = tr (vaddr + of_nat (Suc i))" for i by (simp add: ac_simps)
  have "inj_on (\<lambda>i. tr (vaddr + of_nat (Suc i))) {..<length bs}"
    using Cons.prems by (auto simp: inj_on_def simp del: of_nat_Suc)
  then have ih: "user_bytes tr (user_write tr (m(tr vaddr := b)) (vaddr + 1) bs) (vaddr + 1) (length bs) = bs"
    by (intro Cons.IH) (simp only: s)
  have "tr vaddr \<noteq> tr (vaddr + of_nat (Suc i))" if "i < length bs" for i
    using inj_onD [OF Cons.prems, of 0 "Suc i"] that by auto
  then have "user_write tr (m(tr vaddr := b)) (vaddr + 1) bs (tr vaddr) = b"
    by (subst user_write_other) (simp_all only: s, simp_all)
  with ih show ?case using user_bytes_append [of tr _ vaddr 1 "length bs"] by (simp add: user_bytes_def)
qed (simp add: user_bytes_def)

text \<open>Copying a first part and then the rest copies everything.\<close>

lemma copied_split:
  assumes "clear_of tr vaddr p (k + n)" and "k + n \<le> 2 ^ 32"
  shows "copied tr to_phys (copied tr to_phys m p vaddr k) (p + of_nat k) (vaddr + of_nat k) n =
    copied tr to_phys m p vaddr (k + n)"
proof (cases to_phys)
  case True
  have "write_bytes m p (user_bytes tr m vaddr k) (tr (vaddr + of_nat (k + i))) = m (tr (vaddr + of_nat (k + i)))"
    if "i < n" for i
    using assms that by (subst write_bytes_apply) (auto simp: clear_of_def dest!: spec [of _ "k + i"])
  then have "user_bytes tr (write_bytes m p (user_bytes tr m vaddr k)) (vaddr + of_nat k) n =
      user_bytes tr m (vaddr + of_nat k) n"
    by (simp add: user_bytes_def add.assoc)
  with True show ?thesis by (simp add: copied_def user_bytes_append write_bytes_append)
next
  case False
  have "p + of_nat (k + i) \<noteq> tr (vaddr + of_nat j)" if "i < n" "j < k" for i j
  proof
    assume "p + of_nat (k + i) = tr (vaddr + of_nat j)"
    then have "tr (vaddr + of_nat j) - p = of_nat (k + i)" by (simp add: algebra_simps flip: of_nat_add)
    then have "unat (tr (vaddr + of_nat j) - p) = k + i"
      using that assms(2) by (simp only: unat_of_nat) simp
    then show False using assms(1) that by (auto simp: clear_of_def dest!: spec [of _ j])
  qed
  then have "user_write tr m vaddr (read_bytes m p k) (p + of_nat (k + i)) = m (p + of_nat (k + i))" if "i < n" for i
    using that by (intro user_write_other) simp
  then have "read_bytes (user_write tr m vaddr (read_bytes m p k)) (p + of_nat k) n = read_bytes m (p + of_nat k) n"
    by (simp add: read_bytes_def add.assoc)
  with False show ?thesis by (simp add: copied_def read_bytes_append user_write_append)
qed

lemma copied_0 [simp]: "copied tr to_phys m p vaddr 0 = m"
  by (simp add: copied_def user_bytes_def)

lemma copy_chunk_copied:
  "copy_law env tr \<Longrightarrow> copy_chunk env to_phys m p vaddr sz = (m', True) \<Longrightarrow> m' = copied tr to_phys m p vaddr (unat sz)"
  unfolding copy_chunk_def copied_def copy_law_def by (cases to_phys) auto

lemma pfn_to_phys_Suc: "pfn_to_phys (pg + 1) = pfn_to_phys pg + 4096"
  by (simp add: pfn_to_phys_def push_bit_eq_mult algebra_simps)

lemma clear_of_rest: "clear_of tr vaddr p (k + n) \<Longrightarrow> k + n \<le> 2 ^ 32 \<Longrightarrow> clear_of tr (vaddr + of_nat k) (p + of_nat k) n"
proof (unfold clear_of_def, intro allI impI)
  fix i assume c: "\<forall>i<k + n. k + n \<le> unat (tr (vaddr + of_nat i) - p)" "k + n \<le> 2 ^ 32" "i < n"
  let ?x = "tr (vaddr + of_nat k + of_nat i)"
  have x: "k + n \<le> unat (?x - p)" using c by (auto simp: add.assoc dest!: spec [of _ "k + i"])
  have "unat (of_nat k :: u32) = k"
    using order_le_less_trans [OF add_leD1 [OF x] unat_lt32] by (simp add: unat_of_nat)
  then have "unat ((?x - p) - of_nat k) = unat (?x - p) - k" using x by (subst unat_sub) (auto simp: word_le_nat_alt)
  then show "n \<le> unat (?x - (p + of_nat k))" using x by (simp add: diff_diff_eq)
qed

lemma copy_pages_step:
  assumes "offs < sz" and "c = (if sz - offs < PAGE_SIZE - page_offs then sz - offs else PAGE_SIZE - page_offs)"
  shows "copy_pages env to_phys vaddr sz m pg page_offs offs =
    (if \<not> kv_kmap_ok env then (Some ENOMEM, m)
     else case copy_chunk env to_phys m (pfn_to_phys pg + page_offs) (vaddr + offs) c of
       (m', ok) \<Rightarrow> if ok then copy_pages env to_phys vaddr sz m' (pg + 1) 0 (offs + c) else (Some EFAULT, m'))"
  unfolding assms(2) using assms(1) by (simp add: copy_pages.simps [of env to_phys vaddr sz m pg page_offs offs] Let_def)

lemma copy_pages_done [simp]: "copy_pages env to_phys vaddr sz m pg page_offs sz = (None, m)"
  by (simp add: copy_pages.simps)

lemma copy_pages_copied:
  "copy_law env tr \<Longrightarrow> copy_pages env to_phys vaddr sz m pg page_offs offs = (None, m') \<Longrightarrow> offs \<le> sz \<Longrightarrow>
    page_offs < PAGE_SIZE \<Longrightarrow> clear_of tr (vaddr + offs) (pfn_to_phys pg + page_offs) (unat (sz - offs)) \<Longrightarrow>
    m' = copied tr to_phys m (pfn_to_phys pg + page_offs) (vaddr + offs) (unat (sz - offs))"
proof (induction env to_phys vaddr sz m pg page_offs offs rule: copy_pages.induct)
  case (1 env to_phys vaddr sz m pg page_offs offs)
  show ?case
  proof (cases "offs < sz")
    case False
    with "1.prems" have "sz = offs" "m' = m" by (auto simp: copy_pages.simps)
    then show ?thesis by simp
  next
    case True
    let ?p = "pfn_to_phys pg + page_offs" and ?v = "vaddr + offs"
    define c where "c = (if sz - offs < PAGE_SIZE - page_offs then sz - offs else PAGE_SIZE - page_offs)"
    obtain m1 ok where ch: "copy_chunk env to_phys m ?p ?v c = (m1, ok)" by fastforce
    have k: "kv_kmap_ok env" "ok" and rest: "copy_pages env to_phys vaddr sz m1 (pg + 1) 0 (offs + c) = (None, m')"
      using "1.prems"(2) ch unfolding copy_pages_step [OF True c_def] by (simp_all split: if_splits)
    have sp: "unat (sz - offs) = unat c + unat (sz - (offs + c))" using chunk_split(1) [OF c_def] by simp
    have m1: "m1 = copied tr to_phys m ?p ?v (unat c)"
      using copy_chunk_copied [OF "1.prems"(1)] ch k(2) by simp
    show ?thesis
    proof (cases "sz - offs < PAGE_SIZE - page_offs")
      case True
      then have "offs + c = sz" by (simp add: c_def)
      with rest m1 sp show ?thesis by (simp add: copy_pages.simps)
    next
      case False
      then have d: "pfn_to_phys (pg + 1) + 0 = ?p + of_nat (unat c)" "vaddr + (offs + c) = ?v + of_nat (unat c)"
        by (simp_all add: pfn_to_phys_Suc c_def PAGE_SIZE_def)
      have b: "unat c + unat (sz - (offs + c)) \<le> 2 ^ 32"
        using sp less_imp_le [OF unat_lt32 [of "sz - offs"]] by simp
      note cl = clear_of_rest [OF "1.prems"(5) [unfolded sp] b]
      have "unat (sz - offs) = unat sz - unat offs" using True by (intro unat_sub) simp
      then have "unat offs + unat c \<le> unat sz" using sp "1.prems"(3) by (simp add: word_le_nat_alt)
      moreover from this have "unat (offs + c) = unat offs + unat c"
        using order_le_less_trans [OF _ unat_lt32 [of sz]] by (intro unat_add_le) simp
      ultimately have "offs + c \<le> sz" by (simp add: word_le_nat_alt)
      then have "m' = copied tr to_phys m1 (pfn_to_phys (pg + 1) + 0) (vaddr + (offs + c)) (unat (sz - (offs + c)))"
        using "1.IH" [OF True _ refl c_def ch [symmetric] refl k(2) "1.prems"(1) rest] k cl
        by (simp only: d) (simp add: PAGE_SIZE_def)
      then show ?thesis
        unfolding d m1 sp using copied_split [OF "1.prems"(5) [unfolded sp] b] by simp
    qed
  qed
qed

lemma phys_split: "pfn_to_phys (phys_to_pfn p) + page_offset p = p" "page_offset p < PAGE_SIZE"
proof -
  have "page_offset p = take_bit 12 p" by (simp add: page_offset_def take_bit_eq_mask mask_eq_exp_minus_1)
  then show "pfn_to_phys (phys_to_pfn p) + page_offset p = p"
    by (simp add: pfn_to_phys_def phys_to_pfn_def bits_ident)
  show "page_offset p < PAGE_SIZE" by (simp add: word_less_nat_alt unat_page_offset)
qed

lemma copy_user_phys_copied:
  assumes "copy_law env tr" and "xrp_copy_user_phys env vaddr sz paddr to_phys m = (None, m')"
    and "clear_of tr vaddr paddr (unat sz)"
  shows "m' = copied tr to_phys m paddr vaddr (unat sz)"
proof (cases "kv_pfn_valid env (phys_to_pfn paddr)")
  case True
  with assms show ?thesis
    using copy_pages_copied [OF assms(1), of to_phys vaddr sz m "phys_to_pfn paddr" "page_offset paddr" 0 m']
    by (simp add: xrp_copy_user_phys_def phys_split)
next
  case False
  with assms show ?thesis
    using copy_chunk_copied [OF assms(1)]
    by (auto simp: xrp_copy_user_phys_def split: if_splits prod.splits)
qed

text \<open>Where a shadow copy is placed.\<close>

lemma shadow_address:
  assumes "4096 dvd unat (s :: u32)" and "offset = v AND 15"
  shows "(s AND - 16) OR offset = s + offset" "unat (s + offset) = unat s + unat offset" "unat offset < 16"
proof -
  have "unat offset = unat v mod 16" using unat_and_mask [of v 4] by (simp add: assms(2) mask_eq_exp_minus_1)
  then show o: "unat offset < 16" by simp
  obtain q where q: "unat s = 4096 * q" using assms(1) by (rule dvdE)
  moreover have "unat s < 4096 * 1048576" using unat_lt32 [of s] by simp
  ultimately have "q < 1048576" by simp
  then have "unat s + unat offset < 2 ^ 32" using q o by simp
  then show "unat (s + offset) = unat s + unat offset" by (rule unat_add_le)
  have "unat (s AND - (2 ^ 4)) = unat s" unfolding unat_and_minus_exp using q by simp
  then have s: "s AND - 16 = s" by (simp add: word_unat_eq_iff)
  have "s AND offset = (s AND - 16) AND (v AND 15)" by (simp only: s assms(2))
  also have "\<dots> = 0" by (rule bit_word_eqI) (auto simp: bit_simps numeral_eq_Suc)
  finally show "(s AND - 16) OR offset = s + offset" by (simp add: s disjunctive_add_eq_or)
qed

lemma copy_virt_contents:
  assumes "refs_ok st rc" and "request_fits (sz + 16) 16" and "kv_cur_ok env" and "copy_law env tr"
    and "unat sz + 16 < 2 ^ 32" and "\<forall>i<unat sz. unat (tr (vaddr + of_nat i)) \<notin> pool_span (k_pool st)"
    and "xvp_copy_virt_to_phys env st flags vaddr sz = Some (Inr am, st')"
  shows "am_vaddr am = vaddr \<and> am_size am = sz \<and> clear_of tr vaddr (am_paddr am) (unat sz) \<and>
    (\<forall>j<unat sz. unat (am_paddr am + of_nat j) \<in> pool_free (k_pool st)) \<and>
    (flags AND XRP_FLAG_READ \<noteq> 0 \<longrightarrow>
       read_bytes (k_mem st') (am_paddr am) (unat sz) = user_bytes tr (k_mem st) vaddr (unat sz))"
proof -
  obtain i st1 where al: "k_allocate env st (sz + 16) 16 = (Inr i, st1)"
    using assms(7) by (auto simp: xvp_copy_virt_to_phys_def Let_def split: prod.splits sum.splits)
  obtain p a where st1: "st1 = st\<lparr>k_pool := p, k_allocs := (k_allocs st)(i \<mapsto> a), k_next := i + 1\<rparr>"
      and a: "bytes a \<subseteq> pool_free (k_pool st)" "eff_align 16 dvd unat (a_start a)" "unat (a_size a) = eff_size (sz + 16)"
    using k_allocate_ok [OF assms(1-3) al] by metis
  define phys where "phys = a_start a + (vaddr AND 15)"
  have page: "4096 dvd unat (a_start a)" using a(2) by (simp add: eff_align_def)
  note ad = shadow_address [OF page refl, of vaddr]
  have nl: "\<not> phys < a_start a" using ad by (simp add: phys_def word_less_nat_alt)
  define c where "c = (if flags AND XRP_FLAG_READ \<noteq> 0 then xrp_copy_user_to_phys env vaddr sz phys (k_mem st)
    else (None, k_mem st))"
  have c: "fst c = None" and am: "am = \<lparr>am_vaddr = vaddr, am_size = sz, am_paddr = phys, am_allocation = i,
      am_type = ALIEN_COPY\<rparr>" and m: "k_mem st' = snd c"
    using assms(7) ad(1) nl
    by (auto simp: xvp_copy_virt_to_phys_def al st1 Let_def c_def phys_def split: if_splits option.splits bind_splits)
  have "unat (sz + 16) = unat sz + 16" using assms(5) by (subst unat_add_le) simp_all
  then have "unat sz + 16 \<le> unat (a_size a)" using a(3) round_up_ge [of 4096 "unat sz + 16"] by (simp add: eff_size_def)
  then have inb: "{unat phys..<unat phys + unat sz} \<subseteq> bytes a"
    using ad by (auto simp: bytes_def phys_def)
  have w: "pool_wf (k_pool st)" using assms(1) by (simp add: refs_ok_def accounted_def)
  have "unat (phys + of_nat j) = unat phys + j" if "j < unat sz" for j
  proof -
    have "unat phys + j \<in> pool_span (k_pool st)" using that inb a(1) pool_free_subset [OF w] by force
    then have "unat phys + j < 2 ^ 32" using w by (simp add: pool_span_def pool_wf_def)
    moreover from this have "unat (of_nat j :: u32) = j" by (simp add: unat_of_nat)
    ultimately show ?thesis by (subst unat_add_le) simp_all
  qed
  with inb a(1) have free: "\<forall>j<unat sz. unat (phys + of_nat j) \<in> pool_free (k_pool st)" by force
  have clear: "clear_of tr vaddr phys (unat sz)" unfolding clear_of_def
  proof (intro allI impI, rule ccontr)
    fix i assume i: "i < unat sz" and "\<not> unat sz \<le> unat (tr (vaddr + of_nat i) - phys)"
    then have "unat (phys + of_nat (unat (tr (vaddr + of_nat i) - phys))) \<in> pool_free (k_pool st)"
      using free by (simp only: not_le)
    then show False using assms(6) i pool_free_subset [OF w] by auto
  qed
  have "read_bytes (k_mem st') phys (unat sz) = user_bytes tr (k_mem st) vaddr (unat sz)"
    if "flags AND XRP_FLAG_READ \<noteq> 0"
  proof -
    have "xrp_copy_user_phys env vaddr sz phys True (k_mem st) = (None, k_mem st')"
      using c m that by (simp add: c_def xrp_copy_user_to_phys_def prod_eq_iff)
    from copy_user_phys_copied [OF assms(4) this clear] show ?thesis
      using less_imp_le [OF unat_lt32 [of sz]] by (simp add: copied_def read_write_bytes)
  qed
  with free clear show ?thesis by (simp add: am)
qed

text \<open>Writing a shadow copy back.\<close>

lemma writeback_contents:
  assumes "copy_law env tr" and "am_type am = ALIEN_COPY" and "clear_of tr (am_vaddr am) (am_paddr am) (unat (am_size am))"
    and "inj_on (\<lambda>i. tr (am_vaddr am + of_nat i)) {..<unat (am_size am)}" and "flags AND XRP_FLAG_WRITE \<noteq> 0"
    and "unshare_alien env st am flags = Some (None, m', st')"
  shows "user_bytes tr (k_mem st') (am_vaddr am) (unat (am_size am)) = read_bytes (k_mem st) (am_paddr am) (unat (am_size am))"
proof -
  let ?n = "unat (am_size am)"
  obtain m where c: "xrp_copy_user_phys env (am_vaddr am) (am_size am) (am_paddr am) False (k_mem st) = (None, m)"
      and put: "k_put (st\<lparr>k_mem := m\<rparr>) (am_allocation am) = Some st'"
    using assms(2,5,6)
    by (auto simp: unshare_alien_def xrp_writeback_alien_mapping_def xrp_copy_user_from_phys_def
        xrp_alien_mapping_destroy_def Let_def split: prod.splits bind_splits if_splits)
  have "k_mem st' = m" using put by (auto simp: k_put_def split: bind_splits prod.splits)
  with copy_user_phys_copied [OF assms(1) c assms(3)] show ?thesis
    using user_bytes_write [of tr "am_vaddr am" "read_bytes (k_mem st) (am_paddr am) ?n" "k_mem st"] assms(4)
    by (simp add: copied_def)
qed

text \<open>Where an alien mapping comes from; a block that is shared as a copy was copied in the state before.\<close>

lemma share_block_alien:
  assumes "xrp_share_block env st filp virt sz flags = Some (Inr (phys, Map_alien am), st')"
  obtains v where "v = None \<or> v = kv_find_vma env virt" "share_alien env st v virt sz flags = Some (Inr am, st')"
    "phys = am_paddr am + virt - am_vaddr am"
proof -
  obtain w where "kv_find_vma env virt = Some w" using assms by (auto simp: xrp_share_block_def split: option.splits)
  then show ?thesis
    using assms that
    by (cases "xvp_get_region_vma_count env virt sz w = 1")
      (auto simp: xrp_share_block_def Let_def split: option.splits if_splits prod.splits bind_splits sum.splits)
qed

lemma copy_virt_type: "xvp_copy_virt_to_phys env st flags vaddr sz = Some (Inr am, st') \<Longrightarrow> am_type am = ALIEN_COPY"
  by (auto simp: xvp_copy_virt_to_phys_def Let_def split: prod.splits sum.splits bind_splits if_splits)

lemma share_block_copy:
  assumes "xrp_share_block env st filp virt sz flags = Some (Inr (phys, Map_alien am), st')"
    and "gup_law env" and "0 < nr_pages virt sz" and "am_type am = ALIEN_COPY"
  shows "xvp_copy_virt_to_phys env st flags virt sz = Some (Inr am, st') \<and> phys = am_paddr am + virt - am_vaddr am"
proof -
  obtain v where al: "share_alien env st v virt sz flags = Some (Inr am, st')" "phys = am_paddr am + virt - am_vaddr am"
    using share_block_alien [OF assms(1)] by blast
  show ?thesis
    by (cases rule: share_in_place_ok [OF assms(2,3), of st v]) (use al assms(4) in \<open>auto simp: share_alien_def\<close>)
qed

subsection \<open>Memory shared in place\<close>

lemma sint_small:
  assumes "unat (x :: u32) < 2 ^ 31"
  shows "sint x = int (unat x)"
proof -
  have "\<not> bit x 31"
  proof
    assume "bit x 31"
    then have "bit (unat x) 31" by (simp add: bit_unsigned_iff)
    with assms show False by (simp add: bit_iff_odd)
  qed
  moreover have "int (unat x) < int (2 ^ 31)" using assms by (simp only: of_nat_less_iff)
  then have "take_bit 31 (uint x) = uint x" by (intro take_bit_int_eq_self) simp_all
  ultimately show ?thesis by (simp add: sint_uint signed_take_bit_eq_if_positive bit_uint_iff)
qed

lemma nr_pages_eq:
  assumes "unat vaddr + unat sz + 4095 < 2 ^ 32"
  shows "nr_pages vaddr sz = int ((unat vaddr mod 4096 + unat sz + 4095) div 4096)"
proof -
  let ?n = "(unat vaddr mod 4096 + unat sz + 4095) div 4096"
  have "vaddr + sz + PAGE_SIZE - 1 = of_nat (unat vaddr + unat sz + 4095)" by (simp add: PAGE_SIZE_def)
  then have u: "unat (vaddr + sz + PAGE_SIZE - 1) = unat vaddr + unat sz + 4095"
    using assms by (simp only: unat_of_nat) simp
  have s: "unat vaddr + unat sz + 4095 = (unat vaddr mod 4096 + unat sz + 4095) + unat vaddr div 4096 * 4096"
    using div_mult_mod_eq [of "unat vaddr" 4096] by linarith
  have e: "(unat vaddr + unat sz + 4095) div 4096 = ?n + unat vaddr div 4096"
    unfolding s by (subst div_mult_self1) simp_all
  have d: "unat (drop_bit 12 x :: u32) = unat x div 4096" for x :: u32
    by (simp only: unat_drop_bit_eq) (simp add: drop_bit_eq_div)
  have "unat (page_count vaddr sz) = ?n"
    using d [of vaddr] d [of "vaddr + sz + PAGE_SIZE - 1"] u e unfolding page_count_def
    by (subst unat_sub) (unfold word_le_nat_alt, simp_all only:, simp_all)
  moreover have "?n < 2 ^ 31" using assms mod_le_divisor [of 4096 "unat vaddr"] by (simp add: less_mult_imp_div_less)
  ultimately show ?thesis
    unfolding nr_pages_def by (subst sint_small) simp_all
qed

text \<open>
  The physical page behind the \<open>i\<close>-th page of a region, as the kernel reports it; what is relied on of
  \<open>follow_pfn\<close>, and of an address map whose windows consist of whole pages.
\<close>

definition backing :: "kenv \<Rightarrow> vma \<Rightarrow> alien_type \<Rightarrow> u32 \<Rightarrow> u32 \<Rightarrow> nat \<Rightarrow> u32 option" where
  "backing env v t virt sz i =
     (case t of
        ALIEN_GUP \<Rightarrow> (case kv_gup env virt (nr_pages virt sz) of Inl e \<Rightarrow> None | Inr ps \<Rightarrow> Some (ps ! i))
      | ALIEN_PFN_MAP \<Rightarrow> (case kv_follow_pfn env v (virt + push_bit 12 (of_nat i)) of Inl e \<Rightarrow> None | Inr p \<Rightarrow> Some p)
      | ALIEN_COPY \<Rightarrow> None)"

definition pfn_law :: "kenv \<Rightarrow> bool" where
  "pfn_law env \<longleftrightarrow> (\<forall>v addr p. kv_follow_pfn env v addr = Inr p \<longrightarrow> unat p < 2 ^ 20)"

definition page_granular :: "xrp_address_map \<Rightarrow> bool" where
  "page_granular m \<longleftrightarrow> (\<forall>e\<in>set (map_entries m).
     4096 dvd unat (src_addr e) \<and> 4096 dvd unat (e_size e) \<and> unat (src_addr e) + unat (e_size e) \<le> 2 ^ 32)"

text \<open>The pages \<open>pfn\<close>, \<open>pfn + 1\<close>, ... behind the region are in one window of the map.\<close>

definition one_window :: "kenv \<Rightarrow> u32 \<Rightarrow> nat \<Rightarrow> bool" where
  "one_window env pfn n \<longleftrightarrow> unat pfn + n \<le> 2 ^ 20 \<and>
     (\<exists>e\<in>set (map_entries (kv_map env)). \<forall>i<n. covers e (pfn_to_phys (pfn + of_nat i)))"

lemma pages_below:
  assumes "\<And>i. i < n \<Longrightarrow> unat (p + of_nat i :: u32) < 2 ^ 20" and "0 < n"
  shows "unat p + n \<le> 2 ^ 20"
proof (rule ccontr)
  assume no: "\<not> unat p + n \<le> 2 ^ 20"
  show False
  proof -
    have p: "unat p < 2 ^ 20" using assms(1) [of 0] assms(2) by simp
    define i where "i = 2 ^ 20 - unat p"
    have i: "i < n" "unat p + i = 2 ^ 20" using no p by (simp_all add: i_def)
    have "unat (of_nat i :: u32) = i" using i by (simp add: unat_of_nat)
    then have "unat (p + of_nat i) = unat p + i" using i by (subst unat_add_le) simp_all
    with assms(1) [OF i(1)] i(2) show False by simp
  qed
qed

lemma window_page:
  assumes "page_granular m" and "e \<in> set (map_entries m)" and "unat p < 2 ^ 20"
    and "covers e (pfn_to_phys p + page_offset v)"
  shows "covers e (pfn_to_phys p)" "r < 4096 \<Longrightarrow> unat a = 4096 * unat p + r \<Longrightarrow> covers e a"
proof -
  obtain s n where e: "unat (src_addr e) = 4096 * s" "unat (e_size e) = 4096 * n"
    using assms(1,2) by (metis page_granular_def dvdE)
  have "4096 * s \<le> 4096 * unat p + unat v mod 4096" "4096 * unat p + unat v mod 4096 < 4096 * s + 4096 * n"
    using assms(4) by (simp_all add: covers_def phys_page(2) [OF assms(3)] e)
  moreover have "unat v mod 4096 < 4096" by simp
  ultimately have w: "s \<le> unat p" "unat p < s + n" by linarith+
  then show "covers e (pfn_to_phys p)" by (simp add: covers_def e unat_pfn_to_phys [OF assms(3)])
  assume "r < 4096" "unat a = 4096 * unat p + r"
  with w show "covers e a" by (simp add: covers_def e)
qed

lemma one_window_translate:
  assumes "one_window env pfn n" and "map_wf (kv_map env)" and "page_granular (kv_map env)"
    and "(unat v mod 4096 + off) div 4096 < n" and "paddr = pfn_to_phys pfn + page_offset v"
  shows "xrp_translate_to_dsp (kv_map env) (paddr + of_nat off) = xrp_translate_to_dsp (kv_map env) paddr + of_nat off"
    "phys_to_pfn (paddr + of_nat off) = pfn + of_nat ((unat v mod 4096 + off) div 4096)"
    "xrp_get_address_mapping (kv_map env) (paddr + of_nat off) \<noteq> None"
proof -
  obtain e where e: "e \<in> set (map_entries (kv_map env))" "\<And>i. i < n \<Longrightarrow> covers e (pfn_to_phys (pfn + of_nat i))"
      and n: "unat pfn + n \<le> 2 ^ 20"
    using assms(1) unfolding one_window_def by blast
  have at: "unat (paddr + of_nat o') = 4096 * unat (pfn + of_nat ((unat v mod 4096 + o') div 4096)) + (unat v mod 4096 + o') mod 4096 \<and>
      unat (pfn + of_nat ((unat v mod 4096 + o') div 4096)) < 2 ^ 20 \<and> covers e (paddr + of_nat o')"
    if o': "(unat v mod 4096 + o') div 4096 < n" for o'
  proof -
    let ?i = "(unat v mod 4096 + o') div 4096" and ?r = "(unat v mod 4096 + o') mod 4096"
    have ir: "unat v mod 4096 + o' = 4096 * ?i + ?r" "?r < 4096" by simp_all
    have "unat (of_nat ?i :: u32) = ?i" using n o' by (simp add: unat_of_nat)
    then have pi: "unat (pfn + of_nat ?i) = unat pfn + ?i" using n o' by (subst unat_add_le) simp_all
    have p0: "unat pfn < 2 ^ 20" using n o' by simp
    have "4096 * (unat pfn + ?i) + ?r < 2 ^ 32" using n o' ir(2) by simp
    then have lt: "unat paddr + o' < 2 ^ 32" using ir(1) by (simp add: assms(5) phys_page(2) [OF p0])
    then have "unat (of_nat o' :: u32) = o'" by (simp add: unat_of_nat)
    then have "unat (paddr + of_nat o') = unat paddr + o'" using lt by (subst unat_add_le) simp_all
    then have u: "unat (paddr + of_nat o') = 4096 * unat (pfn + of_nat ?i) + ?r"
      using ir(1) by (simp add: pi assms(5) phys_page(2) [OF p0])
    have l: "unat (pfn + of_nat ?i) < 2 ^ 20" using pi n o' by simp
    have "covers e (pfn_to_phys (pfn + of_nat ?i) + page_offset 0)" using e(2) [OF o'] by (simp add: page_offset_def)
    from window_page(2) [OF assms(3) e(1) l this ir(2) u] u l show ?thesis by simp
  qed
  from at [OF assms(4)] have g: "xrp_get_address_mapping (kv_map env) (paddr + of_nat off) = Some e"
    using get_address_mapping_iff [OF assms(2)] e(1) by blast
  then show "xrp_get_address_mapping (kv_map env) (paddr + of_nat off) \<noteq> None" by simp
  have "unat v mod 4096 div 4096 \<le> (unat v mod 4096 + off) div 4096" by (rule div_le_mono) simp
  then have "(unat v mod 4096 + 0) div 4096 < n" using assms(4) by simp
  from at [OF this] have "xrp_get_address_mapping (kv_map env) paddr = Some e"
    using get_address_mapping_iff [OF assms(2)] e(1) by simp
  with g show "xrp_translate_to_dsp (kv_map env) (paddr + of_nat off) = xrp_translate_to_dsp (kv_map env) paddr + of_nat off"
    by (simp add: xrp_translate_to_dsp_def)
  have "unat (phys_to_pfn (paddr + of_nat off)) = unat (paddr + of_nat off) div 4096"
    unfolding phys_to_pfn_def unat_drop_bit_eq by (simp add: drop_bit_eq_div)
  then have "unat (phys_to_pfn (paddr + of_nat off)) = unat (pfn + of_nat ((unat v mod 4096 + off) div 4096))"
    using at [OF assms(4)] by simp
  then show "phys_to_pfn (paddr + of_nat off) = pfn + of_nat ((unat v mod 4096 + off) div 4096)"
    by (simp only: word_unat_eq_iff)
qed

text \<open>What a successful run of the two loops has established.\<close>

lemma pfn_loop_None:
  "pfn_loop env v e vaddr pfn i k = None \<Longrightarrow> j < k \<Longrightarrow>
     kv_follow_pfn env v (vaddr + push_bit 12 (i + of_nat j)) = Inr (pfn + 1 + of_nat j) \<and>
     covers e (pfn_to_phys (pfn + 1 + of_nat j))"
proof (induction k arbitrary: pfn i j)
  case (Suc k)
  then have s: "kv_follow_pfn env v (vaddr + push_bit 12 i) = Inr (pfn + 1)" "covers e (pfn_to_phys (pfn + 1))"
      "pfn_loop env v e vaddr (pfn + 1) (i + 1) k = None"
    by (auto simp: compare_address_covers split: sum.splits if_splits)
  show ?case
  proof (cases j)
    case (Suc j')
    then show ?thesis using Suc.IH [OF s(3), of j'] Suc.prems(2) by (simp add: algebra_simps)
  qed (use s in simp)
qed simp

lemma gup_contiguous_covers:
  "gup_contiguous e p ps \<Longrightarrow> q \<in> set ps \<Longrightarrow> covers e (pfn_to_phys q)"
  by (induction ps arbitrary: p) (auto simp: compare_address_covers)

definition in_window :: "kenv \<Rightarrow> vma \<Rightarrow> u32 \<Rightarrow> u32 \<Rightarrow> xrp_alien_mapping \<Rightarrow> bool" where
  "in_window env v virt sz am \<longleftrightarrow> am_vaddr am = virt \<and>
     (\<exists>pfn. am_paddr am = pfn_to_phys pfn + page_offset virt \<and> one_window env pfn (nat (nr_pages virt sz)) \<and>
        (\<forall>i<nat (nr_pages virt sz). backing env v (am_type am) virt sz i = Some (pfn + of_nat i)))"

lemma pfn_in_window:
  assumes "xvp_pfn_virt_to_phys env v virt sz = Inr am" and "pfn_law env" and "map_wf (kv_map env)"
    and "page_granular (kv_map env)" and "0 < nr_pages virt sz"
  shows "in_window env v virt sz am"
proof -
  let ?n = "nat (nr_pages virt sz)"
  obtain pfn e where f: "kv_follow_pfn env v virt = Inr pfn"
      and e: "xrp_get_address_mapping (kv_map env) (pfn_to_phys pfn + page_offset virt) = Some e"
      and l: "pfn_loop env v e virt pfn 1 (?n - 1) = None"
      and am: "am_vaddr am = virt" "am_paddr am = pfn_to_phys pfn + page_offset virt" "am_type am = ALIEN_PFN_MAP"
    using assms(1) by (auto simp: xvp_pfn_virt_to_phys_def Let_def split: sum.splits option.splits)
  have em: "e \<in> set (map_entries (kv_map env))" "covers e (pfn_to_phys pfn + page_offset virt)"
    using e get_address_mapping_iff [OF assms(3)] by auto
  have p0: "unat pfn < 2 ^ 20" using assms(2) f by (auto simp: pfn_law_def)
  have all: "kv_follow_pfn env v (virt + push_bit 12 (of_nat i)) = Inr (pfn + of_nat i) \<and> covers e (pfn_to_phys (pfn + of_nat i))"
    if i: "i < ?n" for i
  proof (cases i)
    case 0
    then show ?thesis using f window_page(1) [OF assms(4) em(1) p0 em(2)] by simp
  next
    case (Suc j)
    then show ?thesis using pfn_loop_None [OF l, of j] i by (simp add: add.assoc)
  qed
  moreover have "unat pfn + ?n \<le> 2 ^ 20"
    using all assms(2,5) by (intro pages_below) (auto simp: pfn_law_def)
  ultimately have "one_window env pfn ?n" using em(1) by (auto simp: one_window_def)
  with all am show ?thesis by (auto simp: in_window_def backing_def)
qed

lemma gup_in_window:
  assumes "xvp_gup_virt_to_phys env st virt sz = Some (Inr am, st')" and "gup_law env" and "map_wf (kv_map env)"
    and "0 < nr_pages virt sz"
  shows "in_window env v virt sz am"
proof -
  let ?n = "nat (nr_pages virt sz)"
  obtain p0 ps e where g: "kv_gup env virt (nr_pages virt sz) = Inr (p0 # ps)" "nr_pages virt sz \<le> int (length (p0 # ps))"
      and e: "xrp_get_address_mapping (kv_map env) (pfn_to_phys p0) = Some e" and c: "gup_contiguous e p0 ps"
      and am: "am_vaddr am = virt" "am_paddr am = pfn_to_phys p0 + page_offset virt" "am_type am = ALIEN_GUP"
    using assms(1)
    by (auto simp: xvp_gup_virt_to_phys_def Let_def split: if_splits sum.splits list.splits option.splits bind_splits)
  have law: "length (p0 # ps) \<le> ?n" "\<forall>p\<in>set (p0 # ps). unat p < 2 ^ 20"
    using assms(2) g(1) unfolding gup_law_def by blast+
  then have n: "?n = Suc (length ps)" using g(2) by simp
  have nth: "(p0 # ps) ! i = p0 + of_nat i" if "i < ?n" for i
    using gup_contiguous_upt [OF c] that by (simp only: n) (simp add: nth_append del: upt_Suc)
  have em: "e \<in> set (map_entries (kv_map env))" "covers e (pfn_to_phys p0)"
    using e get_address_mapping_iff [OF assms(3)] by auto
  have mem: "p0 + of_nat i \<in> set (p0 # ps)" if "i < ?n" for i
    using nth [OF that] that n by (metis length_Cons nth_mem)
  have "covers e (pfn_to_phys (p0 + of_nat i))" if "i < ?n" for i
    using mem [OF that] em(2) gup_contiguous_covers [OF c, of "p0 + of_nat i"] by (auto simp del: add_cancel_left_right)
  moreover have "unat p0 + ?n \<le> 2 ^ 20" using law(2) mem assms(4) by (intro pages_below) (blast, simp)
  ultimately have "one_window env p0 ?n" using em(1) by (auto simp: one_window_def)
  with nth am g(1) show ?thesis by (auto simp: in_window_def backing_def)
qed

subsection \<open>The areas of a region\<close>

text \<open>
  With the documented behaviour of \<open>find_vma\<close>, that the area it returns ends behind the address, every
  step of the loop moves to an area with a higher end: a bound of \<open>2 ^ 32\<close> areas is never reached.
\<close>

lemma vma_chain_enough:
  assumes "\<forall>addr v. kv_find_vma env addr = Some v \<longrightarrow> addr < vm_end v"
    and "2 ^ 32 \<le> unat (vm_end v) + k" and "k \<le> k'"
  shows "vma_chain env virt sz v i k' = vma_chain env virt sz v i k"
  using assms(2,3)
proof (induction k arbitrary: v i k')
  case 0
  then have "4294967296 \<le> unat (vm_end v)" by simp
  then show ?case using unat_lt32 [of "vm_end v"] by linarith
next
  case (Suc k)
  obtain k'' where k'': "k' = Suc k''" "k \<le> k''" using Suc.prems(2) by (cases k') auto
  have "2 ^ 32 \<le> unat (vm_end w) + k" if "kv_find_vma env (vm_end v) = Some w" for w
  proof -
    have "unat (vm_end v) < unat (vm_end w)" using assms(1) that by (simp add: word_less_nat_alt)
    then show ?thesis using Suc.prems(1) by linarith
  qed
  then have "vma_chain env virt sz w (i + 1) k'' = vma_chain env virt sz w (i + 1) k"
    if "kv_find_vma env (vm_end v) = Some w" for w
    using Suc.IH k''(2) that by blast
  then show ?case unfolding k''(1) vma_chain.simps by (simp split: option.split)
qed

subsection \<open>Properties\<close>

text \<open>
  A machine with identical virtual and physical addresses, one window of the DSP and a pool of four
  pages; \<open>pages_ok\<close> is whether user pages can be pinned.
\<close>

definition sample_vma :: vma where
  "sample_vma = \<lparr>vm_start = 0x8000, vm_end = 0x20000, vm_file = None, vm_pgoff = 0, vm_private_data = 0, vm_pfnmap = False\<rparr>"

definition sample_env :: "bool \<Rightarrow> kenv" where
  "sample_env pages_ok =
     \<lparr>kv_find_vma = \<lambda>addr. if addr < 0x20000 then Some sample_vma else None, kv_vma_bound = 1,
      kv_follow_pfn = \<lambda>v addr. Inr (drop_bit 12 addr),
      kv_gup = \<lambda>addr n. if pages_ok \<and> 0 < n \<and> unat addr + 4096 * nat n < 2 ^ 32
        then Inr (map (\<lambda>i. drop_bit 12 addr + of_nat i) [0..<nat n]) else Inl EFAULT,
      kv_copy_from_user = \<lambda>m p vaddr n. (write_bytes m p (read_bytes m vaddr n), True),
      kv_copy_to_user = \<lambda>m vaddr p n. (write_bytes m vaddr (read_bytes m p n), True),
      kv_get_user = \<lambda>m vaddr n. Some (read_bytes m vaddr n), kv_put_user = \<lambda>m vaddr bs. (write_bytes m vaddr bs, True),
      kv_pfn_valid = \<lambda>p. True, kv_ioremap_ok = True, kv_kmap_ok = True, kv_kmalloc_ok = True,
      kv_buffer_mapping_ok = True, kv_dsp_buffer = Some 0x50000,
      kv_new_ok = True, kv_cur_ok = True, kv_pa = \<lambda>v. v, kv_file_pmem = \<lambda>f. 0,
      kv_map = \<lparr>map_entries = [\<lparr>src_addr = 0, dst_addr = 0x60000000, e_size = 0x10000000\<rparr>]\<rparr>\<rparr>"

definition sample_kst :: kst where
  "sample_kst = \<lparr>k_mem = \<lambda>a. ucast a, k_pool = \<lparr>p_start = 0x100000, p_size = 0x4000,
       free_list = [\<lparr>a_start = 0x100000, a_size = 0x4000, a_ref = 0\<rparr>]\<rparr>,
     k_allocs = \<lambda>_. None, k_next = 0, k_pins = \<lambda>_. 0, k_dirty = \<lambda>_. False, k_known = []\<rparr>"

lemma sample_kinv: "kinv sample_kst (\<lambda>_. 0) (\<lambda>_. 0) []"
  by (auto simp: kinv_def refs_ok_def sample_kst_def accounted_def tiles_def pool_wf_def pool_free_def pool_span_def
      live_of_def map_filter_simps bytes_def)

lemma sample_laws: "gup_law (sample_env ok)" "pfn_law (sample_env ok)" "areas_hold (sample_env ok) filp known rf"
  "map_wf (kv_map (sample_env ok))" "page_granular (kv_map (sample_env ok))" "kv_cur_ok (sample_env ok)"
proof -
  have pfn: "unat (drop_bit 12 a :: u32) = unat a div 4096" for a :: u32
    by (simp only: unat_drop_bit_eq) (simp add: drop_bit_eq_div)
  have lt: "unat a div 4096 < 1048576" for a :: u32 by (rule less_mult_imp_div_less) (use unat_lt32 [of a] in simp)
  then show "pfn_law (sample_env ok)" unfolding pfn_law_def by (simp add: sample_env_def pfn del: drop_bit_eq_div)
  show "gup_law (sample_env ok)"
  proof (unfold gup_law_def, intro allI impI)
    fix vaddr n ps assume g: "kv_gup (sample_env ok) vaddr n = Inr ps"
    then have ps: "ps = map (\<lambda>i. drop_bit 12 vaddr + of_nat i) [0..<nat n]" and n: "unat vaddr + 4096 * nat n < 2 ^ 32"
      by (auto simp: sample_env_def split: if_splits)
    have "unat (drop_bit 12 vaddr + of_nat i :: u32) < 2 ^ 20" if "i < nat n" for i
    proof -
      have "unat (of_nat i :: u32) = i" using n that by (simp add: unat_of_nat)
      moreover have "unat vaddr div 4096 + i < 2 ^ 20" using n that by simp
      ultimately show ?thesis by (subst unat_add_le) (simp_all only: pfn, simp_all)
    qed
    then show "length ps \<le> nat n \<and> (\<forall>p\<in>set ps. unat p < 2 ^ 20)" by (auto simp: ps)
  qed
qed (auto simp: areas_hold_def sample_env_def sample_vma_def map_wf_def page_granular_def)

lemma sample_copy_law: "copy_law (sample_env ok) (\<lambda>a. a)"
proof -
  have "user_write (\<lambda>a. a) m vaddr bs = write_bytes m vaddr bs" for m vaddr bs
    by (induction bs arbitrary: m vaddr) simp_all
  then show ?thesis by (simp add: copy_law_def sample_env_def user_bytes_def read_bytes_def)
qed

text \<open>
  C14: A user block that the driver shares in place is, page by page, the physically contiguous memory
  that the kernel reports behind the user's pages, and the DSP can address all of it from the
  translated start address on: byte \<open>off\<close> of the block is byte \<open>off\<close> on the DSP's side.
\<close>

theorem shared_in_place_contiguous:
  assumes "xrp_share_block env st filp virt sz flags = Some (Inr (phys, Map_alien am), st')"
    and "am_type am \<noteq> ALIEN_COPY" and "gup_law env" and "pfn_law env"
    and "map_wf (kv_map env)" and "page_granular (kv_map env)"
    and "unat virt + unat sz + 4095 < 2 ^ 32" and "off < unat sz"
  shows "xrp_translate_to_dsp (kv_map env) (phys + of_nat off) = xrp_translate_to_dsp (kv_map env) phys + of_nat off \<and>
    xrp_get_address_mapping (kv_map env) (phys + of_nat off) \<noteq> None \<and>
    backing env (the (kv_find_vma env virt)) (am_type am) virt sz ((unat virt mod 4096 + off) div 4096) =
      Some (phys_to_pfn (phys + of_nat off))"
proof -
  let ?v = "the (kv_find_vma env virt)" and ?i = "(unat virt mod 4096 + off) div 4096"
  have i: "?i < nat (nr_pages virt sz)"
  proof -
    have "unat virt mod 4096 + off + 4096 \<le> unat virt mod 4096 + unat sz + 4095" using assms(8) by simp
    then have "(unat virt mod 4096 + off + 4096) div 4096 \<le> (unat virt mod 4096 + unat sz + 4095) div 4096"
      by (rule div_le_mono)
    then show ?thesis by (simp add: nr_pages_eq [OF assms(7)])
  qed
  then have pos: "0 < nr_pages virt sz" by simp
  obtain v where v: "v = None \<or> v = kv_find_vma env virt" and al: "share_alien env st v virt sz flags = Some (Inr am, st')"
      and ph: "phys = am_paddr am + virt - am_vaddr am"
    using share_block_alien [OF assms(1)] by blast
  have "share_in_place env st v virt sz = Some (Inr am, st')"
    using al assms(2) copy_virt_type by (auto simp: share_alien_def split: bind_splits sum.splits)
  then have "in_window env ?v virt sz am"
    using v pfn_in_window [OF _ assms(4-6) pos] gup_in_window [OF _ assms(3,5) pos]
    by (auto simp: share_in_place_def split: option.splits if_splits dest: sym)
  then obtain pfn where "am_vaddr am = virt" "am_paddr am = pfn_to_phys pfn + page_offset virt"
      "one_window env pfn (nat (nr_pages virt sz))" "backing env ?v (am_type am) virt sz ?i = Some (pfn + of_nat ?i)"
    using i unfolding in_window_def by blast
  with ph show ?thesis
    using one_window_translate [OF _ assms(5,6) i, of pfn phys] by simp
qed

theorem shared_in_place_contiguous_witness:
  "xrp_translate_to_dsp (kv_map (sample_env True)) (0x8010 + of_nat 0x1ff0) =
     xrp_translate_to_dsp (kv_map (sample_env True)) 0x8010 + of_nat 0x1ff0"
proof -
  let ?am = "\<lparr>am_vaddr = 0x8010, am_size = 0x2000, am_paddr = 0x8010, am_allocation = 0, am_type = ALIEN_GUP\<rparr>"
  have "xrp_share_block (sample_env True) sample_kst 0 0x8010 0x2000 XRP_FLAG_READ =
      Some (Inr (0x8010, Map_alien ?am), sample_kst\<lparr>k_pins := (\<lambda>_. 0)(8 := 1, 9 := 1, 10 := 1)\<rparr>)"
  proof -
    have "kv_find_vma (sample_env True) 0x8010 = Some sample_vma" "xvp_get_region_vma_count (sample_env True) 0x8010 0x2000 sample_vma = 1"
      by (simp_all add: sample_env_def sample_vma_def xvp_get_region_vma_count_def)
    moreover have "share_native (sample_env True) sample_kst 0 (Some sample_vma) 0x8010 0x2000 = None"
      by (simp add: share_native_def sample_vma_def)
    moreover have n: "nr_pages 0x8010 0x2000 = 3" by (simp add: nr_pages_def page_count_def PAGE_SIZE_def)
    have "xvp_gup_virt_to_phys (sample_env True) sample_kst 0x8010 0x2000 =
        Some (Inr ?am, sample_kst\<lparr>k_pins := (\<lambda>_. 0)(8 := 1, 9 := 1, 10 := 1)\<rparr>)"
      unfolding xvp_gup_virt_to_phys_def n
      by (simp add: sample_env_def sample_kst_def upt_rec Let_def xrp_get_address_mapping_def bsearch_step
          xrp_compare_address_def pfn_to_phys_def page_offset_def)
    ultimately show ?thesis
      by (simp add: xrp_share_block_def share_alien_def share_in_place_def sample_vma_def)
  qed
  from shared_in_place_contiguous [OF this _ sample_laws(1,2,4,5), of "0x1ff0"] show ?thesis by simp
qed

text \<open>
  C12: A user block that the driver has to share as a shadow copy: the DSP finds the user's bytes at the
  physical address it is given, and after the block is unshared the user finds the bytes the DSP left
  there, whatever the DSP did (\<open>m\<close> is the memory then).
\<close>

theorem shadow_copy_roundtrip:
  assumes "kinv st rf pf ms" and "gup_law env" and "copy_law env tr" and "kv_cur_ok env"
    and "xrp_share_block env st filp virt sz flags = Some (Inr (phys, Map_alien am), st1)" and "am_type am = ALIEN_COPY"
    and "request_fits (sz + 16) 16" and "unat sz + 16 < 2 ^ 32" and "0 < nr_pages virt sz"
    and "\<forall>i<unat sz. unat (tr (virt + of_nat i)) \<notin> pool_span (k_pool st)"
    and "inj_on (\<lambda>i. tr (virt + of_nat i)) {..<unat sz}"
  shows "(flags AND XRP_FLAG_READ \<noteq> 0 \<longrightarrow>
       read_bytes (k_mem st1) phys (unat sz) = user_bytes tr (k_mem st) virt (unat sz)) \<and>
    (flags AND XRP_FLAG_WRITE \<noteq> 0 \<longrightarrow>
       xrp_unshare_block env (st1\<lparr>k_mem := m\<rparr>) (Map_alien am) flags = Some (None, Map_none, st2) \<longrightarrow>
       user_bytes tr (k_mem st2) virt (unat sz) = read_bytes m phys (unat sz))"
proof -
  have c: "xvp_copy_virt_to_phys env st flags virt sz = Some (Inr am, st1)" "phys = am_paddr am + virt - am_vaddr am"
    using share_block_copy [OF assms(5,2,9,6)] by simp_all
  have "refs_ok st (\<lambda>i. rf i + (\<Sum>m\<leftarrow>ms. count_list (map_refs m) i))" using assms(1) by (simp add: kinv_def)
  note C = copy_virt_contents [OF this assms(7,4,3,8,10) c(1)]
  then have am: "am_vaddr am = virt" "am_size am = sz" "phys = am_paddr am" using c(2) by simp_all
  have "user_bytes tr (k_mem st2) virt (unat sz) = read_bytes m phys (unat sz)"
    if "flags AND XRP_FLAG_WRITE \<noteq> 0" "xrp_unshare_block env (st1\<lparr>k_mem := m\<rparr>) (Map_alien am) flags = Some (None, Map_none, st2)"
    using writeback_contents [OF assms(3,6) _ _ that(1), of "st1\<lparr>k_mem := m\<rparr>" Map_none st2] that(2) C am assms(11)
    by (simp add: xrp_unshare_block_def)
  with C am show ?thesis by simp
qed

text \<open>The block of the witness: three bytes at \<open>0x8005\<close>, copied to the first page of the pool.\<close>

definition sample_copy_st :: kst where
  "sample_copy_st = sample_kst\<lparr>k_mem := write_bytes (k_mem sample_kst) 0x100005 [5, 6, 7],
     k_pool := \<lparr>p_start = 0x100000, p_size = 0x4000, free_list = [\<lparr>a_start = 0x101000, a_size = 0x3000, a_ref = 0\<rparr>]\<rparr>,
     k_allocs := [0 \<mapsto> \<lparr>a_start = 0x100000, a_size = 0x1000, a_ref = 1\<rparr>], k_next := 1\<rparr>"

definition sample_copy_am :: xrp_alien_mapping where
  "sample_copy_am = \<lparr>am_vaddr = 0x8005, am_size = 3, am_paddr = 0x100005, am_allocation = 0, am_type = ALIEN_COPY\<rparr>"

lemma sample_share_copy:
  "xrp_share_block (sample_env False) sample_kst 0 0x8005 3 XRP_FLAG_READ_WRITE =
     Some (Inr (0x100005, Map_alien sample_copy_am), sample_copy_st)"
proof -
  have "kv_find_vma (sample_env False) 0x8005 = Some sample_vma" "xvp_get_region_vma_count (sample_env False) 0x8005 3 sample_vma = 1"
    by (simp_all add: sample_env_def sample_vma_def xvp_get_region_vma_count_def)
  moreover have "share_native (sample_env False) sample_kst 0 (Some sample_vma) 0x8005 3 = None"
    by (simp add: share_native_def sample_vma_def)
  moreover have "xvp_gup_virt_to_phys (sample_env False) sample_kst 0x8005 3 = Some (Inl EFAULT, sample_kst)"
    by (simp add: xvp_gup_virt_to_phys_def sample_env_def)
  moreover have "xvp_copy_virt_to_phys (sample_env False) sample_kst XRP_FLAG_READ_WRITE 0x8005 3 =
      Some (Inr sample_copy_am, sample_copy_st)"
  proof -
    have "k_allocate (sample_env False) sample_kst 19 16 = (Inr 0, sample_copy_st\<lparr>k_mem := k_mem sample_kst\<rparr>)"
      by (simp add: k_allocate_def sample_env_def sample_kst_def sample_copy_st_def xrp_private_alloc_def ALIGN_def
          PAGE_SIZE_def carve_block_def)
    moreover have "xrp_copy_user_to_phys (sample_env False) 0x8005 3 0x100005 (k_mem sample_kst) = (None, k_mem sample_copy_st)"
    proof -
      have "phys_to_pfn 0x100005 = 0x100" "page_offset 0x100005 = 5" "pfn_to_phys 0x100 = 0x100000"
        by (simp_all add: phys_to_pfn_def page_offset_def pfn_to_phys_def)
      moreover have "read_bytes (k_mem sample_kst) 0x8005 3 = [5, 6, 7]"
        by (simp add: read_bytes_def sample_kst_def upt_rec)
      ultimately show ?thesis
        by (simp add: xrp_copy_user_to_phys_def xrp_copy_user_phys_def copy_pages_step [OF _ refl] PAGE_SIZE_def copy_chunk_def
            sample_copy_st_def) (simp add: sample_env_def)
    qed
    ultimately show ?thesis
      by (simp add: xvp_copy_virt_to_phys_def Let_def XRP_FLAG_READ_WRITE_def XRP_FLAG_READ_def sample_copy_am_def)
        (simp add: sample_copy_st_def sample_copy_am_def)
  qed
  ultimately show ?thesis
    by (simp add: xrp_share_block_def share_alien_def share_in_place_def sample_vma_def sample_copy_am_def)
qed

theorem shadow_copy_roundtrip_witness:
  "read_bytes (k_mem sample_copy_st) 0x100005 3 = user_bytes (\<lambda>a. a) (k_mem sample_kst) 0x8005 3"
proof -
  have u: "unat (3 :: u32) = Suc (Suc (Suc 0))" by simp
  have "\<forall>i<unat (3 :: u32). unat (0x8005 + of_nat i :: u32) \<notin> pool_span (k_pool sample_kst)"
    unfolding u by (auto simp: less_Suc_eq pool_span_def sample_kst_def)
  moreover have "inj_on (\<lambda>i. 0x8005 + of_nat i :: u32) {..<unat (3 :: u32)}"
    unfolding u by (auto simp: inj_on_def less_Suc_eq)
  ultimately show ?thesis
    using shadow_copy_roundtrip [OF sample_kinv sample_laws(1) sample_copy_law sample_laws(6) sample_share_copy]
    by (simp add: sample_copy_am_def request_fits_def eff_size_def eff_align_def round_up_def nr_pages_def page_count_def
        PAGE_SIZE_def XRP_FLAG_READ_WRITE_def XRP_FLAG_READ_def)
qed

text \<open>
  C13: Sharing a block and unsharing it leaves the books as they were: whatever other mappings \<open>ms\<close> are
  alive, the call never touches a released object, on success exactly the new mapping holds an
  additional reference or additional pins, on failure nothing does, and unsharing (with any flags, after
  any change of memory by the DSP) gives back exactly what the mapping held.
\<close>

theorem share_unshare_balanced:
  assumes "kinv st rf pf ms" and "gup_law env" and "areas_hold env filp (k_known st) rf" and "kv_cur_ok env"
    and "request_fits (sz + 16) 16" and "0 < nr_pages virt sz"
    and "\<forall>i. rf i + (\<Sum>m\<leftarrow>ms. count_list (map_refs m) i) + 1 < 2 ^ 32"
  shows "\<exists>r st'. xrp_share_block env st filp virt sz flags = Some (r, st') \<and>
    (case r of
       Inl e \<Rightarrow> e = EINVAL \<and> kinv st' rf pf ms
     | Inr (phys, m) \<Rightarrow> kinv st' rf pf (m # ms) \<and>
         (\<forall>mem fl. \<exists>e st''. xrp_unshare_block env (st'\<lparr>k_mem := mem\<rparr>) m fl = Some (e, Map_none, st'') \<and>
            kinv st'' rf pf ms))"
proof (cases rule: share_block_ok [OF assms, of flags])
  case (1 st')
  then show ?thesis by simp
next
  case (2 phys m st')
  have "\<exists>e st''. xrp_unshare_block env (st'\<lparr>k_mem := mem\<rparr>) m fl = Some (e, Map_none, st'') \<and> kinv st'' rf pf ms" for mem fl
    using unshare_ok [of "st'\<lparr>k_mem := mem\<rparr>" rf pf m ms env fl] 2(2) by (metis kinv_mem)
  with 2 show ?thesis by simp
qed

theorem share_unshare_balanced_witness:
  "\<exists>e st. xrp_unshare_block (sample_env False) (sample_copy_st\<lparr>k_mem := \<lambda>_. 1\<rparr>) (Map_alien sample_copy_am)
     XRP_FLAG_READ_WRITE = Some (e, Map_none, st) \<and> kinv st (\<lambda>_. 0) (\<lambda>_. 0) []"
proof -
  have "request_fits (3 + 16) 16" "0 < nr_pages 0x8005 3"
    by (simp_all add: request_fits_def eff_size_def eff_align_def round_up_def nr_pages_def page_count_def PAGE_SIZE_def)
  with share_unshare_balanced [OF sample_kinv sample_laws(1,3,6), of 3 "0x8005" False 0 XRP_FLAG_READ_WRITE]
  show ?thesis unfolding sample_share_copy by auto
qed

text \<open>
  The size of a shadow copy is computed without regard to overflow.  For a block of the last 16 bytes below
  \<open>2 ^ 32\<close> in size the driver allocates a single page, and the mapping still claims the whole size: copying
  such a block in or out leaves the allocation.
\<close>

lemma oversized_copy_undersized:
  assumes "refs_ok st rc" and "kv_cur_ok env" and "2 ^ 32 \<le> unat sz + 16"
    and "xvp_copy_virt_to_phys env st flags vaddr sz = Some (Inr am, st')"
  shows "am_size am = sz \<and> (\<exists>a. k_allocs st' (am_allocation am) = Some a \<and> unat (a_size a) \<le> 4096)"
proof -
  obtain k where k: "unat sz + 16 = 2 ^ 32 + k" using assms(3) le_Suc_ex by blast
  then have "k < 16" using unat_lt32 [of sz] by simp
  moreover have "unat (sz + 16) = (2 ^ 32 + k) mod 2 ^ 32" using k by (simp add: unat_word_ariths)
  ultimately have w: "unat (sz + 16) \<le> 16" by simp
  then have n: "eff_size (sz + 16) \<le> 4096" unfolding eff_size_def by (intro round_up_least) simp_all
  then have r: "request_fits (sz + 16) 16" by (simp add: request_fits_def eff_align_def)
  obtain i st1 where al: "k_allocate env st (sz + 16) 16 = (Inr i, st1)"
    using assms(4) by (auto simp: xvp_copy_virt_to_phys_def Let_def split: prod.splits sum.splits)
  obtain p a where st1: "st1 = st\<lparr>k_pool := p, k_allocs := (k_allocs st)(i \<mapsto> a), k_next := i + 1\<rparr>"
      and "unat (a_size a) = eff_size (sz + 16)"
    using k_allocate_ok [OF assms(1) r assms(2) al] by metis
  moreover have "am_size am = sz" "am_allocation am = i" "k_allocs st' = k_allocs st1"
    using assms(4) by (auto simp: xvp_copy_virt_to_phys_def al Let_def split: if_splits bind_splits)
  ultimately show ?thesis using n by simp
qed

lemma oversized_copy_undersized_example:
  "\<exists>am st. xvp_copy_virt_to_phys (sample_env False) sample_kst XRP_FLAG_WRITE 0x8000 0xfffffff8 = Some (Inr am, st) \<and>
     am_size am = 0xfffffff8 \<and> (\<exists>a. k_allocs st (am_allocation am) = Some a \<and> unat (a_size a) \<le> 4096)"
proof -
  have r: "refs_ok sample_kst (\<lambda>_. 0)" using sample_kinv by (simp add: kinv_def)
  have "k_allocate (sample_env False) sample_kst 8 16 = (Inr 0, sample_copy_st\<lparr>k_mem := k_mem sample_kst\<rparr>)"
    by (simp add: k_allocate_def sample_env_def sample_kst_def sample_copy_st_def xrp_private_alloc_def ALIGN_def
        PAGE_SIZE_def carve_block_def)
  moreover have "(4294967304 :: u32) = 8" by simp
  ultimately obtain am st where "xvp_copy_virt_to_phys (sample_env False) sample_kst XRP_FLAG_WRITE 0x8000 0xfffffff8 = Some (Inr am, st)"
    by (simp add: xvp_copy_virt_to_phys_def Let_def XRP_FLAG_WRITE_def XRP_FLAG_READ_def) (simp add: sample_copy_st_def)
  with oversized_copy_undersized [OF r sample_laws(6) _ this] show ?thesis by auto
qed

end
