(* ===== verification/XRP_Submit.thy ===== *)
theory XRP_Submit
  imports XRP_Kernel_Request XRP_Sharing
begin

text \<open>
  Properties of the submission of commands (\<open>XRP_Kernel_Request\<close>): the books stay balanced over
  \<open>xrp_ioctl_submit_sync\<close> on every path, the errors included, provided that the request structure starts
  out empty; and what goes wrong when it does not, which the code permits, since the structure is an
  uninitialised variable.
\<close>

subsection \<open>Releasing mappings\<close>

text \<open>
  What unmapping relies on: mappings can be released in any order, each exactly once, whatever the flags.
\<close>

locale mapping_ledger =
  fixes ledger :: "'s \<Rightarrow> xrp_mapping list \<Rightarrow> bool"
    and release :: "'s \<Rightarrow> xrp_mapping \<Rightarrow> u32 \<Rightarrow> (errno option \<times> xrp_mapping \<times> 's) option"
  assumes ledger_mset: "mset ms = mset ms' \<Longrightarrow> ledger s ms = ledger s ms'"
    and ledger_release: "ledger s (m # ms) \<Longrightarrow> \<exists>e s'. release s m flags = Some (e, Map_none, s') \<and> ledger s' ms"
begin

lemma release_middle:
  assumes "ledger s (xs @ m # ms)"
  obtains e s' where "release s m flags = Some (e, Map_none, s')" "ledger s' (xs @ ms)"
proof -
  have "ledger s (m # xs @ ms)" using assms ledger_mset [of "xs @ m # ms" "m # xs @ ms" s] by simp
  then show ?thesis using ledger_release that by blast
qed

text \<open>A mapping that exists only under a condition is released under the same condition.\<close>

lemma release_if:
  assumes "ledger s (xs @ (if b then [m] else []) @ ms)"
  shows "\<exists>s'. (if b then map_option (\<lambda>r. snd (snd r)) (release s m flags) else Some s) = Some s' \<and> ledger s' (xs @ ms)"
proof (cases b)
  case True
  with assms have "ledger s (xs @ m # ms)" by simp
  then show ?thesis using release_middle [of s xs m ms flags] True by fastforce
qed (use assms in auto)

end

interpretation books: mapping_ledger "\<lambda>st ms. kinv st rf pf ms \<and> k_known st = kn" "xrp_unshare_block env" for rf pf kn env
proof unfold_locales
  show "(kinv s rf pf ms \<and> k_known s = kn) = (kinv s rf pf ms' \<and> k_known s = kn)" if "mset ms = mset ms'" for ms ms' s
    using kinv_mset [OF that] by simp
  show "\<exists>e s'. xrp_unshare_block env s m flags = Some (e, Map_none, s') \<and> kinv s' rf pf ms \<and> k_known s' = kn"
    if "kinv s rf pf (m # ms) \<and> k_known s = kn" for s m ms flags
    using that unshare_ok [of s rf pf m ms env flags] by metis
qed

text \<open>The mappings a request holds, and that the array of mappings is as long as it says.\<close>

definition rq_buffers :: "xrp_request \<Rightarrow> xrp_mapping list" where
  "rq_buffers rq = take (rq_n_buffers rq) (case rq_buffer_mapping rq of None \<Rightarrow> [] | Some bs \<Rightarrow> bs)"

definition rq_mappings :: "xrp_request \<Rightarrow> xrp_mapping list" where
  "rq_mappings rq =
     (if q_in_data_size (rq_queue rq) > XRP_DSP_CMD_INLINE_DATA_SIZE then [rq_in_data_mapping rq] else []) @
     (if q_out_data_size (rq_queue rq) > XRP_DSP_CMD_INLINE_DATA_SIZE then [rq_out_data_mapping rq] else []) @
     rq_buffers rq @
     (if rq_n_buffers rq > unat XRP_DSP_CMD_INLINE_BUFFER_COUNT then [rq_dsp_buffer_mapping rq] else [])"

definition rq_arrays :: "xrp_request \<Rightarrow> bool" where
  "rq_arrays rq \<longleftrightarrow>
     (rq_n_buffers rq = 0 \<or> (\<exists>bs. rq_buffer_mapping rq = Some bs \<and> length bs = rq_n_buffers rq))"

lemmas unshare_if = books.release_if [folded unshare_def]

lemma unshare_all_ok:
  assumes "kinv st rf pf (xs @ ms)" and "k_known st = kn"
  shows "\<exists>st'. unshare_all env st xs = Some st' \<and> kinv st' rf pf ms \<and> k_known st' = kn"
  using assms
proof (induction xs arbitrary: st)
  case (Cons m xs)
  then have "kinv st rf pf (m # xs @ ms)" by simp
  then obtain e st' where "xrp_unshare_block env st m 0 = Some (e, Map_none, st')" "kinv st' rf pf (xs @ ms)"
    "k_known st' = kn" using unshare_ok [of st rf pf m "xs @ ms" env 0] Cons.prems(2) by metis
  then show ?case using Cons.IH by (simp add: unshare_def)
qed simp

lemma unmap_buffers_ok:
  assumes "kinv st rf pf (xs @ ms)" and "k_known st = kn"
  shows "\<exists>e st'. unmap_buffers env st rq ret i xs = Some (e, st') \<and> kinv st' rf pf ms \<and> k_known st' = kn"
  using assms
proof (induction xs arbitrary: st ret i)
  case (Cons m xs)
  then have "kinv st rf pf (m # xs @ ms)" by simp
  then obtain e st' where "xrp_unshare_block env st m (db_flags (load_dsp_buffer env st rq i)) = Some (e, Map_none, st')"
    "kinv st' rf pf (xs @ ms)" "k_known st' = kn" using unshare_ok Cons.prems(2) by metis
  then show ?case using Cons.IH by simp
qed simp

lemma buffers_cases:
  assumes "rq_arrays rq"
  shows "(if rq_n_buffers rq = 0 then z else do { ms \<leftarrow> rq_buffer_mapping rq; f (take (rq_n_buffers rq) ms) }) =
    (if rq_n_buffers rq = 0 then z else f (rq_buffers rq))"
    and "rq_n_buffers rq = 0 \<Longrightarrow> rq_buffers rq = []"
  using assms by (auto simp: rq_arrays_def rq_buffers_def split: option.splits)

lemma unmap_request_nowb_ok:
  assumes "kinv st rf pf (rq_mappings rq @ ms)" and "rq_arrays rq" and "k_known st = kn"
  shows "\<exists>st'. xrp_unmap_request_nowb env st rq = Some st' \<and> kinv st' rf pf ms \<and> k_known st' = kn"
proof -
  let ?out = "if q_out_data_size (rq_queue rq) > XRP_DSP_CMD_INLINE_DATA_SIZE then [rq_out_data_mapping rq] else []"
  let ?d = "if rq_n_buffers rq > unat XRP_DSP_CMD_INLINE_BUFFER_COUNT then [rq_dsp_buffer_mapping rq] else []"
  from assms(1,3) obtain s1 where
      s1: "(if q_in_data_size (rq_queue rq) > XRP_DSP_CMD_INLINE_DATA_SIZE
            then unshare env st (rq_in_data_mapping rq) 0 else Some st) = Some s1"
      "kinv s1 rf pf (?out @ rq_buffers rq @ ?d @ ms) \<and> k_known s1 = kn"
    using unshare_if [where xs = "[]" and s = st and ms = "?out @ rq_buffers rq @ ?d @ ms"]
    unfolding rq_mappings_def append_assoc append.simps(1) by blast
  from s1(2) obtain s2 where
      s2: "(if q_out_data_size (rq_queue rq) > XRP_DSP_CMD_INLINE_DATA_SIZE
            then unshare env s1 (rq_out_data_mapping rq) 0 else Some s1) = Some s2"
      "kinv s2 rf pf (rq_buffers rq @ ?d @ ms) \<and> k_known s2 = kn"
    using unshare_if [where xs = "[]" and s = s1 and ms = "rq_buffers rq @ ?d @ ms"] unfolding append.simps(1) by blast
  have "\<exists>s3. (if rq_n_buffers rq = 0 then Some s2 else unshare_all env s2 (rq_buffers rq)) = Some s3 \<and>
      kinv s3 rf pf (?d @ ms) \<and> k_known s3 = kn"
    using s2(2) unshare_all_ok [of s2 rf pf "rq_buffers rq" "?d @ ms" kn env] buffers_cases(2) [OF assms(2)] by auto
  then obtain s3 where s3: "(if rq_n_buffers rq = 0 then Some s2 else unshare_all env s2 (rq_buffers rq)) = Some s3"
      "kinv s3 rf pf (?d @ ms) \<and> k_known s3 = kn" by blast
  from s3(2) obtain s4 where
      "(if rq_n_buffers rq > unat XRP_DSP_CMD_INLINE_BUFFER_COUNT
        then unshare env s3 (rq_dsp_buffer_mapping rq) 0 else Some s3) = Some s4"
      "kinv s4 rf pf ms \<and> k_known s4 = kn"
    using unshare_if [where xs = "[]" and s = s3 and ms = ms] unfolding append.simps(1) by blast
  with s1(1) s2(1) s3(1) show ?thesis
    unfolding xrp_unmap_request_nowb_def buffers_cases(1) [OF assms(2)] by (simp only: bind.simps) blast
qed

lemma unmap_out_data_ok:
  assumes "kinv st rf pf ((if q_out_data_size (rq_queue rq) > XRP_DSP_CMD_INLINE_DATA_SIZE then [rq_out_data_mapping rq] else []) @ ms)"
    and "k_known st = kn"
  shows "\<exists>e st'. unmap_out_data env st rq = Some (e, st') \<and> kinv st' rf pf ms \<and> k_known st' = kn"
proof (cases "q_out_data_size (rq_queue rq) > XRP_DSP_CMD_INLINE_DATA_SIZE")
  case True
  then have "kinv st rf pf (rq_out_data_mapping rq # ms)" using assms(1) by simp
  from unshare_ok [OF this, of env XRP_FLAG_WRITE] obtain e st' where
    "xrp_unshare_block env st (rq_out_data_mapping rq) XRP_FLAG_WRITE = Some (e, Map_none, st')"
    "kinv st' rf pf ms" "k_known st' = kn" using assms(2) by metis
  then show ?thesis using True by (simp add: unmap_out_data_def)
next
  case False
  then show ?thesis using assms by (auto simp: unmap_out_data_def split: prod.splits)
qed

lemma unmap_request_ok:
  assumes "kinv st rf pf (rq_mappings rq @ ms)" and "rq_arrays rq" and "k_known st = kn"
  shows "\<exists>e st'. xrp_unmap_request env st rq = Some (e, st') \<and> kinv st' rf pf ms \<and> k_known st' = kn"
proof -
  let ?out = "if q_out_data_size (rq_queue rq) > XRP_DSP_CMD_INLINE_DATA_SIZE then [rq_out_data_mapping rq] else []"
  let ?d = "if rq_n_buffers rq > unat XRP_DSP_CMD_INLINE_BUFFER_COUNT then [rq_dsp_buffer_mapping rq] else []"
  from assms(1,3) obtain s1 where
      s1: "(if q_in_data_size (rq_queue rq) > XRP_DSP_CMD_INLINE_DATA_SIZE
            then unshare env st (rq_in_data_mapping rq) XRP_FLAG_READ else Some st) = Some s1"
      "kinv s1 rf pf (?out @ rq_buffers rq @ ?d @ ms) \<and> k_known s1 = kn"
    using unshare_if [where xs = "[]" and s = st and ms = "?out @ rq_buffers rq @ ?d @ ms"]
    unfolding rq_mappings_def append_assoc append.simps(1) by blast
  from s1(2) unmap_out_data_ok obtain ret s2 where s2: "unmap_out_data env s1 rq = Some (ret, s2)"
      "kinv s2 rf pf (rq_buffers rq @ ?d @ ms) \<and> k_known s2 = kn" by blast
  from s2(2) obtain s3 where
      s3: "(if rq_n_buffers rq > unat XRP_DSP_CMD_INLINE_BUFFER_COUNT
            then unshare env s2 (rq_dsp_buffer_mapping rq) XRP_FLAG_READ_WRITE else Some s2) = Some s3"
      "kinv s3 rf pf (rq_buffers rq @ ms) \<and> k_known s3 = kn"
    using unshare_if [where xs = "rq_buffers rq" and s = s2 and ms = ms] by blast
  have "\<exists>e s4. (if rq_n_buffers rq = 0 then Some (ret, s3) else unmap_buffers env s3 rq ret 0 (rq_buffers rq)) = Some (e, s4) \<and>
      kinv s4 rf pf ms \<and> k_known s4 = kn"
    using s3(2) unmap_buffers_ok [of s3 rf pf "rq_buffers rq" ms kn env rq ret 0] buffers_cases(2) [OF assms(2)] by auto
  with s1(1) s2(1) s3(1) show ?thesis
    unfolding xrp_unmap_request_def buffers_cases(1) [OF assms(2)] by (simp only: bind.simps prod.case)
qed

subsection \<open>Mapping a request\<close>

lemma kinv_same:
  assumes "\<And>i. (\<Sum>m\<leftarrow>ms. count_list (map_refs m) i) = (\<Sum>m\<leftarrow>ms'. count_list (map_refs m) i)"
    and "\<And>p. (\<Sum>m\<leftarrow>ms. count_list (map_pins m) p) = (\<Sum>m\<leftarrow>ms'. count_list (map_pins m) p)"
  shows "kinv st rf pf ms = kinv st rf pf ms'"
  using assms by (simp add: kinv_def)

text \<open>
  The invariant of mapping: the request owns exactly the mappings it has made.  What is still to be mapped
  is empty: \<open>s\<close> tells whether the input data, the output data and the descriptors are done, \<open>i\<close> how many buffers are.
\<close>

definition owns :: "(nat \<Rightarrow> nat) \<Rightarrow> (u32 \<Rightarrow> nat) \<Rightarrow> xrp_mapping list \<Rightarrow> nat list \<Rightarrow> xrp_request \<Rightarrow> kst \<Rightarrow> bool" where
  "owns rf pf ms kn rq st \<longleftrightarrow> kinv st rf pf (rq_mappings rq @ ms) \<and> rq_arrays rq \<and> k_known st = kn"

definition no_mapping :: "xrp_mapping \<Rightarrow> bool" where
  "no_mapping m \<longleftrightarrow> map_refs m = [] \<and> map_pins m = []"

definition blank :: "nat \<Rightarrow> nat \<Rightarrow> xrp_request \<Rightarrow> bool" where
  "blank s i rq \<longleftrightarrow>
     (s < 1 \<longrightarrow> no_mapping (rq_in_data_mapping rq)) \<and> (s < 2 \<longrightarrow> no_mapping (rq_out_data_mapping rq)) \<and>
     (\<forall>j. i \<le> j \<longrightarrow> j < length (rq_buffers rq) \<longrightarrow> no_mapping (rq_buffers rq ! j)) \<and>
     (s < 3 \<longrightarrow> no_mapping (rq_dsp_buffer_mapping rq) \<and> no_mapping (Map_kernel_alien (rq_dsp_buffer_union rq)))"

text \<open>A step of mapping for the request \<open>rq\<close> leads to such a state, with an error or with more of the request done.\<close>

definition keeps :: "(nat \<Rightarrow> nat) \<Rightarrow> (u32 \<Rightarrow> nat) \<Rightarrow> xrp_mapping list \<Rightarrow> nat list \<Rightarrow> xrp_request \<Rightarrow> nat \<Rightarrow> nat \<Rightarrow> rq_step \<Rightarrow> bool" where
  "keeps rf pf ms kn rq s i r \<longleftrightarrow>
     (\<exists>e rq' st'. r = Some (e, rq', st') \<and> owns rf pf ms kn rq' st' \<and> rq_queue rq' = rq_queue rq \<and>
        rq_n_buffers rq' = rq_n_buffers rq \<and> (e = None \<longrightarrow> blank s i rq'))"

lemma keeps_and_then:
  assumes "keeps rf pf ms kn rq s i r"
    and "\<And>rq' st'. owns rf pf ms kn rq' st' \<Longrightarrow> blank s i rq' \<Longrightarrow> rq_queue rq' = rq_queue rq \<Longrightarrow>
      rq_n_buffers rq' = rq_n_buffers rq \<Longrightarrow> keeps rf pf ms kn rq' s' i' (f rq' st')"
  shows "keeps rf pf ms kn rq s' i' (and_then r f)"
proof -
  from assms(1) obtain e rq' st' where r: "r = Some (e, rq', st')" "owns rf pf ms kn rq' st'"
    "rq_queue rq' = rq_queue rq" "rq_n_buffers rq' = rq_n_buffers rq" "e = None \<longrightarrow> blank s i rq'"
    unfolding keeps_def by blast
  show ?thesis
  proof (cases e)
    case None
    then show ?thesis using r assms(2) [of rq' st'] by (simp add: and_then_def keeps_def)
  next
    case (Some x)
    then show ?thesis using r by (simp add: and_then_def keeps_def)
  qed
qed

text \<open>What makes a block shareable, and the assumptions on the system.\<close>

definition shareable :: "u32 \<Rightarrow> u32 \<Rightarrow> bool" where
  "shareable va sz \<longleftrightarrow> request_fits (sz + 16) 16 \<and> 0 < nr_pages va sz"

definition system_ok :: "kenv \<Rightarrow> nat \<Rightarrow> nat list \<Rightarrow> (nat \<Rightarrow> nat) \<Rightarrow> bool" where
  "system_ok env filp known rf \<longleftrightarrow> gup_law env \<and> areas_hold env filp known rf \<and> kv_cur_ok env"

definition room :: "(nat \<Rightarrow> nat) \<Rightarrow> xrp_mapping list \<Rightarrow> nat \<Rightarrow> bool" where
  "room rf ms n \<longleftrightarrow> (\<forall>i. rf i + (\<Sum>m\<leftarrow>ms. count_list (map_refs m) i) + n + 4 < 2 ^ 32)"

lemma count_map_refs: "count_list (map_refs m) i \<le> 1"
  by (cases m) (auto simp: alien_refs_def)

lemma sum_map_refs: "(\<Sum>m\<leftarrow>ms. count_list (map_refs m) i) \<le> length ms"
  by (induction ms) (use count_map_refs in \<open>auto simp: add_le_mono intro: add_mono order_trans\<close>)

lemma room_for_mapping:
  assumes "room rf ms (rq_n_buffers rq)"
  shows "\<forall>i. rf i + (\<Sum>m\<leftarrow>rq_mappings rq @ ms. count_list (map_refs m) i) + 1 < 2 ^ 32"
proof
  fix i
  have "length (rq_mappings rq) \<le> rq_n_buffers rq + 3"
    by (auto simp: rq_mappings_def rq_buffers_def split: option.splits)
  moreover have "rf i + (\<Sum>m\<leftarrow>ms. count_list (map_refs m) i) + rq_n_buffers rq + 4 < 2 ^ 32"
    using assms by (simp add: room_def)
  moreover have "(\<Sum>m\<leftarrow>rq_mappings rq. count_list (map_refs m) i) \<le> length (rq_mappings rq)" by (rule sum_map_refs)
  ultimately show "rf i + (\<Sum>m\<leftarrow>rq_mappings rq @ ms. count_list (map_refs m) i) + 1 < 2 ^ 32"
    unfolding map_append sum_list_append by linarith
qed

lemma share_for_request:
  assumes "owns rf pf ms kn rq st" and "system_ok env filp kn rf" and "room rf ms (rq_n_buffers rq)" and "shareable va sz"
  obtains (err) st' where "xrp_share_block env st filp va sz flags = Some (Inl EINVAL, st')" "owns rf pf ms kn rq st'"
  | (shared) phys m st' where "xrp_share_block env st filp va sz flags = Some (Inr (phys, m), st')"
      "kinv st' rf pf (m # rq_mappings rq @ ms)" "rq_arrays rq" "k_known st' = kn"
  using share_block_ok [of st rf pf "rq_mappings rq @ ms" env filp sz va flags] room_for_mapping [OF assms(3)] assms
  unfolding owns_def system_ok_def shareable_def by metis

text \<open>The fields that have nothing to do with mappings.\<close>

lemma rq_buffers_frame [simp]:
  "rq_buffers (rq\<lparr>rq_nsid := b\<rparr>) = rq_buffers rq" "rq_buffers (rq\<lparr>rq_in_data := b\<rparr>) = rq_buffers rq"
  "rq_buffers (rq\<lparr>rq_in_data_phys := a\<rparr>) = rq_buffers rq" "rq_buffers (rq\<lparr>rq_in_data_mapping := m\<rparr>) = rq_buffers rq"
  "rq_buffers (rq\<lparr>rq_out_data_phys := a\<rparr>) = rq_buffers rq" "rq_buffers (rq\<lparr>rq_out_data_mapping := m\<rparr>) = rq_buffers rq"
  "rq_buffers (rq\<lparr>rq_dsp_buffer_phys := a\<rparr>) = rq_buffers rq" "rq_buffers (rq\<lparr>rq_dsp_buffer_mapping := m\<rparr>) = rq_buffers rq"
  "rq_buffers (rq\<lparr>rq_buffer_data := d\<rparr>) = rq_buffers rq" "rq_buffers (rq\<lparr>rq_dsp_buffer := a\<rparr>) = rq_buffers rq"
  "rq_buffers (rq\<lparr>rq_out_data := b\<rparr>) = rq_buffers rq"
  by (simp_all add: rq_buffers_def)

lemma rq_mappings_frame [simp]:
  "rq_mappings (rq\<lparr>rq_nsid := b\<rparr>) = rq_mappings rq" "rq_mappings (rq\<lparr>rq_in_data := b\<rparr>) = rq_mappings rq"
  "rq_mappings (rq\<lparr>rq_buffer_data := d\<rparr>) = rq_mappings rq" "rq_mappings (rq\<lparr>rq_dsp_buffer := a\<rparr>) = rq_mappings rq"
  "rq_mappings (rq\<lparr>rq_out_data := b\<rparr>) = rq_mappings rq"
  by (simp_all add: rq_mappings_def)

lemma map_in_data_keeps:
  assumes "owns rf pf ms kn rq st" and "blank 0 0 rq" and "system_ok env filp kn rf" and "room rf ms (rq_n_buffers rq)"
    and sh: "q_in_data_size (rq_queue rq) > XRP_DSP_CMD_INLINE_DATA_SIZE \<longrightarrow>
      shareable (ucast (q_in_data_addr (rq_queue rq))) (q_in_data_size (rq_queue rq))"
  shows "keeps rf pf ms kn rq 1 0 (map_in_data env filp rq st)"
proof (cases "q_in_data_size (rq_queue rq) > XRP_DSP_CMD_INLINE_DATA_SIZE")
  case True
  with sh have "shareable (ucast (q_in_data_addr (rq_queue rq))) (q_in_data_size (rq_queue rq))" by simp
  with assms(1,3,4) show ?thesis
  proof (cases rule: share_for_request [where filp = filp and flags = XRP_FLAG_READ])
    case (err st')
    then show ?thesis using True by (simp add: map_in_data_def keeps_def)
  next
    case (shared phys m st')
    let ?rq = "rq\<lparr>rq_in_data_phys := phys, rq_in_data_mapping := m\<rparr>"
    from assms(2) have "no_mapping (rq_in_data_mapping rq)" by (simp add: blank_def)
    then have "kinv st' rf pf (rq_mappings ?rq @ ms) = kinv st' rf pf (m # rq_mappings rq @ ms)"
      using True by (intro kinv_same) (simp_all add: rq_mappings_def no_mapping_def)
    with shared(2-4) assms(2) have "owns rf pf ms kn ?rq st'" "blank 1 0 ?rq"
      by (simp_all add: owns_def blank_def rq_arrays_def)
    then show ?thesis using True shared(1) by (simp add: map_in_data_def keeps_def)
  qed
next
  case False
  have "owns rf pf ms kn (rq\<lparr>rq_in_data := b\<rparr>) st" "blank 1 0 (rq\<lparr>rq_in_data := b\<rparr>)" for b
    using assms(1,2) by (simp_all add: owns_def blank_def rq_arrays_def)
  then show ?thesis using assms(1) False by (auto simp: map_in_data_def keeps_def Let_def split: option.splits)
qed

lemma map_out_data_keeps:
  assumes "owns rf pf ms kn rq st" and "blank 1 0 rq" and "system_ok env filp kn rf" and "room rf ms (rq_n_buffers rq)"
    and sh: "q_out_data_size (rq_queue rq) > XRP_DSP_CMD_INLINE_DATA_SIZE \<longrightarrow>
      shareable (ucast (q_out_data_addr (rq_queue rq))) (q_out_data_size (rq_queue rq))"
  shows "keeps rf pf ms kn rq 2 0 (map_out_data env filp rq st)"
proof (cases "q_out_data_size (rq_queue rq) > XRP_DSP_CMD_INLINE_DATA_SIZE")
  case True
  with sh have "shareable (ucast (q_out_data_addr (rq_queue rq))) (q_out_data_size (rq_queue rq))" by simp
  with assms(1,3,4) show ?thesis
  proof (cases rule: share_for_request [where filp = filp and flags = XRP_FLAG_WRITE])
    case (err st')
    then show ?thesis using True by (simp add: map_out_data_def keeps_def)
  next
    case (shared phys m st')
    let ?rq = "rq\<lparr>rq_out_data_phys := phys, rq_out_data_mapping := m\<rparr>"
    from assms(2) have "no_mapping (rq_out_data_mapping rq)" by (simp add: blank_def)
    then have "kinv st' rf pf (rq_mappings ?rq @ ms) = kinv st' rf pf (m # rq_mappings rq @ ms)"
      using True by (intro kinv_same) (simp_all add: rq_mappings_def no_mapping_def)
    with shared(2-4) assms(2) have "owns rf pf ms kn ?rq st'" "blank 2 0 ?rq"
      by (simp_all add: owns_def blank_def rq_arrays_def)
    then show ?thesis using True shared(1) by (simp add: map_out_data_def keeps_def)
  qed
qed (use assms(1,2) in \<open>simp add: map_out_data_def keeps_def blank_def\<close>)

text \<open>Storing a descriptor changes neither the mappings nor the books.\<close>

lemma store_dsp_buffer_keeps:
  assumes "store_dsp_buffer env st rq i b = (rq', st')" and "owns rf pf ms kn rq st" and "blank s j rq"
  shows "owns rf pf ms kn rq' st' \<and> blank s j rq' \<and> rq_queue rq' = rq_queue rq \<and> rq_n_buffers rq' = rq_n_buffers rq"
  using assms
  by (auto simp: store_dsp_buffer_def owns_def blank_def rq_arrays_def split: if_splits)

definition buffers_shareable :: "kenv \<Rightarrow> xrp_ioctl_queue \<Rightarrow> bool" where
  "buffers_shareable env q \<longleftrightarrow>
     (\<forall>m i bs. kv_get_user env m (ucast (q_buffer_addr q) + of_nat (i * sizeof_ioctl_buffer)) sizeof_ioctl_buffer = Some bs \<longrightarrow>
        ib_flags (ioctl_buffer_of bs) AND XRP_FLAG_READ_WRITE \<noteq> 0 \<longrightarrow>
        shareable (ucast (ib_addr (ioctl_buffer_of bs))) (ib_size (ioctl_buffer_of bs)))"

lemma sum_list_update_0:
  "i < length xs \<Longrightarrow> f (xs ! i) = (0::nat) \<Longrightarrow> (\<Sum>x\<leftarrow>xs[i := y]. f x) = f y + (\<Sum>x\<leftarrow>xs. f x)"
  by (simp add: map_update sum_list_update)

lemma blank_mono: "blank s i rq \<Longrightarrow> i \<le> j \<Longrightarrow> blank s j rq"
  by (auto simp: blank_def)

lemma own_buffer:
  assumes "kinv st rf pf (m # rq_mappings rq @ ms)" and "rq_arrays rq" and "k_known st = kn"
    and "rq_buffer_mapping rq = Some bs" and "i < rq_n_buffers rq" and "blank s i rq"
  shows "owns rf pf ms kn (rq\<lparr>rq_buffer_mapping := Some (bs[i := m])\<rparr>) st \<and>
    blank s (Suc i) (rq\<lparr>rq_buffer_mapping := Some (bs[i := m])\<rparr>)"
proof -
  let ?rq = "rq\<lparr>rq_buffer_mapping := Some (bs[i := m])\<rparr>"
  have len: "length bs = rq_n_buffers rq" using assms(2,4,5) by (auto simp: rq_arrays_def)
  then have b: "rq_buffers rq = bs" "rq_buffers ?rq = bs[i := m]" using assms(4) by (simp_all add: rq_buffers_def)
  have "no_mapping (bs ! i)" using assms(5,6) len unfolding blank_def b by auto
  then have "kinv st rf pf (rq_mappings ?rq @ ms) = kinv st rf pf (m # rq_mappings rq @ ms)"
    using len assms(5) by (intro kinv_same) (simp_all add: rq_mappings_def b sum_list_update_0 no_mapping_def)
  moreover have "blank s (Suc i) ?rq" using assms(6) len unfolding blank_def b by auto
  ultimately show ?thesis using assms(1,3) len by (simp add: owns_def rq_arrays_def)
qed

lemma map_buffer_keeps:
  assumes own: "owns rf pf ms kn rq st" and bl: "blank 2 i rq" and i: "i < rq_n_buffers rq" and "system_ok env filp kn rf"
    and "room rf ms (rq_n_buffers rq)" and "buffers_shareable env (rq_queue rq)"
  shows "keeps rf pf ms kn rq 2 (Suc i) (map_buffer env filp i rq st)"
proof (cases "kv_get_user env (k_mem st) (ucast (q_buffer_addr (rq_queue rq)) + of_nat (i * sizeof_ioctl_buffer)) sizeof_ioctl_buffer")
  case None
  then show ?thesis using own by (simp add: map_buffer_def keeps_def)
next
  case (Some u)
  define ib where "ib = ioctl_buffer_of u"
  define d where "d = (\<lambda>phys. \<lparr>db_flags = ib_flags ib, db_size = ib_size ib, db_addr = xrp_translate_to_dsp (kv_map env) phys\<rparr>)"
  have store: "keeps rf pf ms kn rq 2 (Suc i) (case store_dsp_buffer env st' rq' i (d phys) of (rq, st) \<Rightarrow> Some (None, rq, st))"
    if "owns rf pf ms kn rq' st' \<and> blank 2 (Suc i) rq'" "rq_queue rq' = rq_queue rq" "rq_n_buffers rq' = rq_n_buffers rq"
    for rq' st' phys
  proof -
    obtain rq'' st'' where "store_dsp_buffer env st' rq' i (d phys) = (rq'', st'')" by fastforce
    with store_dsp_buffer_keeps [OF this] that show ?thesis by (auto simp: keeps_def)
  qed
  show ?thesis
  proof (cases "ib_flags ib AND XRP_FLAG_READ_WRITE = 0")
    case True
    then show ?thesis using Some store [of rq st "NOT 0"] own blank_mono [OF bl, of "Suc i"]
      by (simp add: map_buffer_def Let_def ib_def d_def)
  next
    case False
    with assms(6) Some have "shareable (ucast (ib_addr ib)) (ib_size ib)" by (auto simp: buffers_shareable_def ib_def)
    with own assms(4,5) show ?thesis
    proof (cases rule: share_for_request [where filp = filp and flags = "ib_flags ib"])
      case (err st')
      then show ?thesis using Some False by (simp add: map_buffer_def Let_def ib_def keeps_def)
    next
      case (shared phys m st')
      then obtain bs where bs: "rq_buffer_mapping rq = Some bs" using i by (auto simp: rq_arrays_def)
      from own_buffer [OF shared(2-4) bs i bl] have "keeps rf pf ms kn rq 2 (Suc i)
        (case store_dsp_buffer env st' (rq\<lparr>rq_buffer_mapping := Some (bs[i := m])\<rparr>) i (d phys) of (rq, st) \<Rightarrow> Some (None, rq, st))"
        by (intro store) simp_all
      then show ?thesis using Some False shared(1) bs by (simp add: map_buffer_def Let_def ib_def d_def)
    qed
  qed
qed

lemma map_buffers_keeps:
  assumes "owns rf pf ms kn rq st" and "blank 2 i rq" and "i \<le> rq_n_buffers rq" and "system_ok env filp kn rf"
    and "room rf ms (rq_n_buffers rq)" and "buffers_shareable env (rq_queue rq)"
  shows "keeps rf pf ms kn rq 2 (rq_n_buffers rq) (map_buffers env filp [i..<rq_n_buffers rq] rq st)"
  using assms(1-3,5,6)
proof (induction "rq_n_buffers rq - i" arbitrary: i rq st)
  case 0
  then have "i = rq_n_buffers rq" by simp
  then show ?case using 0 by (simp add: keeps_def)
next
  case (Suc k)
  then have i: "i < rq_n_buffers rq" by simp
  have "keeps rf pf ms kn rq 2 (rq_n_buffers rq)
      (and_then (map_buffer env filp i rq st) (map_buffers env filp [Suc i..<rq_n_buffers rq]))"
  proof (rule keeps_and_then [OF map_buffer_keeps [OF Suc.prems(1,2) i assms(4) Suc.prems(4,5)]])
    fix rq' st'
    assume "owns rf pf ms kn rq' st'" "blank 2 (Suc i) rq'" "rq_queue rq' = rq_queue rq" and n: "rq_n_buffers rq' = rq_n_buffers rq"
    with Suc have "keeps rf pf ms kn rq' 2 (rq_n_buffers rq') (map_buffers env filp [Suc i..<rq_n_buffers rq'] rq' st')"
      by (intro Suc.hyps(1)) simp_all
    then show "keeps rf pf ms kn rq' 2 (rq_n_buffers rq) (map_buffers env filp [Suc i..<rq_n_buffers rq] rq' st')"
      by (simp add: n)
  qed
  then show ?case using i by (simp add: upt_rec [of i])
qed

lemma map_descriptors_keeps:
  assumes own: "owns rf pf ms kn rq st" and bl: "blank 2 i rq" and "system_ok env filp kn rf"
    and "rq_n_buffers rq > unat XRP_DSP_CMD_INLINE_BUFFER_COUNT \<longrightarrow>
      request_fits (of_nat (rq_n_buffers rq) * sizeof_dsp_buffer + 16) 16"
  shows "keeps rf pf ms kn rq 3 i (map_descriptors env rq st)"
proof (cases "rq_n_buffers rq > unat XRP_DSP_CMD_INLINE_BUFFER_COUNT")
  case True
  have upd: "kinv st' rf pf (rq_mappings (rq\<lparr>rq_dsp_buffer_phys := a, rq_dsp_buffer_mapping := m\<rparr>) @ ms) =
      kinv st' rf pf (m # rq_mappings rq @ ms)"
      "kinv st' rf pf (rq_mappings (rq\<lparr>rq_dsp_buffer_mapping := m\<rparr>) @ ms) = kinv st' rf pf (m # rq_mappings rq @ ms)"
    for st' a m
    using bl True by (intro kinv_same; simp add: rq_mappings_def no_mapping_def blank_def)+
  have "kinv st rf pf (rq_mappings rq @ ms)" "kv_cur_ok env"
    "request_fits (of_nat (rq_n_buffers rq) * sizeof_dsp_buffer + 16) 16"
    using assms True by (simp_all add: owns_def system_ok_def)
  then show ?thesis
  proof (cases rule: share_kernel_ok [where old = "rq_dsp_buffer_union rq" and virt = "rq_dsp_buffer rq" and flags = XRP_FLAG_READ_WRITE])
    case (err e st')
    have "kinv st' rf pf (Map_kernel_alien (rq_dsp_buffer_union rq) # rq_mappings rq @ ms) = kinv st' rf pf (rq_mappings rq @ ms)"
      using bl by (intro kinv_same) (simp_all add: blank_def no_mapping_def)
    with err own upd(2) [of st' "Map_kernel_alien (rq_dsp_buffer_union rq)"] True show ?thesis
      by (simp add: map_descriptors_def keeps_def owns_def rq_arrays_def blank_def)
  next
    case (shared phys m st')
    with own bl upd(1) [of st' m phys] True show ?thesis
      by (simp add: map_descriptors_def keeps_def owns_def rq_arrays_def blank_def)
  qed
qed (use own bl in \<open>simp add: map_descriptors_def keeps_def blank_def\<close>)

text \<open>The request can be mapped as a whole: its sizes do not overflow the arithmetic of the allocator.\<close>

definition request_shareable :: "kenv \<Rightarrow> xrp_ioctl_queue \<Rightarrow> bool" where
  "request_shareable env q \<longleftrightarrow>
     (q_in_data_size q > XRP_DSP_CMD_INLINE_DATA_SIZE \<longrightarrow> shareable (ucast (q_in_data_addr q)) (q_in_data_size q)) \<and>
     (q_out_data_size q > XRP_DSP_CMD_INLINE_DATA_SIZE \<longrightarrow> shareable (ucast (q_out_data_addr q)) (q_out_data_size q)) \<and>
     buffers_shareable env q \<and>
     (unat (q_buffer_size q) div sizeof_ioctl_buffer > unat XRP_DSP_CMD_INLINE_BUFFER_COUNT \<longrightarrow>
        request_fits (of_nat (unat (q_buffer_size q) div sizeof_ioctl_buffer) * sizeof_dsp_buffer + 16) 16)"

lemma share_request_keeps:
  assumes "owns rf pf ms kn rq st" and "blank 0 0 rq" and "system_ok env filp kn rf" and "room rf ms (rq_n_buffers rq)"
    and "request_shareable env (rq_queue rq)"
    and "rq_n_buffers rq = unat (q_buffer_size (rq_queue rq)) div sizeof_ioctl_buffer"
  shows "keeps rf pf ms kn rq 3 (rq_n_buffers rq) (share_request env filp rq st)"
  unfolding share_request_def
proof (rule keeps_and_then [OF map_in_data_keeps [OF assms(1-4)]])
  show "XRP_DSP_CMD_INLINE_DATA_SIZE < q_in_data_size (rq_queue rq) \<longrightarrow>
      shareable (ucast (q_in_data_addr (rq_queue rq))) (q_in_data_size (rq_queue rq))"
    using assms(5) by (simp add: request_shareable_def)
  fix rq1 st1
  assume 1: "owns rf pf ms kn rq1 st1" "blank 1 0 rq1" "rq_queue rq1 = rq_queue rq" "rq_n_buffers rq1 = rq_n_buffers rq"
  show "keeps rf pf ms kn rq1 3 (rq_n_buffers rq) (and_then (map_out_data env filp rq1 st1) (\<lambda>rq st.
      and_then (map_buffers env filp [0..<rq_n_buffers rq] rq st) (\<lambda>rq st. map_descriptors env rq st)))"
  proof (rule keeps_and_then [OF map_out_data_keeps [OF 1(1,2) assms(3)]])
    show "room rf ms (rq_n_buffers rq1)" using assms(4) 1(4) by simp
    show "XRP_DSP_CMD_INLINE_DATA_SIZE < q_out_data_size (rq_queue rq1) \<longrightarrow>
        shareable (ucast (q_out_data_addr (rq_queue rq1))) (q_out_data_size (rq_queue rq1))"
      using assms(5) 1(3) by (simp add: request_shareable_def)
    fix rq2 st2
    assume 2: "owns rf pf ms kn rq2 st2" "blank 2 0 rq2" "rq_queue rq2 = rq_queue rq1" "rq_n_buffers rq2 = rq_n_buffers rq1"
    have "keeps rf pf ms kn rq2 2 (rq_n_buffers rq2) (map_buffers env filp [0..<rq_n_buffers rq2] rq2 st2)"
      using 1 2 assms(3-5) by (intro map_buffers_keeps) (simp_all add: request_shareable_def)
    then show "keeps rf pf ms kn rq2 3 (rq_n_buffers rq)
        (and_then (map_buffers env filp [0..<rq_n_buffers rq2] rq2 st2) (\<lambda>rq st. map_descriptors env rq st))"
      by (rule keeps_and_then)
        (rule map_descriptors_keeps, use 1 2 assms(3,5,6) in \<open>simp_all add: request_shareable_def\<close>)
  qed
qed

text \<open>A request structure that holds nothing, as one filled with zeros would be.\<close>

definition empty_request :: "xrp_request \<Rightarrow> bool" where
  "empty_request rq \<longleftrightarrow> no_mapping (rq_in_data_mapping rq) \<and> no_mapping (rq_out_data_mapping rq) \<and>
     no_mapping (rq_dsp_buffer_mapping rq) \<and> no_mapping (Map_kernel_alien (rq_dsp_buffer_union rq))"

lemma no_mapping_sum:
  "list_all no_mapping xs \<Longrightarrow> kinv st rf pf (xs @ ms) = kinv st rf pf ms"
proof (induction xs)
  case (Cons m xs)
  then have "kinv st rf pf ((m # xs) @ ms) = kinv st rf pf (xs @ ms)"
    by (intro kinv_same) (simp_all add: no_mapping_def)
  with Cons show ?case by simp
qed simp

lemma alloc_arrays_keeps:
  assumes "kinv st rf pf ms" and "empty_request rq" and "k_known st = kn" and "kv_buffer_mapping_ok env"
  obtains (err) rq' where "alloc_arrays env rq st = Some (Some ENOMEM, rq', st)"
  | (ok) rq' where "alloc_arrays env rq st = Some (None, rq', st)" "owns rf pf ms kn rq' st" "blank 0 0 rq'"
      "rq_queue rq' = rq_queue rq" "rq_n_buffers rq' = unat (q_buffer_size (rq_queue rq)) div sizeof_ioctl_buffer"
proof -
  define n where "n = unat (q_buffer_size (rq_queue rq)) div sizeof_ioctl_buffer"
  let ?bm = "if n = 0 then rq_buffer_mapping rq else Some (replicate n Map_none)"
  have *: "owns rf pf ms kn rq' st \<and> blank 0 0 rq'"
    if "rq' = rq\<lparr>rq_n_buffers := n, rq_buffer_mapping := ?bm, rq_dsp_buffer := a\<rparr>" for rq' a
  proof -
    have b: "rq_buffers rq' = replicate n Map_none" by (simp add: that rq_buffers_def)
    have "list_all no_mapping (rq_mappings rq')"
      using assms(2) unfolding rq_mappings_def b by (auto simp: that empty_request_def no_mapping_def list_all_iff)
    then have "owns rf pf ms kn rq' st" using assms(1,3) no_mapping_sum by (simp add: owns_def rq_arrays_def that)
    moreover have "blank 0 0 rq'" using assms(2) unfolding blank_def b
      by (simp add: that empty_request_def no_mapping_def)
    ultimately show ?thesis ..
  qed
  let ?rq = "\<lambda>a. rq\<lparr>rq_n_buffers := n, rq_buffer_mapping := ?bm, rq_dsp_buffer := a\<rparr>"
  have "(\<exists>rq'. alloc_arrays env rq st = Some (Some ENOMEM, rq', st)) \<or> (\<exists>a. alloc_arrays env rq st = Some (None, ?rq a, st))"
    using assms(4)
    by (auto simp: alloc_arrays_def Let_def n_def split: option.splits intro: exI [of _ "rq_dsp_buffer rq"])
  then show ?thesis
  proof (elim disjE exE)
    fix a assume "alloc_arrays env rq st = Some (None, ?rq a, st)"
    then show ?thesis using * [OF refl, of a] by (intro ok [of "?rq a"]) (simp_all add: n_def)
  qed (rule err)
qed

lemma map_request_ok:
  assumes "kinv st rf pf ms" and "empty_request rq" and "kv_buffer_mapping_ok env" and "system_ok env filp (k_known st) rf"
    and "room rf ms (unat (q_buffer_size (rq_queue rq)) div sizeof_ioctl_buffer)" and "request_shareable env (rq_queue rq)"
  obtains (err) e rq' st' where "xrp_map_request env filp rq st = Some (Some e, rq', st')" "kinv st' rf pf ms" "k_known st' = k_known st"
  | (ok) rq' st' where "xrp_map_request env filp rq st = Some (None, rq', st')" "owns rf pf ms (k_known st) rq' st'"
proof -
  have "\<exists>e rq1. map_nsid env rq st = Some (e, rq1, st) \<and> empty_request rq1 \<and> rq_queue rq1 = rq_queue rq"
    using assms(2) by (auto simp: map_nsid_def empty_request_def split: option.splits)
  then obtain e rq1 where 1: "map_nsid env rq st = Some (e, rq1, st)" "empty_request rq1" "rq_queue rq1 = rq_queue rq" by blast
  show ?thesis
  proof (cases e)
    case (Some x)
    then show ?thesis using 1 assms(1) by (intro err) (simp_all add: xrp_map_request_def and_then_def)
  next
    case None
    from assms(1) 1(2) refl [of "k_known st"] assms(3) show ?thesis
    proof (cases rule: alloc_arrays_keeps)
      case (err rq2)
      then show ?thesis using 1 None assms(1) by (intro that(1)) (simp_all add: xrp_map_request_def and_then_def)
    next
      case (ok rq2)
      then have "keeps rf pf ms (k_known st) rq2 3 (rq_n_buffers rq2) (share_request env filp rq2 st)"
        using assms(4-6) 1(3) by (intro share_request_keeps) simp_all
      then obtain r rq3 st3 where s: "share_request env filp rq2 st = Some (r, rq3, st3)" "owns rf pf ms (k_known st) rq3 st3"
        unfolding keeps_def by blast
      show ?thesis
      proof (cases r)
        case None
        then show ?thesis using s 1 \<open>e = None\<close> ok by (intro that(2)) (simp_all add: xrp_map_request_def and_then_def)
      next
        case (Some x)
        from s(2) obtain st4 where "xrp_unmap_request_nowb env st3 rq3 = Some st4" "kinv st4 rf pf ms" "k_known st4 = k_known st"
          using unmap_request_nowb_ok unfolding owns_def by blast
        then show ?thesis using s Some 1 \<open>e = None\<close> ok
          by (intro that(1) [of x rq3 st4]) (simp_all add: xrp_map_request_def and_then_def)
      qed
    qed
  qed
qed

subsection \<open>The exchange with the DSP\<close>

text \<open>The wait ends: with an answer, or because the time is up or the process is interrupted.\<close>

definition wait_ends :: "(int \<times> mem) list \<Rightarrow> bool" where
  "wait_ends evs \<longleftrightarrow> (\<exists>ev\<in>set evs. fst ev \<le> 0)"

lemma complete_cmd_irq_ends:
  "wait_ends evs \<Longrightarrow> \<exists>ret m. xvp_complete_cmd_irq comm evs = Some (ret, m)"
  by (induction comm evs rule: xvp_complete_cmd_irq.induct) (auto simp: wait_ends_def)

lemma complete_cmd_poll_ends:
  "wait_ends evs \<Longrightarrow> \<exists>ret m. xvp_complete_cmd_poll comm evs = Some (ret, m)"
  by (induction comm evs rule: xvp_complete_cmd_poll.induct) (auto simp: wait_ends_def)

lemma complete_hw_request_mappings:
  "xrp_complete_hw_request cmd rq m = (ret, rq') \<Longrightarrow> rq_mappings rq' = rq_mappings rq \<and> (rq_arrays rq' = rq_arrays rq)"
  by (auto simp: xrp_complete_hw_request_def Let_def rq_arrays_def split: if_splits)

definition surroundings_ok :: "submit_env \<Rightarrow> bool" where
  "surroundings_ok se \<longleftrightarrow> (\<forall>m. wait_ends (se_dsp se m)) \<and> (\<forall>m. se_load se m \<noteq> None)"

lemma boot_returns:
  "load m \<noteq> None \<Longrightarrow> \<exists>rc x' m'. xrp_boot_firmware load sync x m = Some (rc, x', m')"
  by (cases "xrp_boot_firmware load sync x m")
    (auto simp: xrp_boot_firmware_def Let_def split: bind_splits prod.splits option.splits if_splits)

lemma exchange_ok:
  assumes "surroundings_ok se"
  obtains ret went_off rq' x' m' where "exchange env se rq x m = Some (ret, went_off, rq', x', m')"
    "rq_mappings rq' = rq_mappings rq" "rq_arrays rq' = rq_arrays rq" "went_off \<longrightarrow> ret \<noteq> None \<and> x_off x' \<and> \<not> x_off x"
proof (cases "x_off x")
  case True
  then show ?thesis by (intro that [of "Some ENODEV" False rq x m]) (simp_all add: exchange_def)
next
  case False
  define m1 where "m1 = xrp_fill_hw_request (kv_map env) (x_comm x) rq m"
  define x1 where "x1 = xrp_send_device_irq x"
  have x1: "x_comm x1 = x_comm x" by (simp add: x1_def xrp_send_device_irq_def)
  obtain ret m2 where w: "(if x_host_irq_mode x1 then xvp_complete_cmd_irq (x_comm x1) (se_dsp se m1)
      else xvp_complete_cmd_poll (x_comm x1) (se_dsp se m1)) = Some (ret, m2)"
    using assms complete_cmd_irq_ends [of "se_dsp se m1"] complete_cmd_poll_ends [of "se_dsp se m1"]
    unfolding surroundings_ok_def by (metis (full_types))
  have ex: "exchange env se rq x m = (case ret of
      None \<Rightarrow> (case xrp_complete_hw_request (x_comm x1) rq m2 of (ret, rq) \<Rightarrow> Some (ret, False, rq, x1, m2))
    | Some e \<Rightarrow> if e = EBUSY \<and> se_reboot se then do {
          (rc, x, m) \<leftarrow> xrp_boot_firmware (se_load se) (se_synchronize se) x1 m2;
          Some (if rc \<noteq> None then (rc, x_off x, rq, x, m) else (Some EBUSY, False, rq, x, m))
        } else Some (Some e, False, rq, x1, m2))"
    unfolding exchange_def Let_def m1_def [symmetric] x1_def [symmetric] w using False by simp
  show ?thesis
  proof (cases ret)
    case None
    then show ?thesis using ex complete_hw_request_mappings [of "x_comm x1" rq m2]
      by (cases "xrp_complete_hw_request (x_comm x1) rq m2") (auto intro: that)
  next
    case (Some e)
    from assms obtain rc x2 m3 where b: "xrp_boot_firmware (se_load se) (se_synchronize se) x1 m2 = Some (rc, x2, m3)"
      using boot_returns unfolding surroundings_ok_def by metis
    show ?thesis
    proof (cases "e = EBUSY \<and> se_reboot se")
      case True
      with ex Some b have "exchange env se rq x m =
          Some (if rc \<noteq> None then (rc, x_off x2, rq, x2, m3) else (Some EBUSY, False, rq, x2, m3))" by simp
      then show ?thesis using False
        by (intro that [of "if rc \<noteq> None then rc else Some EBUSY" "rc \<noteq> None \<and> x_off x2" rq x2 m3]) auto
    next
      case False
      with ex Some have "exchange env se rq x m = Some (Some e, False, rq, x1, m2)" by auto
      then show ?thesis by (intro that [of "Some e" False rq x1 m2]) simp_all
    qed
  qed
qed

lemma exchange_or_loopback:
  assumes "surroundings_ok se" and "owns rf pf ms kn rq st"
  obtains ret went_off rq' x' m' where
    "(if x_loopback x < LOOPBACK_NOIO then exchange env se rq x (k_mem st) else Some (None, False, rq, x, k_mem st)) =
       Some (ret, went_off, rq', x', m')"
    "owns rf pf ms kn rq' (st\<lparr>k_mem := m'\<rparr>)" "went_off \<longrightarrow> ret \<noteq> None \<and> x_off x' \<and> \<not> x_off x"
proof (cases "x_loopback x < LOOPBACK_NOIO")
  case True
  then show ?thesis
    by (rule_tac exchange_ok [OF assms(1), of env rq x "k_mem st"]) (use assms(2) in \<open>auto simp: owns_def intro: that\<close>)
qed (use assms(2) in \<open>auto simp: owns_def intro: that\<close>)

lemma submit_keeps_books:
  assumes "kinv st rf pf ms" and "empty_request stack" and "kv_buffer_mapping_ok env" and "system_ok env filp (k_known st) rf"
    and "surroundings_ok se"
    and "\<And>bs. kv_get_user env (k_mem st) p sizeof_ioctl_queue = Some bs \<Longrightarrow>
      room rf ms (unat (q_buffer_size (ioctl_queue_of bs)) div sizeof_ioctl_buffer) \<and> request_shareable env (ioctl_queue_of bs)"
  shows "\<exists>ret x' st'. xrp_ioctl_submit_sync env se filp stack p x st = Some (ret, x', st') \<and> k_known st' = k_known st \<and>
    (kinv st' rf pf ms \<or> ret \<noteq> None \<and> x_off x' \<and> \<not> x_off x \<and> (\<exists>leaked. kinv st' rf pf (leaked @ ms)))"
proof (cases "kv_get_user env (k_mem st) p sizeof_ioctl_queue")
  case None
  then show ?thesis using assms(1) by (simp add: xrp_ioctl_submit_sync_def)
next
  case (Some bs)
  let ?rq = "stack\<lparr>rq_queue := ioctl_queue_of bs\<rparr>"
  show ?thesis
  proof (cases "q_flags (ioctl_queue_of bs) AND NOT XRP_QUEUE_VALID_FLAGS = 0")
    case False
    then show ?thesis using Some assms(1) by (simp add: xrp_ioctl_submit_sync_def)
  next
    case True
    have "empty_request ?rq" "room rf ms (unat (q_buffer_size (rq_queue ?rq)) div sizeof_ioctl_buffer)"
      "request_shareable env (rq_queue ?rq)" using assms(2,6) Some by (simp_all add: empty_request_def)
    from assms(1) this(1) assms(3,4) this(2,3) show ?thesis
    proof (cases rule: map_request_ok [where filp = filp])
      case (err e rq' st')
      then show ?thesis using Some True by (simp add: xrp_ioctl_submit_sync_def)
    next
      case (ok rq' st')
      obtain ret went_off rq2 x2 m2 where x:
        "(if x_loopback x < LOOPBACK_NOIO then exchange env se rq' x (k_mem st') else Some (None, False, rq', x, k_mem st')) =
           Some (ret, went_off, rq2, x2, m2)"
        "owns rf pf ms (k_known st) rq2 (st'\<lparr>k_mem := m2\<rparr>)" "went_off \<longrightarrow> ret \<noteq> None \<and> x_off x2 \<and> \<not> x_off x"
        by (rule exchange_or_loopback [OF assms(5) ok(2)])
      let ?st = "st'\<lparr>k_mem := m2\<rparr>"
      have own: "kinv ?st rf pf (rq_mappings rq2 @ ms)" "rq_arrays rq2" "k_known ?st = k_known st" using x(2) unfolding owns_def by auto
      from unmap_request_ok [OF own, of env] obtain e st1 where u: "xrp_unmap_request env ?st rq2 = Some (e, st1)"
        "kinv st1 rf pf ms" "k_known st1 = k_known st" by blast
      from unmap_request_nowb_ok [OF own, of env] obtain st2 where n: "xrp_unmap_request_nowb env ?st rq2 = Some st2"
        "kinv st2 rf pf ms" "k_known st2 = k_known st" by blast
      show ?thesis using Some True ok(1) x(1,3) u n own(1,3)
        by (auto simp: xrp_ioctl_submit_sync_def Let_def)
    qed
  qed
qed

subsection \<open>Properties\<close>


text \<open>
  A process that submits 100 bytes of input data, 4 bytes of output data and two buffers it gives no access
  to; the DSP does not answer and does not come up again.
\<close>

definition sample_queue_bytes :: "u8 list" where
  "sample_queue_bytes = [0, 0, 0, 0,  100, 0, 0, 0,  4, 0, 0, 0,  32, 0, 0, 0] @
     [0x05, 0x80, 0, 0,  0, 0, 0, 0] @ [0, 0x90, 0, 0,  0, 0, 0, 0] @ [0, 0xa0, 0, 0,  0, 0, 0, 0] @ [0, 0, 0, 0,  0, 0, 0, 0]"

definition submit_sample_env :: kenv where
  "submit_sample_env = (sample_env False)\<lparr>kv_get_user := \<lambda>m a n. Some (if n = 48 then sample_queue_bytes else replicate n 0)\<rparr>"

definition sample_stack :: xrp_request where
  "sample_stack = \<lparr>rq_queue = ioctl_queue_of [], rq_n_buffers = 0, rq_buffer_mapping = None, rq_dsp_buffer = 0,
     rq_in_data_phys = 0, rq_out_data_phys = 0, rq_dsp_buffer_phys = 0, rq_in_data_mapping = Map_none, rq_in_data = [],
     rq_out_data_mapping = Map_none, rq_out_data = [], rq_dsp_buffer_mapping = Map_none,
     rq_dsp_buffer_union = \<lparr>am_vaddr = 0, am_size = 0, am_paddr = 0, am_allocation = 0, am_type = ALIEN_GUP\<rparr>,
     rq_buffer_data = \<lparr>db_flags = 0, db_size = 0, db_addr = 0\<rparr>, rq_nsid = []\<rparr>"

definition silent_dsp :: submit_env where
  "silent_dsp = \<lparr>se_dsp = \<lambda>m. [(1, m), (0, m)], se_reboot = True, se_load = \<lambda>m. Some (None, m), se_synchronize = \<lambda>m. (Some ENODEV, m)\<rparr>"

lemma sample_queue:
  "ioctl_queue_of sample_queue_bytes = \<lparr>q_flags = 0, q_in_data_size = 100, q_out_data_size = 4, q_buffer_size = 32,
     q_in_data_addr = 0x8005, q_out_data_addr = 0x9000, q_buffer_addr = 0xa000, q_nsid_addr = 0\<rparr>"
  by code_simp

lemma sample_request_shareable: "request_shareable submit_sample_env (ioctl_queue_of sample_queue_bytes)"
proof -
  have "ib_flags (ioctl_buffer_of (replicate 16 0)) = 0" by code_simp
  then have "buffers_shareable submit_sample_env q" for q
    by (simp add: buffers_shareable_def submit_sample_env_def sizeof_ioctl_buffer_def)
  moreover have "shareable (ucast (0x8005 :: u64)) 100" "request_fits (2 * 12 + 16) 16"
    by (simp_all add: shareable_def request_fits_def eff_size_def eff_align_def round_up_def nr_pages_def page_count_def PAGE_SIZE_def)
  ultimately show ?thesis
    by (simp add: request_shareable_def sample_queue XRP_DSP_CMD_INLINE_DATA_SIZE_def sizeof_ioctl_buffer_def sizeof_dsp_buffer_def)
qed


text \<open>
  C35: The request structure of a submission is not initialised.  If its stale contents look like the mapping of
  an allocation, and the input data cannot be shared, the error path releases that allocation: it is freed
  although a reference to it is still held, and the books are wrong.
\<close>

theorem uninitialised_request_released:
  assumes "kv_get_user env (k_mem st) p sizeof_ioctl_queue = Some bs" and "q = ioctl_queue_of bs"
    and "q_flags q = 0" and "q_in_data_size q > 16" and "q_out_data_size q \<le> 16" and "q_buffer_size q < 16"
    and "kv_find_vma env (ucast (q_in_data_addr q)) = None"
    and "rq_in_data_mapping stack = Map_native i" and "k_allocs st i = Some a" and "a_ref a = 1"
    and "kinv st rf pf ms"
  shows "\<exists>st'. xrp_ioctl_submit_sync env se filp stack p x st = Some (Some EINVAL, x, st') \<and>
    k_allocs st' i = None \<and> \<not> kinv st' rf pf ms"
proof -
  obtain r pl where put: "xrp_allocation_put xrp_private_free (k_pool st) a = (r, pl)" by fastforce
  with assms(10) have "r = None" by (simp add: xrp_allocation_put_def)
  define st' where "st' = st\<lparr>k_pool := pl, k_allocs := (k_allocs st)(i := None)\<rparr>"
  have un: "unshare env st (Map_native i) 0 = Some st'"
    using put \<open>r = None\<close> assms(9) by (simp add: unshare_def xrp_unshare_block_def k_put_def st'_def)
  have n: "unat (q_buffer_size q) div sizeof_ioctl_buffer = 0"
    using assms(6) by (simp add: sizeof_ioctl_buffer_def word_less_nat_alt)
  let ?rq = "stack\<lparr>rq_queue := q\<rparr>"
  let ?rn = "?rq\<lparr>rq_n_buffers := 0\<rparr>"
  have "map_nsid env ?rq st = Some (None, ?rq, st)" using assms(3) by (simp add: map_nsid_def)
  moreover have "alloc_arrays env ?rq st = Some (None, ?rn, st)" using n by (simp add: alloc_arrays_def Let_def)
  moreover have "share_request env filp ?rn st = Some (Some EINVAL, ?rn, st)"
    using assms(4,7)
    by (simp add: share_request_def map_in_data_def and_then_def XRP_DSP_CMD_INLINE_DATA_SIZE_def xrp_share_block_def Let_def)
  moreover have "xrp_unmap_request_nowb env st ?rn = Some st'"
    using assms(4,8) leD [OF assms(5)] un by (simp add: xrp_unmap_request_nowb_def XRP_DSP_CMD_INLINE_DATA_SIZE_def)
  ultimately have "xrp_map_request env filp ?rq st = Some (Some EINVAL, ?rn, st')"
    by (simp add: xrp_map_request_def and_then_def)
  then have "xrp_ioctl_submit_sync env se filp stack p x st = Some (Some EINVAL, x, st')"
    using assms(1-3) by (simp add: xrp_ioctl_submit_sync_def)
  moreover have "rf i + (\<Sum>m\<leftarrow>ms. count_list (map_refs m) i) = 1"
    using assms(9-11) by (simp add: kinv_def refs_ok_def)
  then have "\<not> kinv st' rf pf ms" by (auto simp: kinv_def refs_ok_def st'_def)
  ultimately show ?thesis by (simp add: st'_def)
qed

text \<open>An allocation that a process has mapped, and input data behind the end of its address space.\<close>

definition stale_kst :: kst where
  "stale_kst = sample_kst\<lparr>k_pool := \<lparr>p_start = 0x100000, p_size = 0x4000,
       free_list = [\<lparr>a_start = 0x101000, a_size = 0x3000, a_ref = 0\<rparr>]\<rparr>,
     k_allocs := [0 \<mapsto> \<lparr>a_start = 0x100000, a_size = 0x1000, a_ref = 1\<rparr>], k_next := 1\<rparr>"

definition stale_queue_bytes :: "u8 list" where
  "stale_queue_bytes = [0, 0, 0, 0,  100, 0, 0, 0,  4, 0, 0, 0,  0, 0, 0, 0] @ [0, 0, 0, 0xff,  0, 0, 0, 0] @ replicate 24 0"

definition stale_env :: kenv where
  "stale_env = (sample_env False)\<lparr>kv_get_user := \<lambda>m a n. Some stale_queue_bytes\<rparr>"

lemma stale_kinv: "kinv stale_kst (\<lambda>i. if i = 0 then 1 else 0) (\<lambda>_. 0) []"
  by (auto simp: kinv_def refs_ok_def stale_kst_def sample_kst_def accounted_def tiles_def pool_wf_def pool_free_def pool_span_def
      live_of_def map_filter_simps bytes_def)

theorem uninitialised_request_released_witness:
  "\<exists>st'. xrp_ioctl_submit_sync stale_env silent_dsp 0 (sample_stack\<lparr>rq_in_data_mapping := Map_native 0\<rparr>) 0x7000 sample_xvp stale_kst =
      Some (Some EINVAL, sample_xvp, st') \<and>
    k_allocs st' 0 = None \<and> \<not> kinv st' (\<lambda>i. if i = 0 then 1 else 0) (\<lambda>_. 0) []"
proof -
  have "ioctl_queue_of stale_queue_bytes = \<lparr>q_flags = 0, q_in_data_size = 100, q_out_data_size = 4, q_buffer_size = 0,
     q_in_data_addr = 0xff000000, q_out_data_addr = 0, q_buffer_addr = 0, q_nsid_addr = 0\<rparr>" by code_simp
  then show ?thesis
    by (intro uninitialised_request_released [OF _ refl _ _ _ _ _ _ _ _ stale_kinv, where bs = stale_queue_bytes
      and a = "\<lparr>a_start = 0x100000, a_size = 0x1000, a_ref = 1\<rparr>"])
      (simp_all add: stale_env_def sample_env_def stale_kst_def sample_stack_def)
qed

end
