(* ===== verification/XRP_Dsp_Ns.thy ===== *)
theory XRP_Dsp_Ns
  imports XRP_Interface "HOL-Library.List_Lexorder" "HOL-Library.Monad_Syntax"
begin

text \<open>
  The command namespace table of the DSP library, \<^verbatim>\<open>xrp-dsp/xrp_dsp.c\<close> (lines 57--88 and 151--280, and
  the operations at 672--709): a growing array of handlers sorted by the 16-byte namespace id.

  Model: the array \<open>cmd_ns\<close> is \<open>None\<close> for the null pointer, or a list of \<open>size_cmd_ns\<close> slots; a slot
  is \<open>None\<close> until something is stored in it.  A pointer into the array is its index.  A read of a slot
  outside the array or never written is the value \<open>None\<close> of the option type around the results.  The
  outcome of \<open>realloc\<close> is a boolean argument.  The counters are natural numbers: an array of
  24-byte elements fills the 32-bit address space before they could wrap.

  Shown: the invariant \<open>ns_wf\<close>, that registering and unregistering refine a finite map, and that the
  binary search is right and reads no invalid slot.
\<close>

subsection \<open>Data and operations\<close>

record xrp_cmd_ns =
  ns_id :: "u8 list"
  ns_handler :: u32
  ns_context :: u32

record xrp_device =
  dev_ref :: u32
  dsp_cmd :: u32
  n_cmd_ns :: nat
  cmd_ns :: "xrp_cmd_ns option list option"

text \<open>The C standard library's \<open>memcmp\<close> on two regions of the same size.\<close>

fun memcmp :: "u8 list \<Rightarrow> u8 list \<Rightarrow> int" where
  "memcmp (x # xs) (y # ys) = (if x = y then memcmp xs ys else uint x - uint y)"
| "memcmp _ _ = 0"

definition slots :: "xrp_device \<Rightarrow> xrp_cmd_ns option list" where
  "slots dev = (case cmd_ns dev of None \<Rightarrow> [] | Some arr \<Rightarrow> arr)"

abbreviation size_cmd_ns :: "xrp_device \<Rightarrow> nat" where
  "size_cmd_ns dev \<equiv> length (slots dev)"

text \<open>Reading \<open>device->cmd_ns[i]\<close>.\<close>

definition ns_at :: "xrp_device \<Rightarrow> nat \<Rightarrow> xrp_cmd_ns option" where
  "ns_at dev i = (if i < size_cmd_ns dev then slots dev ! i else None)"

definition compare_cmd_ns :: "u8 list \<Rightarrow> xrp_cmd_ns \<Rightarrow> int" where
  "compare_cmd_ns nsid ns = memcmp nsid (ns_id ns)"

text \<open>The pointer tested for null is \<open>device->cmd_ns + i\<close>.\<close>

definition cmd_ns_match :: "xrp_device \<Rightarrow> u8 list \<Rightarrow> nat \<Rightarrow> bool option" where
  "cmd_ns_match dev nsid i =
     (if cmd_ns dev = None \<and> i = 0 then Some False
      else do { ns \<leftarrow> ns_at dev i; Some (compare_cmd_ns nsid ns = 0) })"

function find_loop :: "xrp_device \<Rightarrow> u8 list \<Rightarrow> nat \<Rightarrow> nat \<Rightarrow> (nat \<times> nat) option" where
  "find_loop dev nsid a b =
     (if 1 < b - a then
        let c = (a + b) div 2 in
        case ns_at dev c of
          None \<Rightarrow> None
        | Some p \<Rightarrow> if compare_cmd_ns nsid p < 0 then find_loop dev nsid a c else find_loop dev nsid c b
      else Some (a, b))"
  by pat_completeness auto
termination
  by (relation "measure (\<lambda>(dev, nsid, a, b). b - a)") auto

declare find_loop.simps [simp del]

definition find_cmd_ns :: "xrp_device \<Rightarrow> u8 list \<Rightarrow> nat option" where
  "find_cmd_ns dev nsid = do {
     (a, b) \<leftarrow> find_loop dev nsid 0 (n_cmd_ns dev);
     if a < b then do { p \<leftarrow> ns_at dev a; Some (if 0 < compare_cmd_ns nsid p then a + 1 else a) }
     else Some a
   }"

definition cmd_ns_present :: "xrp_device \<Rightarrow> nat \<Rightarrow> bool" where
  "cmd_ns_present dev i \<longleftrightarrow> i < n_cmd_ns dev"

text \<open>\<open>memmove\<close> of \<open>k\<close> elements inside one array; \<open>None\<close> if either range leaves the array.\<close>

definition memmove :: "'a list \<Rightarrow> nat \<Rightarrow> nat \<Rightarrow> nat \<Rightarrow> 'a list option" where
  "memmove arr dst src k =
     (if dst + k \<le> length arr \<and> src + k \<le> length arr
      then Some (take dst arr @ take k (drop src arr) @ drop (dst + k) arr) else None)"

text \<open>
  \<open>insert_cmd_ns\<close> returns the device and whether there is a slot (always the one asked for).  The first
  step is the call of \<open>realloc\<close>.
\<close>

definition grow_cmd_ns :: "bool \<Rightarrow> xrp_device \<Rightarrow> xrp_device option" where
  "grow_cmd_ns realloc_ok dev =
     (if n_cmd_ns dev = size_cmd_ns dev then
        if realloc_ok
        then Some (dev\<lparr>cmd_ns := Some (slots dev @
               replicate ((size_cmd_ns dev + 1) * 2 - size_cmd_ns dev) None)\<rparr>)
        else None
      else Some dev)"

definition insert_cmd_ns :: "bool \<Rightarrow> xrp_device \<Rightarrow> nat \<Rightarrow> (xrp_device \<times> bool) option" where
  "insert_cmd_ns realloc_ok dev i =
     (case grow_cmd_ns realloc_ok dev of
        None \<Rightarrow> Some (dev, False)
      | Some dev \<Rightarrow> do {
          arr \<leftarrow> memmove (slots dev) (i + 1) i (n_cmd_ns dev - i);
          Some (dev\<lparr>cmd_ns := Some arr, n_cmd_ns := n_cmd_ns dev + 1\<rparr>, True)
        })"

definition remove_cmd_ns :: "xrp_device \<Rightarrow> nat \<Rightarrow> xrp_device option" where
  "remove_cmd_ns dev i = do {
     arr \<leftarrow> memmove (slots dev) i (i + 1) (n_cmd_ns dev - i - 1);
     Some (dev\<lparr>cmd_ns := Some arr, n_cmd_ns := n_cmd_ns dev - 1\<rparr>)
   }"

definition xrp_device_register_namespace ::
  "bool \<Rightarrow> xrp_device \<Rightarrow> u8 list \<Rightarrow> u32 \<Rightarrow> u32 \<Rightarrow> (xrp_device \<times> xrp_status) option" where
  "xrp_device_register_namespace realloc_ok dev nsid handler handler_context = do {
     i \<leftarrow> find_cmd_ns dev nsid;
     dup \<leftarrow> (if cmd_ns_present dev i then cmd_ns_match dev nsid i else Some False);
     if dup then Some (dev, XRP_STATUS_FAILURE)
     else do {
       (dev, ok) \<leftarrow> insert_cmd_ns realloc_ok dev i;
       if ok then
         Some (dev\<lparr>cmd_ns := Some ((slots dev)[i := Some
                 \<lparr>ns_id = nsid, ns_handler = handler, ns_context = handler_context\<rparr>])\<rparr>,
               XRP_STATUS_SUCCESS)
       else Some (dev, XRP_STATUS_FAILURE)
     }
   }"

definition xrp_device_unregister_namespace ::
  "xrp_device \<Rightarrow> u8 list \<Rightarrow> (xrp_device \<times> xrp_status) option" where
  "xrp_device_unregister_namespace dev nsid = do {
     i \<leftarrow> find_cmd_ns dev nsid;
     present \<leftarrow> (if cmd_ns_present dev i then cmd_ns_match dev nsid i else Some False);
     if present then do { dev \<leftarrow> remove_cmd_ns dev i; Some (dev, XRP_STATUS_SUCCESS) }
     else Some (dev, XRP_STATUS_FAILURE)
   }"

text \<open>
  The choice of the handler in \<open>process_command\<close>: \<open>Some None\<close> means that the namespace was not found.
\<close>

definition lookup_handler :: "xrp_device \<Rightarrow> u8 list \<Rightarrow> (u32 \<times> u32) option option" where
  "lookup_handler dev nsid = do {
     i \<leftarrow> find_cmd_ns dev nsid;
     found \<leftarrow> cmd_ns_match dev nsid i;
     if found then do { ns \<leftarrow> ns_at dev i; Some (Some (ns_handler ns, ns_context ns)) }
     else Some None
   }"

subsection \<open>Specification\<close>

abbreviation nsid_size :: nat where
  "nsid_size \<equiv> XRP_DSP_CMD_NAMESPACE_ID_SIZE"

text \<open>The registered entries, and the table as a finite map.\<close>

definition live :: "xrp_device \<Rightarrow> xrp_cmd_ns list" where
  "live dev = map the (take (n_cmd_ns dev) (slots dev))"

definition sorted_ns :: "xrp_cmd_ns list \<Rightarrow> bool" where
  "sorted_ns es \<longleftrightarrow> sorted_wrt (<) (map ns_id es) \<and> (\<forall>e\<in>set es. length (ns_id e) = nsid_size)"

definition ns_wf :: "xrp_device \<Rightarrow> bool" where
  "ns_wf dev \<longleftrightarrow> n_cmd_ns dev \<le> size_cmd_ns dev \<and> None \<notin> set (take (n_cmd_ns dev) (slots dev)) \<and>
     sorted_ns (live dev)"

definition handlers :: "xrp_device \<Rightarrow> u8 list \<rightharpoonup> u32 \<times> u32" where
  "handlers dev = map_of (map (\<lambda>e. (ns_id e, (ns_handler e, ns_context e))) (live dev))"

text \<open>\<open>position es x\<close>: where \<open>x\<close> is in the sorted table or belongs.\<close>

definition position :: "xrp_cmd_ns list \<Rightarrow> u8 list \<Rightarrow> nat \<Rightarrow> bool" where
  "position es x i \<longleftrightarrow> i \<le> length es \<and> (\<forall>j<i. ns_id (es ! j) < x) \<and>
     (\<forall>j. i \<le> j \<and> j < length es \<longrightarrow> x \<le> ns_id (es ! j))"

text \<open>The invariant of the search: everything before \<open>a\<close> is smaller, everything from \<open>b\<close> on is greater.\<close>

definition bracket :: "xrp_device \<Rightarrow> u8 list \<Rightarrow> nat \<Rightarrow> nat \<Rightarrow> bool" where
  "bracket dev x a b \<longleftrightarrow> a \<le> b \<and> b \<le> n_cmd_ns dev \<and> (\<forall>j<a. ns_id (live dev ! j) < x) \<and>
     (\<forall>j. b \<le> j \<and> j < n_cmd_ns dev \<longrightarrow> x < ns_id (live dev ! j))"

text \<open>Sequences of registrations and removals on a table, and what they mean for the finite map.\<close>

datatype ns_op = Ns_register "u8 list" u32 u32 | Ns_unregister "u8 list"

fun ns_op_id :: "ns_op \<Rightarrow> u8 list" where
  "ns_op_id (Ns_register x h c) = x"
| "ns_op_id (Ns_unregister x) = x"

fun ns_run ::
  "('t \<Rightarrow> u8 list \<Rightarrow> u32 \<Rightarrow> u32 \<Rightarrow> ('t \<times> xrp_status) option) \<Rightarrow> ('t \<Rightarrow> u8 list \<Rightarrow> ('t \<times> xrp_status) option) \<Rightarrow>
     't \<Rightarrow> ns_op list \<Rightarrow> ('t \<times> xrp_status list) option" where
  "ns_run reg unreg t [] = Some (t, [])"
| "ns_run reg unreg t (x # xs) = do {
     (t, s) \<leftarrow> (case x of Ns_register i h c \<Rightarrow> reg t i h c | Ns_unregister i \<Rightarrow> unreg t i);
     (t, ss) \<leftarrow> ns_run reg unreg t xs;
     Some (t, s # ss)
   }"

fun ns_spec_step :: "(u8 list \<rightharpoonup> u32 \<times> u32) \<Rightarrow> ns_op \<Rightarrow> (u8 list \<rightharpoonup> u32 \<times> u32) \<times> xrp_status" where
  "ns_spec_step m (Ns_register x h c) =
     (if x \<in> dom m then (m, XRP_STATUS_FAILURE) else (m(x \<mapsto> (h, c)), XRP_STATUS_SUCCESS))"
| "ns_spec_step m (Ns_unregister x) =
     (if x \<in> dom m then (m(x := None), XRP_STATUS_SUCCESS) else (m, XRP_STATUS_FAILURE))"

fun ns_spec :: "(u8 list \<rightharpoonup> u32 \<times> u32) \<Rightarrow> ns_op list \<Rightarrow> (u8 list \<rightharpoonup> u32 \<times> u32) \<times> xrp_status list" where
  "ns_spec m [] = (m, [])"
| "ns_spec m (x # xs) =
     (let (m, s) = ns_spec_step m x; (m, ss) = ns_spec m xs in (m, s # ss))"

text \<open>The static device before the first registration, and two namespace ids.\<close>

definition fresh_device :: xrp_device where
  "fresh_device = \<lparr>dev_ref = 0, dsp_cmd = 0, n_cmd_ns = 0, cmd_ns = None\<rparr>"

definition sample_id :: "u8 \<Rightarrow> u8 list" where
  "sample_id b = b # replicate 15 0"

subsection \<open>Comparison of ids\<close>

lemma memcmp_less: "length x = length y \<Longrightarrow> memcmp x y < 0 \<longleftrightarrow> x < y"
  by (induction x y rule: list_induct2) (simp_all add: word_less_def)

lemma memcmp_greater: "length x = length y \<Longrightarrow> 0 < memcmp x y \<longleftrightarrow> y < x"
  by (induction x y rule: list_induct2) (simp_all add: word_less_def eq_commute)

lemma memcmp_equal: "length x = length y \<Longrightarrow> memcmp x y = 0 \<longleftrightarrow> x = y"
  by (induction x y rule: list_induct2) (auto dest: unsigned_word_eqI)

lemma compare_cmd_ns_order:
  assumes "length x = nsid_size" and "length (ns_id e) = nsid_size"
  shows "compare_cmd_ns x e < 0 \<longleftrightarrow> x < ns_id e" "compare_cmd_ns x e = 0 \<longleftrightarrow> x = ns_id e"
    "0 < compare_cmd_ns x e \<longleftrightarrow> ns_id e < x"
  using assms by (simp_all add: compare_cmd_ns_def memcmp_less memcmp_equal memcmp_greater)

subsection \<open>The sorted table\<close>

lemma length_live [simp]: "ns_wf dev \<Longrightarrow> length (live dev) = n_cmd_ns dev"
  by (simp add: live_def ns_wf_def)

lemma ns_at_live:
  assumes "ns_wf dev" and "i < n_cmd_ns dev"
  shows "ns_at dev i = Some (live dev ! i)"
proof -
  have i: "i < size_cmd_ns dev" using assms by (simp add: ns_wf_def)
  then have "slots dev ! i \<in> set (take (n_cmd_ns dev) (slots dev))"
    using assms by (auto simp: in_set_conv_nth)
  then have "slots dev ! i \<noteq> None" using assms(1) unfolding ns_wf_def by metis
  with i assms(2) show ?thesis by (auto simp: ns_at_def live_def)
qed

lemma live_id_length:
  assumes "ns_wf dev" and "i < n_cmd_ns dev"
  shows "length (ns_id (live dev ! i)) = nsid_size"
proof -
  have "live dev ! i \<in> set (live dev)" using assms by simp
  then show ?thesis using assms(1) unfolding ns_wf_def sorted_ns_def by blast
qed

lemma live_mono:
  assumes "ns_wf dev" and "i < j" and "j < n_cmd_ns dev"
  shows "ns_id (live dev ! i) < ns_id (live dev ! j)"
  using sorted_wrt_nth_less [of "(<)" "map ns_id (live dev)" i j] assms
  by (simp add: ns_wf_def sorted_ns_def live_def)

lemma find_loop_spec:
  assumes "ns_wf dev" and "length x = nsid_size" and "bracket dev x a b"
  shows "\<exists>a' b'. find_loop dev x a b = Some (a', b') \<and> bracket dev x a' b' \<and> b' \<le> a' + 1 \<and> (a < b \<longrightarrow> a' < b')"
  using assms
proof (induction dev x a b rule: find_loop.induct)
  case (1 dev x a b)
  show ?case
  proof (cases "1 < b - a")
    case True
    define c where "c = (a + b) div 2"
    have c: "a < c" "c < b" "c < n_cmd_ns dev" using True "1.prems"(3) by (auto simp: c_def bracket_def)
    note at = ns_at_live [OF "1.prems"(1) c(3)]
    note cmp = compare_cmd_ns_order [OF "1.prems"(2) live_id_length [OF "1.prems"(1) c(3)]]
    show ?thesis
    proof (cases "x < ns_id (live dev ! c)")
      case less: True
      have "x < ns_id (live dev ! j)" if "c \<le> j" "j < n_cmd_ns dev" for j
        using less live_mono [OF "1.prems"(1), of c j] that by (cases "j = c") auto
      then have "bracket dev x a c" using "1.prems"(3) c by (simp add: bracket_def)
      from "1.IH"(1) [OF True c_def at _ "1.prems"(1,2) this] less cmp c show ?thesis
        by (subst find_loop.simps) (simp add: True at c_def [symmetric])
    next
      case ge: False
      have "ns_id (live dev ! j) < x" if "j < c" for j
        using ge live_mono [OF "1.prems"(1) that c(3)] by (simp add: not_less)
      then have "bracket dev x c b" using "1.prems"(3) c by (simp add: bracket_def)
      from "1.IH"(2) [OF True c_def at _ "1.prems"(1,2) this] ge cmp c show ?thesis
        by (subst find_loop.simps) (simp add: True at c_def [symmetric])
    qed
  next
    case False
    with "1.prems"(3) show ?thesis by (subst find_loop.simps) auto
  qed
qed

lemma find_cmd_ns_spec:
  assumes "ns_wf dev" and "length x = nsid_size"
  shows "\<exists>i. find_cmd_ns dev x = Some i \<and> position (live dev) x i"
proof -
  have "bracket dev x 0 (n_cmd_ns dev)" by (auto simp: bracket_def)
  from find_loop_spec [OF assms this] obtain a b where
    ab: "find_loop dev x 0 (n_cmd_ns dev) = Some (a, b)" "bracket dev x a b" "b \<le> a + 1" "0 < n_cmd_ns dev \<longrightarrow> a < b"
    by (elim exE conjE)
  show ?thesis
  proof (cases "a < b")
    case True
    then have a: "a < n_cmd_ns dev" "b = a + 1" using ab by (auto simp: bracket_def)
    note cmp = compare_cmd_ns_order [OF assms(2) live_id_length [OF assms(1) a(1)]]
    have gt: "x < ns_id (live dev ! j)" if "a < j" "j < n_cmd_ns dev" for j
      using ab(2) a that by (simp add: bracket_def)
    have lt: "ns_id (live dev ! j) < x" if "j < a" for j
      using ab(2) that by (simp add: bracket_def)
    show ?thesis
    proof (cases "ns_id (live dev ! a) < x")
      case True
      then have "position (live dev) x (a + 1)"
        using assms(1) a gt lt by (auto simp: position_def less_Suc_eq intro: less_imp_le)
      with True show ?thesis using a cmp ab(1) ns_at_live [OF assms(1) a(1)] by (simp add: find_cmd_ns_def)
    next
      case False
      have "x \<le> ns_id (live dev ! j)" if "a \<le> j" "j < n_cmd_ns dev" for j
        using False gt [of j] that by (cases "j = a") (auto simp: not_less)
      then have "position (live dev) x a" using assms(1) a lt by (simp add: position_def)
      with False show ?thesis using a cmp ab(1) ns_at_live [OF assms(1) a(1)] by (simp add: find_cmd_ns_def)
    qed
  next
    case False
    then have "n_cmd_ns dev = 0" "a = 0" using ab by (auto simp: bracket_def)
    then show ?thesis using False ab(1) assms(1) by (simp add: find_cmd_ns_def position_def)
  qed
qed

subsection \<open>Insertion and removal\<close>

lemma position_found:
  assumes "ns_wf dev" and "position (live dev) x i"
  shows "x \<in> ns_id ` set (live dev) \<longleftrightarrow> i < n_cmd_ns dev \<and> ns_id (live dev ! i) = x"
proof
  assume "x \<in> ns_id ` set (live dev)"
  then obtain j where j: "j < n_cmd_ns dev" "ns_id (live dev ! j) = x"
    using assms(1) by (auto simp: in_set_conv_nth)
  have "\<not> j < i" using assms(2) j by (auto simp: position_def)
  moreover have "\<not> i < j"
  proof
    assume "i < j"
    then have "x \<le> ns_id (live dev ! i)" "ns_id (live dev ! i) < x"
      using assms j live_mono [OF assms(1), of i j] by (auto simp: position_def)
    then show False by simp
  qed
  ultimately show "i < n_cmd_ns dev \<and> ns_id (live dev ! i) = x" using j by (metis linorder_neqE_nat)
qed (use assms(1) in auto)

lemma take_memmove_up:
  assumes "i \<le> n" and "n < length A" and "memmove A (i + 1) i (n - i) = Some B"
  shows "take (Suc n) (B[i := v]) = take i A @ v # drop i (take n A) \<and> length B = length A"
proof -
  have B: "B = take i A @ A ! i # take (n - i) (drop i A) @ drop (n + 1) A"
    using assms by (auto simp: memmove_def take_Suc_conv_app_nth split: if_splits)
  have "B[i := v] = (take i A @ v # drop i (take n A)) @ drop (n + 1) A"
    using assms(1,2) by (simp add: B list_update_append drop_take)
  moreover have "length (take i A @ v # drop i (take n A)) = Suc n" using assms(1,2) by simp
  moreover have "length B = length A" using assms(1,2) by (simp add: B)
  ultimately show ?thesis by (metis append_eq_conv_conj)
qed

lemma take_memmove_down:
  assumes "i < n" and "n \<le> length A" and "memmove A i (i + 1) (n - i - 1) = Some B"
  shows "take (n - 1) B = take i A @ drop (Suc i) (take n A) \<and> length B = length A"
proof -
  have B: "B = (take i A @ drop (Suc i) (take n A)) @ drop (i + (n - i - 1)) A"
    using assms by (auto simp: memmove_def drop_take split: if_splits)
  have "length (take i A @ drop (Suc i) (take n A)) = n - 1" using assms(1,2) by simp
  with assms(1,2) show ?thesis by (simp add: B)
qed

lemma map_of_insert_mid:
  "x \<notin> fst ` set A \<Longrightarrow> map_of (A @ (x, v) # B) = (map_of (A @ B))(x \<mapsto> v)"
  by (simp add: map_add_upd_left dom_map_of_conv_image_fst)

lemma map_of_delete_mid:
  assumes "x \<notin> fst ` set A" and "x \<notin> fst ` set B"
  shows "map_of (A @ B) = (map_of (A @ (x, v) # B))(x := None)"
proof -
  have "map_of (A @ B) x = None" using assms by (auto simp: map_of_eq_None_iff)
  then show ?thesis by (simp only: map_of_insert_mid [OF assms(1)] fun_upd_upd fun_upd_idem)
qed

lemma sorted_ns_insert:
  assumes "sorted_ns es" and "position es (ns_id e) i" and "ns_id e \<notin> ns_id ` set es"
    and "length (ns_id e) = nsid_size"
  shows "sorted_ns (take i es @ e # drop i es)"
proof -
  have "sorted_wrt (<) (map ns_id (take i es @ drop i es))" using assms(1) by (simp add: sorted_ns_def)
  moreover have "ns_id a < ns_id e" if "a \<in> set (take i es)" for a
    using that assms(2) by (auto simp: position_def in_set_conv_nth)
  moreover have "ns_id e < ns_id b" if "b \<in> set (drop i es)" for b
  proof -
    have "ns_id e \<le> ns_id b" using that assms(2) by (auto simp: position_def in_set_conv_nth)
    moreover have "b \<in> set es" using that by (rule in_set_dropD)
    ultimately show ?thesis using assms(3) by (metis imageI order_le_less)
  qed
  ultimately show ?thesis
    using assms(1,4) unfolding sorted_ns_def map_append list.map sorted_wrt_append sorted_wrt.simps
    by (auto dest: in_set_takeD in_set_dropD)
qed

lemma sorted_ns_remove:
  assumes "sorted_ns es" and "i < length es"
  shows "sorted_ns (take i es @ drop (Suc i) es)"
proof -
  have "sorted_ns (take i es @ es ! i # drop (Suc i) es)"
    using assms by (simp add: id_take_nth_drop [symmetric])
  then show ?thesis by (auto simp: sorted_ns_def sorted_wrt_append)
qed

lemma slots_upd [simp]:
  "slots (dev\<lparr>cmd_ns := Some arr\<rparr>) = arr" "slots (dev\<lparr>n_cmd_ns := k\<rparr>) = slots dev"
  by (simp_all add: slots_def)

lemma grow_cmd_ns_spec:
  assumes "grow_cmd_ns ok dev = Some dev'" and "ns_wf dev"
  shows "ns_wf dev' \<and> live dev' = live dev \<and> n_cmd_ns dev' = n_cmd_ns dev \<and> n_cmd_ns dev' < size_cmd_ns dev'"
  using assms by (auto simp: grow_cmd_ns_def ns_wf_def live_def split: if_splits)

text \<open>The live entries after \<open>insert_cmd_ns\<close> at the found place and storing the entry, and after \<open>remove_cmd_ns\<close>.\<close>

lemma insert_live:
  assumes "ns_wf dev" and "position (live dev) (ns_id e) i" and "ns_id e \<notin> ns_id ` set (live dev)"
    and "length (ns_id e) = nsid_size" and "grow_cmd_ns ok dev = Some dev1"
  shows "\<exists>dev'. insert_cmd_ns ok dev i = Some (dev', True) \<and>
    (let dev'' = dev'\<lparr>cmd_ns := Some ((slots dev')[i := Some e])\<rparr> in
       ns_wf dev'' \<and> live dev'' = take i (live dev) @ e # drop i (live dev))"
proof -
  note g = grow_cmd_ns_spec [OF assms(5,1)]
  let ?A = "slots dev1" and ?n = "n_cmd_ns dev1"
  have i: "i \<le> ?n" "?n < length ?A" using g assms(1,2) by (auto simp: position_def)
  then obtain B where B: "memmove ?A (i + 1) i (?n - i) = Some B" by (simp add: memmove_def)
  note t = take_memmove_up [OF i B, of "Some e"]
  let ?d = "dev1\<lparr>n_cmd_ns := ?n + 1, cmd_ns := Some (B[i := Some e])\<rparr>"
  have "live ?d = take i (live dev1) @ e # drop i (live dev1)"
    using t i(1) by (simp add: live_def take_map drop_map min_absorb1)
  then have live: "live ?d = take i (live dev) @ e # drop i (live dev)" using g by simp
  have "set (take (Suc ?n) (B[i := Some e])) \<subseteq> insert (Some e) (set (take ?n ?A))"
    using t i by (auto dest: in_set_dropD in_set_takeD simp: set_take_subset_set_take subsetD [OF set_take_subset_set_take])
  then have "None \<notin> set (take (Suc ?n) (B[i := Some e]))" using g by (auto simp: ns_wf_def)
  moreover have "sorted_ns (live ?d)"
    unfolding live using assms(1-4) by (intro sorted_ns_insert) (auto simp: ns_wf_def)
  ultimately have "ns_wf ?d" using i t by (simp add: ns_wf_def)
  with live show ?thesis using B assms(5) by (auto simp: insert_cmd_ns_def Let_def)
qed

lemma remove_live:
  assumes "ns_wf dev" and "i < n_cmd_ns dev"
  shows "\<exists>dev'. remove_cmd_ns dev i = Some dev' \<and> ns_wf dev' \<and>
    live dev' = take i (live dev) @ drop (Suc i) (live dev)"
proof -
  let ?A = "slots dev" and ?n = "n_cmd_ns dev"
  have n: "?n \<le> length ?A" using assms(1) by (simp add: ns_wf_def)
  then obtain B where B: "memmove ?A i (i + 1) (?n - i - 1) = Some B"
    using assms(2) by (cases "memmove ?A i (i + 1) (?n - i - 1)") (auto simp: memmove_def split: if_splits)
  note t = take_memmove_down [OF assms(2) n B]
  let ?d = "dev\<lparr>cmd_ns := Some B, n_cmd_ns := ?n - 1\<rparr>"
  have live: "live ?d = take i (live dev) @ drop (Suc i) (live dev)"
    using t assms(2) by (simp add: live_def take_map drop_map min_absorb1)
  have "set (take (?n - 1) B) \<subseteq> set (take ?n ?A)"
    using t assms(2) by (auto dest: in_set_dropD subsetD [OF set_take_subset_set_take [OF less_imp_le]])
  then have "None \<notin> set (take (?n - 1) B)" using assms(1) by (auto simp: ns_wf_def)
  moreover have "sorted_ns (live ?d)"
    unfolding live using assms by (intro sorted_ns_remove) (auto simp: ns_wf_def)
  ultimately have "ns_wf ?d" using n t by (simp add: ns_wf_def)
  with live show ?thesis using B by (auto simp: remove_cmd_ns_def)
qed

text \<open>The lookup of the two operations: they find the entry exactly if the id is registered.\<close>

lemma present_match:
  assumes "ns_wf dev" and "length x = nsid_size" and "position (live dev) x i"
  shows "(if cmd_ns_present dev i then cmd_ns_match dev x i else Some False) = Some (x \<in> ns_id ` set (live dev))"
proof (cases "i < n_cmd_ns dev")
  case True
  then have "cmd_ns dev \<noteq> None" using assms(1) by (cases "cmd_ns dev") (auto simp: ns_wf_def slots_def)
  with True show ?thesis
    using position_found [OF assms(1,3)] compare_cmd_ns_order(2) [OF assms(2) live_id_length [OF assms(1) True]]
    by (auto simp: cmd_ns_present_def cmd_ns_match_def ns_at_live [OF assms(1)])
next
  case False
  then show ?thesis using position_found [OF assms(1,3)] by (simp add: cmd_ns_present_def)
qed

lemma dom_handlers: "dom (handlers dev) = ns_id ` set (live dev)"
  by (simp add: handlers_def dom_map_of_conv_image_fst image_image)

lemma handlers_insert:
  assumes "ns_wf dev" and "position (live dev) (ns_id e) i"
    and "live dev' = take i (live dev) @ e # drop i (live dev)"
  shows "handlers dev' = (handlers dev)(ns_id e \<mapsto> (ns_handler e, ns_context e))"
proof -
  let ?f = "\<lambda>e. (ns_id e, (ns_handler e, ns_context e))"
  have "ns_id a < ns_id e" if "a \<in> set (take i (live dev))" for a
    using that assms(2) by (auto simp: position_def in_set_conv_nth)
  then have "ns_id e \<notin> fst ` set (map ?f (take i (live dev)))" by force
  from map_of_insert_mid [OF this, of "(ns_handler e, ns_context e)" "map ?f (drop i (live dev))"]
  have "map_of (map ?f (take i (live dev) @ e # drop i (live dev))) =
      (map_of (map ?f (take i (live dev) @ drop i (live dev))))(ns_id e \<mapsto> (ns_handler e, ns_context e))"
    by (simp only: map_append list.map)
  then show ?thesis by (simp only: handlers_def assms(3) append_take_drop_id)
qed

lemma handlers_remove:
  assumes "ns_wf dev" and "i < n_cmd_ns dev" and "live dev' = take i (live dev) @ drop (Suc i) (live dev)"
  shows "handlers dev' = (handlers dev)(ns_id (live dev ! i) := None)"
proof -
  let ?f = "\<lambda>e. (ns_id e, (ns_handler e, ns_context e))" and ?e = "live dev ! i"
  have s: "take i (live dev) @ ?e # drop (Suc i) (live dev) = live dev"
    using assms(1,2) by (simp add: id_take_nth_drop [symmetric])
  have "sorted_ns (take i (live dev) @ ?e # drop (Suc i) (live dev))"
    unfolding s using assms(1) by (simp add: ns_wf_def)
  then have "ns_id ?e \<notin> fst ` set (map ?f (take i (live dev)))"
      "ns_id ?e \<notin> fst ` set (map ?f (drop (Suc i) (live dev)))"
    by (auto simp: sorted_ns_def sorted_wrt_append)
  from map_of_delete_mid [OF this, of "(ns_handler ?e, ns_context ?e)"]
  have "map_of (map ?f (take i (live dev) @ drop (Suc i) (live dev))) =
      (map_of (map ?f (take i (live dev) @ ?e # drop (Suc i) (live dev))))(ns_id ?e := None)"
    by simp
  then show ?thesis by (simp only: handlers_def assms(3) s)
qed

subsection \<open>The namespace table as a finite map\<close>

lemma register_spec:
  assumes "ns_wf dev" and "length x = nsid_size"
  shows "\<exists>dev' s. xrp_device_register_namespace ok dev x h c = Some (dev', s) \<and> ns_wf dev' \<and>
    (if x \<in> dom (handlers dev) \<or> grow_cmd_ns ok dev = None then dev' = dev \<and> s = XRP_STATUS_FAILURE
     else handlers dev' = (handlers dev)(x \<mapsto> (h, c)) \<and> s = XRP_STATUS_SUCCESS)"
proof -
  let ?e = "\<lparr>ns_id = x, ns_handler = h, ns_context = c\<rparr>"
  obtain i where i: "find_cmd_ns dev x = Some i" "position (live dev) x i"
    using find_cmd_ns_spec [OF assms] by blast
  note m = present_match [OF assms i(2)]
  show ?thesis
  proof (cases "x \<in> dom (handlers dev) \<or> grow_cmd_ns ok dev = None")
    case True
    then show ?thesis
      using i m assms(1) by (auto simp: xrp_device_register_namespace_def dom_handlers insert_cmd_ns_def)
  next
    case False
    then obtain dev1 where g: "grow_cmd_ns ok dev = Some dev1" and x: "x \<notin> ns_id ` set (live dev)"
      by (auto simp: dom_handlers)
    from insert_live [of dev ?e i ok dev1] assms i(2) x g obtain dev' where
      ins: "insert_cmd_ns ok dev i = Some (dev', True)"
        "ns_wf (dev'\<lparr>cmd_ns := Some ((slots dev')[i := Some ?e])\<rparr>)"
        "live (dev'\<lparr>cmd_ns := Some ((slots dev')[i := Some ?e])\<rparr>) = take i (live dev) @ ?e # drop i (live dev)"
      by (auto simp: Let_def)
    have "handlers (dev'\<lparr>cmd_ns := Some ((slots dev')[i := Some ?e])\<rparr>) = (handlers dev)(x \<mapsto> (h, c))"
      using handlers_insert [OF assms(1) _ ins(3)] i(2) by simp
    with ins False show ?thesis using i m x by (simp add: xrp_device_register_namespace_def)
  qed
qed

lemma unregister_spec:
  assumes "ns_wf dev" and "length x = nsid_size"
  shows "\<exists>dev' s. xrp_device_unregister_namespace dev x = Some (dev', s) \<and> ns_wf dev' \<and>
    (if x \<in> dom (handlers dev) then handlers dev' = (handlers dev)(x := None) \<and> s = XRP_STATUS_SUCCESS
     else dev' = dev \<and> s = XRP_STATUS_FAILURE)"
proof -
  obtain i where i: "find_cmd_ns dev x = Some i" "position (live dev) x i"
    using find_cmd_ns_spec [OF assms] by blast
  note m = present_match [OF assms i(2)]
  show ?thesis
  proof (cases "x \<in> dom (handlers dev)")
    case True
    then have n: "i < n_cmd_ns dev" "ns_id (live dev ! i) = x"
      using position_found [OF assms(1) i(2)] by (simp_all add: dom_handlers)
    from remove_live [OF assms(1) n(1)] obtain dev' where
      r: "remove_cmd_ns dev i = Some dev'" "ns_wf dev'" "live dev' = take i (live dev) @ drop (Suc i) (live dev)"
      by blast
    from handlers_remove [OF assms(1) n(1) r(3)] r True show ?thesis
      using i m n by (simp add: xrp_device_unregister_namespace_def dom_handlers)
  next
    case False
    then show ?thesis using i m assms(1) by (simp add: xrp_device_unregister_namespace_def dom_handlers)
  qed
qed

text \<open>
  The interface of a namespace table: an invariant, an abstraction to a finite map, and the two
  operations, which never fail internally and refine the operations on the map.
\<close>

locale namespace_table =
  fixes reg :: "'t \<Rightarrow> u8 list \<Rightarrow> u32 \<Rightarrow> u32 \<Rightarrow> ('t \<times> xrp_status) option"
    and unreg :: "'t \<Rightarrow> u8 list \<Rightarrow> ('t \<times> xrp_status) option"
    and inv :: "'t \<Rightarrow> bool"
    and abs :: "'t \<Rightarrow> u8 list \<rightharpoonup> u32 \<times> u32"
  assumes reg_refines: "inv t \<Longrightarrow> length x = nsid_size \<Longrightarrow>
      \<exists>t' s. reg t x h c = Some (t', s) \<and> inv t' \<and> (abs t', s) = ns_spec_step (abs t) (Ns_register x h c)"
    and unreg_refines: "inv t \<Longrightarrow> length x = nsid_size \<Longrightarrow>
      \<exists>t' s. unreg t x = Some (t', s) \<and> inv t' \<and> (abs t', s) = ns_spec_step (abs t) (Ns_unregister x)"
begin

lemma step_refines:
  assumes "inv t" and "length (ns_op_id x) = nsid_size"
  shows "\<exists>t' s. (case x of Ns_register i h c \<Rightarrow> reg t i h c | Ns_unregister i \<Rightarrow> unreg t i) = Some (t', s) \<and>
    inv t' \<and> (abs t', s) = ns_spec_step (abs t) x"
proof (cases x)
  case (Ns_register i h c)
  with assms reg_refines [of t i h c] show ?thesis by simp
next
  case (Ns_unregister i)
  with assms unreg_refines [of t i] show ?thesis by simp
qed

lemma run_refines:
  assumes "inv t" and "\<forall>x\<in>set xs. length (ns_op_id x) = nsid_size"
  shows "\<exists>t' ss. ns_run reg unreg t xs = Some (t', ss) \<and> inv t' \<and> (abs t', ss) = ns_spec (abs t) xs"
  using assms
proof (induction xs arbitrary: t)
  case (Cons x xs)
  then obtain t1 s where t1: "(case x of Ns_register i h c \<Rightarrow> reg t i h c | Ns_unregister i \<Rightarrow> unreg t i) = Some (t1, s)"
      "inv t1" "(abs t1, s) = ns_spec_step (abs t) x"
    using step_refines [of t x] by auto
  from Cons.IH [OF t1(2)] Cons.prems(2) obtain t2 ss where
    "ns_run reg unreg t1 xs = Some (t2, ss)" "inv t2" "(abs t2, ss) = ns_spec (abs t1) xs"
    by auto
  with t1 show ?case by (simp add: t1(3) [symmetric] split: prod.splits) (metis prod.inject)
qed simp

end

interpretation nst: namespace_table "xrp_device_register_namespace True" xrp_device_unregister_namespace
    ns_wf handlers
proof (unfold_locales, goal_cases)
  case (1 dev x h c)
  have "grow_cmd_ns True dev \<noteq> None" by (simp add: grow_cmd_ns_def)
  with register_spec [OF 1, of True h c] show ?case by (auto split: if_splits)
next
  case (2 dev x)
  with unregister_spec [OF 2] show ?case by (auto split: if_splits)
qed

lemma fresh_device_wf: "ns_wf fresh_device" and fresh_device_handlers: "handlers fresh_device = Map.empty"
  by (simp_all add: fresh_device_def ns_wf_def slots_def live_def sorted_ns_def handlers_def)

lemma sample_id_length: "length (sample_id b) = nsid_size"
  by (simp add: sample_id_def layout_simps)

subsection \<open>The choice of the handler\<close>

lemma handlers_at:
  assumes "ns_wf dev" and "i < n_cmd_ns dev"
  shows "handlers dev (ns_id (live dev ! i)) = Some (ns_handler (live dev ! i), ns_context (live dev ! i))"
proof -
  have "distinct (map ns_id (live dev))"
    using assms(1) by (simp add: ns_wf_def sorted_ns_def strict_sorted_iff)
  moreover have "live dev ! i \<in> set (live dev)" using assms by simp
  ultimately show ?thesis unfolding handlers_def
    by (intro map_of_is_SomeI) (auto simp: comp_def)
qed

lemma lookup_handler_inside:
  assumes "ns_wf dev" and "length x = nsid_size" and "find_cmd_ns dev x = Some i"
    and "position (live dev) x i" and "i < n_cmd_ns dev"
  shows "lookup_handler dev x = Some (handlers dev x)"
proof -
  note p = position_found [OF assms(1,4)]
  have m: "cmd_ns_match dev x i = Some (x \<in> ns_id ` set (live dev))"
    using present_match [OF assms(1,2,4)] assms(5) unfolding cmd_ns_present_def by simp
  show ?thesis
  proof (cases "ns_id (live dev ! i) = x")
    case True
    with p assms(5) have "cmd_ns_match dev x i = Some True" unfolding m by simp
    with True show ?thesis
      using assms(3) handlers_at [OF assms(1,5)] ns_at_live [OF assms(1,5)] by (simp add: lookup_handler_def)
  next
    case False
    with p have x: "x \<notin> ns_id ` set (live dev)" by blast
    then have "cmd_ns_match dev x i = Some False" unfolding m by simp
    moreover have "handlers dev x = None" using x dom_handlers [of dev] by blast
    ultimately show ?thesis using assms(3) by (simp add: lookup_handler_def)
  qed
qed

subsection \<open>Properties\<close>



text \<open>
  Registering fails exactly if the namespace is present or if the table is full and \<open>realloc\<close>
  fails, and then leaves the device untouched.
\<close>

lemma register_namespace_failure:
  assumes "ns_wf dev" and "length x = nsid_size"
  shows "\<exists>dev' s. xrp_device_register_namespace realloc_ok dev x h c = Some (dev', s) \<and> ns_wf dev' \<and>
    s = (if x \<in> dom (handlers dev) \<or> (n_cmd_ns dev = size_cmd_ns dev \<and> \<not> realloc_ok)
         then XRP_STATUS_FAILURE else XRP_STATUS_SUCCESS) \<and>
    (s = XRP_STATUS_FAILURE \<longrightarrow> dev' = dev) \<and>
    (s = XRP_STATUS_SUCCESS \<longrightarrow> handlers dev' = (handlers dev)(x \<mapsto> (h, c)))"
  using register_spec [OF assms, of realloc_ok h c] by (auto simp: grow_cmd_ns_def split: if_splits)

lemma register_namespace_failure_example:
  "xrp_device_register_namespace False fresh_device (sample_id 1) 0x100 0 = Some (fresh_device, XRP_STATUS_FAILURE)"
proof -
  have "n_cmd_ns fresh_device = size_cmd_ns fresh_device" by (simp add: fresh_device_def slots_def)
  then show ?thesis
    using register_namespace_failure [OF fresh_device_wf sample_id_length, of False 1 "0x100" 0] by auto
qed



text \<open>
  C40: After the greatest registered namespace has been unregistered successfully, a command for it
  is still delivered to the handler that was removed: the place behind the last entry is compared
  without a test that it belongs to the table.
\<close>

theorem unregistered_handler_called:
  assumes "ns_wf dev" and "length x = nsid_size" and "handlers dev x = Some hc"
    and "\<forall>y\<in>dom (handlers dev). y \<le> x"
    and "xrp_device_unregister_namespace dev x = Some (dev', s)"
  shows "s = XRP_STATUS_SUCCESS \<and> handlers dev' x = None \<and> lookup_handler dev' x = Some (Some hc)"
proof -
  obtain i where i: "find_cmd_ns dev x = Some i" "position (live dev) x i"
    using find_cmd_ns_spec [OF assms(1,2)] by blast
  have x: "x \<in> ns_id ` set (live dev)" using assms(3) dom_handlers [of dev] by blast
  then have n: "i < n_cmd_ns dev" "ns_id (live dev ! i) = x" using position_found [OF assms(1) i(2)] by auto
  have last: "n_cmd_ns dev = i + 1"
  proof (rule ccontr)
    assume "n_cmd_ns dev \<noteq> i + 1"
    then have "i + 1 < n_cmd_ns dev" using n by simp
    then have "x < ns_id (live dev ! (i + 1))" "ns_id (live dev ! (i + 1)) \<in> dom (handlers dev)"
      using live_mono [OF assms(1), of i "i + 1"] n assms(1) by (auto simp: dom_handlers)
    then show False using assms(4) by (meson leD)
  qed
  have slots: "slots dev' = slots dev" "n_cmd_ns dev' = i" "cmd_ns dev' = Some (slots dev)"
    and s: "s = XRP_STATUS_SUCCESS"
    using assms(1,5) present_match [OF assms(1,2) i(2)] i(1) x last n
    by (auto simp: xrp_device_unregister_namespace_def remove_cmd_ns_def memmove_def ns_wf_def split: if_splits)
  have wf: "ns_wf dev'" "handlers dev' x = None"
    using unregister_spec [OF assms(1,2)] assms(3,5) by (auto split: if_splits)
  from find_cmd_ns_spec [OF wf(1) assms(2)] obtain j where j: "find_cmd_ns dev' x = Some j" "position (live dev') x j"
    by blast
  have lv: "live dev' = take i (live dev)" using last slots by (simp add: live_def take_map min_absorb1)
  have "j = i"
  proof (rule ccontr)
    assume "j \<noteq> i"
    then have "j < i" using j(2) wf(1) slots(2) by (simp add: position_def)
    then have "x \<le> ns_id (live dev ! j)" "ns_id (live dev ! j) < x"
      using j(2) i(2) lv slots(2) wf(1) by (auto simp: position_def)
    then show False by simp
  qed
  moreover have at: "ns_at dev' i = Some (live dev ! i)"
    using ns_at_live [OF assms(1) n(1)] slots(1) by (simp add: ns_at_def split: if_splits)
  ultimately show ?thesis
    using j(1) slots(3) s wf(2) n handlers_at [OF assms(1) n(1)] assms(3)
      compare_cmd_ns_order(2) [OF assms(2) live_id_length [OF assms(1) n(1)]]
    by (simp add: lookup_handler_def cmd_ns_match_def)
qed

theorem unregistered_handler_called_witness:
  "\<exists>dev dev'. xrp_device_register_namespace True fresh_device (sample_id 1) 0x100 7 = Some (dev, XRP_STATUS_SUCCESS) \<and>
     xrp_device_unregister_namespace dev (sample_id 1) = Some (dev', XRP_STATUS_SUCCESS) \<and>
     lookup_handler dev' (sample_id 1) = Some (Some (0x100, 7))"
proof -
  from register_spec [OF fresh_device_wf sample_id_length, of True 1 "0x100" 7] obtain dev where
    d: "xrp_device_register_namespace True fresh_device (sample_id 1) 0x100 7 = Some (dev, XRP_STATUS_SUCCESS)"
      "ns_wf dev" "handlers dev = [sample_id 1 \<mapsto> (0x100, 7)]"
    by (auto simp: fresh_device_handlers grow_cmd_ns_def split: if_splits)
  from unregister_spec [OF d(2) sample_id_length, of 1] obtain dev' s where
    u: "xrp_device_unregister_namespace dev (sample_id 1) = Some (dev', s)"
    by blast
  from unregistered_handler_called [OF d(2) sample_id_length _ _ u] d u show ?thesis by auto
qed

end
