(* ===== verification/XRP_Dsp.thy ===== *)
theory XRP_Dsp
  imports XRP_Dsp_Ns XRP_Hw
begin

text \<open>
  The command processing of the DSP library, \<^verbatim>\<open>xrp-dsp/xrp_dsp.c\<close>: reference counts, devices, buffers
  and buffer groups, \<open>process_command\<close>, \<open>xrp_device_poll\<close> and \<open>xrp_device_dispatch\<close>.  The handshake a dispatch may enter is the subject of
  \<^verbatim>\<open>XRP_Handshake\<close>.

  Model: the DSP sees the shared memory through \<open>d_mem\<close>; \<open>d_mmio\<close> is the trace of its register writes.
  \<open>manage_cache\<close> is never set by the code, so the cache maintenance calls do nothing and are left out.
  The handlers are the user's code: \<open>handler_of\<close> maps a function pointer and its context to what the
  handler does, \<open>run_command\<close> is the \<open>xrp_run_command\<close> that is linked in.  A handler works on the buffers
  through the API (\<open>dsp_call\<close>) and may change memory.

  Shown: every valid request is answered exactly once and the answer reports the outcome; buffers can
  only be mapped inside their bounds and with the access the host allowed, and the access that took
  place is what the host reads back.
\<close>

subsection \<open>Reference counts, devices and buffers\<close>

text \<open>A reference count behind a pointer: \<open>None\<close> is the null pointer.\<close>

definition retain_refcounted :: "u32 option \<Rightarrow> u32 option \<times> xrp_status" where
  "retain_refcounted ref =
     (case ref of Some c \<Rightarrow> (Some (c + 1), XRP_STATUS_SUCCESS) | None \<Rightarrow> (None, XRP_STATUS_FAILURE))"

definition release_refcounted :: "u32 option \<Rightarrow> u32 option \<times> xrp_status" where
  "release_refcounted ref =
     (case ref of
        Some c \<Rightarrow> (Some (c - 1), if 0 < c then XRP_STATUS_SUCCESS else XRP_STATUS_FAILURE)
      | None \<Rightarrow> (None, XRP_STATUS_FAILURE))"

text \<open>\<open>device\<close> is the static device; the result is whether a pointer to it is returned.\<close>

definition xrp_open_device :: "u32 \<Rightarrow> int \<Rightarrow> xrp_device \<Rightarrow> bool \<times> xrp_device \<times> xrp_status" where
  "xrp_open_device xrp_dsp_comm_base idx device =
     (if idx = 0 then (True, device\<lparr>dsp_cmd := xrp_dsp_comm_base\<rparr>, XRP_STATUS_SUCCESS)
      else (False, device, XRP_STATUS_FAILURE))"

definition xrp_retain_device :: "xrp_device \<Rightarrow> xrp_device \<times> xrp_status" where
  "xrp_retain_device device =
     (let (c, s) = retain_refcounted (Some (dev_ref device)) in (device\<lparr>dev_ref := the c\<rparr>, s))"

definition xrp_release_device :: "xrp_device \<Rightarrow> xrp_device \<times> xrp_status" where
  "xrp_release_device device =
     (let (c, s) = release_refcounted (Some (dev_ref device)) in (device\<lparr>dev_ref := the c\<rparr>, s))"

record xrp_buffer =
  b_ref :: u32
  b_ptr :: u32
  b_size :: u32
  map_count :: u32
  allowed_access :: u32
  map_flags :: u32

record xrp_buffer_group =
  g_ref :: u32
  g_buffer :: "xrp_buffer list"

text \<open>Creating buffers and groups, and adding to a group, is not available on the DSP.\<close>

definition xrp_create_buffer :: "xrp_buffer option \<times> xrp_status" where
  "xrp_create_buffer = (None, XRP_STATUS_FAILURE)"

definition xrp_create_buffer_group :: "xrp_buffer_group option \<times> xrp_status" where
  "xrp_create_buffer_group = (None, XRP_STATUS_FAILURE)"

definition xrp_add_buffer_to_group :: "u32 \<times> xrp_status" where
  "xrp_add_buffer_to_group = (0xffffffff, XRP_STATUS_FAILURE)"

definition xrp_retain_buffer :: "xrp_buffer \<Rightarrow> xrp_buffer \<times> xrp_status" where
  "xrp_retain_buffer b = (let (c, s) = retain_refcounted (Some (b_ref b)) in (b\<lparr>b_ref := the c\<rparr>, s))"

definition xrp_release_buffer :: "xrp_buffer \<Rightarrow> xrp_buffer \<times> xrp_status" where
  "xrp_release_buffer b = (let (c, s) = release_refcounted (Some (b_ref b)) in (b\<lparr>b_ref := the c\<rparr>, s))"

definition xrp_map_buffer ::
  "xrp_buffer \<Rightarrow> u32 \<Rightarrow> u32 \<Rightarrow> u32 \<Rightarrow> xrp_buffer \<times> u32 option \<times> xrp_status" where
  "xrp_map_buffer b offset sz flags =
     (if offset \<le> b_size b \<and> sz \<le> b_size b - offset \<and> allowed_access b AND flags = flags
      then (let b = fst (xrp_retain_buffer b)
            in b\<lparr>map_count := map_count b + 1, map_flags := map_flags b OR flags\<rparr>,
            Some (b_ptr b + offset), XRP_STATUS_SUCCESS)
      else (b, None, XRP_STATUS_FAILURE))"

definition xrp_unmap_buffer :: "xrp_buffer \<Rightarrow> u32 \<Rightarrow> xrp_buffer \<times> xrp_status" where
  "xrp_unmap_buffer b p =
     (if b_ptr b \<le> p \<and> p - b_ptr b \<le> b_size b
      then (fst (xrp_release_buffer (b\<lparr>map_count := map_count b - 1\<rparr>)), XRP_STATUS_SUCCESS)
      else (b, XRP_STATUS_FAILURE))"

text \<open>
  The value copied to \<open>out\<close>, a 4-byte object in both cases.  The \<open>info\<close> codes are those of
  \<open>enum xrp_buffer_info\<close> and \<open>enum xrp_buffer_group_info\<close>.
\<close>

definition xrp_buffer_get_info :: "xrp_buffer \<Rightarrow> u32 \<Rightarrow> u32 \<Rightarrow> u32 option \<times> xrp_status" where
  "xrp_buffer_get_info b info out_sz =
     (if info = 0 \<and> out_sz = 4 then (Some (b_size b), XRP_STATUS_SUCCESS)
      else if info = 1 \<and> out_sz = 4 then (Some (b_ptr b), XRP_STATUS_SUCCESS)
      else (None, XRP_STATUS_FAILURE))"

definition xrp_get_buffer_from_group ::
  "xrp_buffer_group \<Rightarrow> u32 \<Rightarrow> xrp_buffer_group \<times> u32 option \<times> xrp_status" where
  "xrp_get_buffer_from_group g idx =
     (if unat idx < length (g_buffer g)
      then (g\<lparr>g_buffer := (g_buffer g)[unat idx := fst (xrp_retain_buffer (g_buffer g ! unat idx))]\<rparr>,
            Some idx, XRP_STATUS_SUCCESS)
      else (g, None, XRP_STATUS_FAILURE))"

definition xrp_buffer_group_get_info ::
  "xrp_buffer_group \<Rightarrow> u32 \<Rightarrow> u32 \<Rightarrow> u32 \<Rightarrow> u32 option \<times> xrp_status" where
  "xrp_buffer_group_get_info g info idx out_sz =
     (if info = 0 \<and> unat idx < length (g_buffer g) \<and> out_sz = 4
      then (Some (allowed_access (g_buffer g ! unat idx)), XRP_STATUS_SUCCESS)
      else if info = 1 \<and> out_sz = 4 then (Some (of_nat (length (g_buffer g))), XRP_STATUS_SUCCESS)
      else (None, XRP_STATUS_FAILURE))"

subsection \<open>Command processing\<close>

text \<open>
  A handler gets the input and output regions (address and size), the buffers of the group and the
  memory; it returns its status, the buffers and the memory.
\<close>

type_synonym cmd_handler =
  "u32 \<Rightarrow> u32 \<Rightarrow> u32 \<Rightarrow> u32 \<Rightarrow> xrp_buffer_group \<Rightarrow> mem \<Rightarrow> xrp_status \<times> xrp_buffer_group \<times> mem"

record dsp_env =
  handler_of :: "u32 \<Rightarrow> u32 \<Rightarrow> cmd_handler"
  run_command :: cmd_handler

record dsp_state =
  d_mem :: mem
  d_dev :: xrp_device
  d_hw :: dsp_hw
  d_mmio :: "mmio_write list"

text \<open>The weak default of \<open>xrp_run_command\<close>.\<close>

definition xrp_run_command_default :: cmd_handler where
  "xrp_run_command_default in_data in_data_size out_data out_data_size g m = (XRP_STATUS_FAILURE, g, m)"

definition xrp_request_valid :: "mem \<Rightarrow> u32 \<Rightarrow> bool \<times> u32" where
  "xrp_request_valid m cmd =
     (let flags = read32 m (cmd + off_flags) in
      (flags AND (XRP_DSP_CMD_FLAG_REQUEST_VALID OR XRP_DSP_CMD_FLAG_RESPONSE_VALID) =
         XRP_DSP_CMD_FLAG_REQUEST_VALID, flags))"

definition complete_request :: "dsp_state \<Rightarrow> u32 \<Rightarrow> dsp_state" where
  "complete_request st flags =
     st\<lparr>d_mem := write32 (d_mem st) (dsp_cmd (d_dev st) + off_flags) (flags OR XRP_DSP_CMD_FLAG_RESPONSE_VALID),
        d_mmio := d_mmio st @ xrp_hw_send_host_irq (d_hw st)\<rparr>"

definition dsp_buffer_allowed_access :: "u32 \<Rightarrow> u32" where
  "dsp_buffer_allowed_access flags = (if flags = XRP_DSP_BUFFER_FLAG_READ then XRP_READ else XRP_READ_WRITE)"

text \<open>The address of element \<open>i\<close> of the array of buffer descriptors.\<close>

definition dsp_buffer_at :: "u32 \<Rightarrow> nat \<Rightarrow> u32" where
  "dsp_buffer_at p i = p + of_nat i * sizeof_dsp_buffer"

definition load_buffer :: "mem \<Rightarrow> u32 \<Rightarrow> nat \<Rightarrow> xrp_buffer" where
  "load_buffer m p i =
     \<lparr>b_ref = 0, b_ptr = read32 m (dsp_buffer_at p i + off_b_addr),
      b_size = read32 m (dsp_buffer_at p i + off_b_size), map_count = 0,
      allowed_access = dsp_buffer_allowed_access (read32 m (dsp_buffer_at p i + off_b_flags)),
      map_flags = 0\<rparr>"

definition access_performed :: "xrp_buffer \<Rightarrow> u32" where
  "access_performed b =
     (if map_flags b AND XRP_READ \<noteq> 0 then XRP_DSP_BUFFER_FLAG_READ else 0) OR
     (if map_flags b AND XRP_WRITE \<noteq> 0 then XRP_DSP_BUFFER_FLAG_WRITE else 0)"

text \<open>The loop that stores the access performed on each buffer in its descriptor.\<close>

fun store_access :: "mem \<Rightarrow> u32 \<Rightarrow> nat \<Rightarrow> xrp_buffer list \<Rightarrow> mem" where
  "store_access m p i [] = m"
| "store_access m p i (b # bs) =
     store_access (write32 m (dsp_buffer_at p i + off_b_flags) (access_performed b)) p (i + 1) bs"

text \<open>Where the descriptors are, and where input and output data are: inline or by address.\<close>

definition n_buffers :: "mem \<Rightarrow> u32 \<Rightarrow> u32" where
  "n_buffers m cmd = read32 m (cmd + off_buffer_size) div sizeof_dsp_buffer"

definition dsp_buffers :: "mem \<Rightarrow> u32 \<Rightarrow> u32" where
  "dsp_buffers m cmd =
     (if XRP_DSP_CMD_INLINE_BUFFER_COUNT < n_buffers m cmd then read32 m (cmd + off_buffer_data)
      else cmd + off_buffer_data)"

definition in_data_ptr :: "mem \<Rightarrow> u32 \<Rightarrow> u32" where
  "in_data_ptr m cmd =
     (if XRP_DSP_CMD_INLINE_DATA_SIZE < read32 m (cmd + off_in_data_size)
      then read32 m (cmd + off_in_data) else cmd + off_in_data)"

definition out_data_ptr :: "mem \<Rightarrow> u32 \<Rightarrow> u32" where
  "out_data_ptr m cmd =
     (if XRP_DSP_CMD_INLINE_DATA_SIZE < read32 m (cmd + off_out_data_size)
      then read32 m (cmd + off_out_data) else cmd + off_out_data)"

definition MAX_STACK_BUFFERS :: u32 where
  "MAX_STACK_BUFFERS = 16"

definition sizeof_xrp_buffer :: u32 where
  "sizeof_xrp_buffer = 24"

text \<open>The handler of the command: the default one, or that of its namespace (\<open>Some None\<close>: not found).\<close>

definition command_handler :: "dsp_env \<Rightarrow> xrp_device \<Rightarrow> mem \<Rightarrow> cmd_handler option option" where
  "command_handler env dev m =
     (if read32 m (dsp_cmd dev + off_flags) AND XRP_DSP_CMD_FLAG_REQUEST_NSID \<noteq> 0 then do {
        r \<leftarrow> lookup_handler dev (read_bytes m (dsp_cmd dev + off_nsid) XRP_DSP_CMD_NAMESPACE_ID_SIZE);
        Some (map_option (\<lambda>(h, c). handler_of env h c) r)
      } else Some (Some (run_command env)))"

text \<open>
  The call of the handler and the update of the descriptors: new memory and status.
\<close>

definition run_handler :: "cmd_handler \<Rightarrow> mem \<Rightarrow> u32 \<Rightarrow> xrp_status \<times> mem" where
  "run_handler handler m cmd =
     (let p = dsp_buffers m cmd;
          g = \<lparr>g_ref = 0, g_buffer = map (load_buffer m p) [0..<unat (n_buffers m cmd)]\<rparr>;
          (status, g', m') = handler (in_data_ptr m cmd) (read32 m (cmd + off_in_data_size))
            (out_data_ptr m cmd) (read32 m (cmd + off_out_data_size)) g m
      in (status, store_access m' p 0 (g_buffer g')))"

text \<open>
  \<open>malloc_ok\<close> is the outcome of the allocation of the buffer array, needed for more than
  \<open>MAX_STACK_BUFFERS\<close> buffers.  Its size is computed with 32 bits; when the product wraps around the
  array that is filled is larger than the block, which is an invalid access (\<open>None\<close>).
\<close>

definition process_command :: "dsp_env \<Rightarrow> bool \<Rightarrow> dsp_state \<Rightarrow> u32 \<Rightarrow> (xrp_status \<times> dsp_state) option" where
  "process_command env malloc_ok st flags =
     (let m = d_mem st; cmd = dsp_cmd (d_dev st); n = n_buffers m cmd in do {
      h \<leftarrow> command_handler env (d_dev st) m;
      case h of
        None \<Rightarrow> Some (XRP_STATUS_FAILURE, complete_request st (flags OR XRP_DSP_CMD_FLAG_RESPONSE_DELIVERY_FAIL))
      | Some handler \<Rightarrow>
          if MAX_STACK_BUFFERS < n \<and> \<not> malloc_ok then Some (XRP_STATUS_FAILURE, complete_request st flags)
          else if MAX_STACK_BUFFERS < n \<and> unat (n * sizeof_xrp_buffer) < unat n * unat sizeof_xrp_buffer then None
          else let (status, m') = run_handler handler m cmd;
                   flags = (if status \<noteq> XRP_STATUS_SUCCESS
                            then flags OR XRP_DSP_CMD_FLAG_RESPONSE_DELIVERY_FAIL else flags)
               in Some (status, complete_request (st\<lparr>d_mem := m'\<rparr>) flags)
     })"

definition xrp_device_poll :: "dsp_state \<Rightarrow> xrp_status" where
  "xrp_device_poll st =
     (if fst (xrp_request_valid (d_mem st) (dsp_cmd (d_dev st))) then XRP_STATUS_SUCCESS else XRP_STATUS_PENDING)"

text \<open>\<open>Enter_handshake\<close> is the call of \<open>do_handshake\<close>, after which the dispatch returns success.\<close>

datatype dispatch_result = Dispatched xrp_status dsp_state | Enter_handshake

definition xrp_device_dispatch :: "dsp_env \<Rightarrow> bool \<Rightarrow> dsp_state \<Rightarrow> dispatch_result option" where
  "xrp_device_dispatch env malloc_ok st =
     (let (valid, flags) = xrp_request_valid (d_mem st) (dsp_cmd (d_dev st)) in
      if \<not> valid then Some (Dispatched XRP_STATUS_PENDING st)
      else if flags = XRP_DSP_SYNC_START then Some Enter_handshake
      else do { (status, st') \<leftarrow> process_command env malloc_ok st flags; Some (Dispatched status st') })"

subsection \<open>Specification\<close>

text \<open>What a handler may do with the buffers of its group: calls of the API with a buffer's index.\<close>

datatype dsp_call =
    Call_get u32 | Call_retain u32 | Call_release u32 | Call_map u32 u32 u32 u32 | Call_unmap u32 u32

definition on_buffer :: "(xrp_buffer \<Rightarrow> xrp_buffer) \<Rightarrow> u32 \<Rightarrow> xrp_buffer_group \<Rightarrow> xrp_buffer_group" where
  "on_buffer f idx g =
     (if unat idx < length (g_buffer g)
      then g\<lparr>g_buffer := (g_buffer g)[unat idx := f (g_buffer g ! unat idx)]\<rparr> else g)"

fun dsp_call_step :: "xrp_buffer_group \<Rightarrow> dsp_call \<Rightarrow> xrp_buffer_group" where
  "dsp_call_step g (Call_get i) = fst (xrp_get_buffer_from_group g i)"
| "dsp_call_step g (Call_retain i) = on_buffer (\<lambda>b. fst (xrp_retain_buffer b)) i g"
| "dsp_call_step g (Call_release i) = on_buffer (\<lambda>b. fst (xrp_release_buffer b)) i g"
| "dsp_call_step g (Call_map i offset sz flags) = on_buffer (\<lambda>b. fst (xrp_map_buffer b offset sz flags)) i g"
| "dsp_call_step g (Call_unmap i p) = on_buffer (\<lambda>b. fst (xrp_unmap_buffer b p)) i g"

definition via_api :: "cmd_handler \<Rightarrow> bool" where
  "via_api h \<longleftrightarrow> (\<forall>i si out so g m. \<exists>calls. fst (snd (h i si out so g m)) = foldl dsp_call_step g calls)"

text \<open>A buffer that came from the descriptor \<open>b0\<close> and was mapped at most as allowed.\<close>

definition access_ok :: "xrp_buffer \<Rightarrow> xrp_buffer \<Rightarrow> bool" where
  "access_ok b0 b \<longleftrightarrow> allowed_access b = allowed_access b0 \<and> b_ptr b = b_ptr b0 \<and> b_size b = b_size b0 \<and>
     map_flags b AND allowed_access b0 = map_flags b"

lemmas buffer_op_defs = xrp_retain_buffer_def xrp_release_buffer_def retain_refcounted_def
  release_refcounted_def xrp_map_buffer_def xrp_unmap_buffer_def

text \<open>
  A state with one request in the communication area at \<open>0x1000\<close>: four bytes of input and of output
  and one writable buffer of 256 bytes at \<open>0x8000\<close>.
\<close>

definition sample_mem :: mem where
  "sample_mem =
     write32 (write32 (write32 (write32 (write32 (write32 (write32 (\<lambda>_. 0)
       0x1000 1) 0x1004 4) 0x1008 4) 0x100c 12) 0x1030 3) 0x1034 0x100) 0x1038 0x8000"

definition sample_state :: dsp_state where
  "sample_state = \<lparr>d_mem = sample_mem, d_dev = fresh_device\<lparr>dsp_cmd := 0x1000\<rparr>,
     d_hw = \<lparr>mmio_base = 0xfd000000, d_host_irq_mode = XRP_IRQ_LEVEL, d_device_irq_mode = XRP_IRQ_NONE,
       d_device_irq_offset = 0, d_device_irq_bit = 0, d_device_irq = 0, d_host_irq_offset = 0x14,
       d_host_irq_bit = 5\<rparr>,
     d_mmio = []\<rparr>"

text \<open>A handler that maps the first buffer for writing and changes its first word.\<close>

definition sample_handler :: cmd_handler where
  "sample_handler i si out so g m =
     (XRP_STATUS_SUCCESS, dsp_call_step g (Call_map 0 0 4 2), write32 m 0x8000 7)"

definition sample_env :: dsp_env where
  "sample_env = \<lparr>handler_of = (\<lambda>h c. sample_handler), run_command = sample_handler\<rparr>"

subsection \<open>Buffers\<close>

lemma access_ok_map: "access_ok b0 b \<Longrightarrow> access_ok b0 (fst (xrp_map_buffer b offset sz flags))"
  by (auto simp: access_ok_def buffer_op_defs Let_def bit_eq_iff bit_simps)

lemma access_ok_ops:
  "access_ok b0 b \<Longrightarrow> access_ok b0 (fst (xrp_retain_buffer b))"
  "access_ok b0 b \<Longrightarrow> access_ok b0 (fst (xrp_release_buffer b))"
  "access_ok b0 b \<Longrightarrow> access_ok b0 (fst (xrp_unmap_buffer b p))"
  by (simp_all add: access_ok_def buffer_op_defs Let_def)

lemma range_inside: "offset \<le> n \<and> sz \<le> n - offset \<longleftrightarrow> unat offset + unat sz \<le> unat (n :: u32)"
  by (auto simp: word_le_nat_alt unat_sub_if')

lemma list_all2_update:
  "list_all2 P xs ys \<Longrightarrow> i < length ys \<Longrightarrow> (P (xs ! i) (ys ! i) \<Longrightarrow> P (xs ! i) y) \<Longrightarrow> list_all2 P xs (ys[i := y])"
  by (auto simp: list_all2_conv_all_nth nth_list_update)

lemma on_buffer_access:
  assumes "list_all2 access_ok bs (g_buffer g)" and "\<And>b0 b. access_ok b0 b \<Longrightarrow> access_ok b0 (f b)"
  shows "list_all2 access_ok bs (g_buffer (on_buffer f i g))"
  using assms by (auto simp: on_buffer_def intro: list_all2_update)

lemma get_buffer_on_buffer:
  "fst (xrp_get_buffer_from_group g i) = on_buffer (\<lambda>b. fst (xrp_retain_buffer b)) i g"
  by (simp add: xrp_get_buffer_from_group_def on_buffer_def)

lemma dsp_call_access:
  "list_all2 access_ok bs (g_buffer g) \<Longrightarrow> list_all2 access_ok bs (g_buffer (dsp_call_step g c))"
  by (cases c) (simp_all add: get_buffer_on_buffer on_buffer_access access_ok_map access_ok_ops)

lemma dsp_calls_access:
  "list_all2 access_ok bs (g_buffer g) \<Longrightarrow> list_all2 access_ok bs (g_buffer (foldl dsp_call_step g cs))"
  by (induction cs arbitrary: g) (simp_all add: dsp_call_access)

lemma load_buffer_access: "access_ok (load_buffer m p i) (load_buffer m p i)"
  by (simp add: access_ok_def load_buffer_def)

lemma access_performed_write:
  assumes "access_ok b0 b" and "access_performed b AND XRP_DSP_BUFFER_FLAG_WRITE \<noteq> 0"
  shows "allowed_access b0 AND XRP_WRITE \<noteq> 0"
proof
  assume "allowed_access b0 AND XRP_WRITE = 0"
  then have "(map_flags b AND allowed_access b0) AND XRP_WRITE = 0" by (simp add: and.assoc)
  then have "map_flags b AND XRP_WRITE = 0" using assms(1) by (simp add: access_ok_def)
  then show False
    using assms(2) by (auto simp: access_performed_def XRP_DSP_BUFFER_FLAG_READ_def XRP_DSP_BUFFER_FLAG_WRITE_def split: if_splits)
qed

subsection \<open>Descriptors\<close>

lemma dsp_buffer_at_offset: "dsp_buffer_at p i = p + of_nat (12 * i)"
  by (simp add: dsp_buffer_at_def layout_simps mult.commute)

lemma store_access_before:
  assumes "j < i" and "12 * (i + length bs) \<le> 2 ^ 32"
  shows "read32 (store_access m p i bs) (dsp_buffer_at p j) = read32 m (dsp_buffer_at p j)"
  using assms
proof (induction bs arbitrary: m i)
  case (Cons b bs)
  have "apart (dsp_buffer_at p j) 4 (dsp_buffer_at p i) 4"
    unfolding dsp_buffer_at_offset using Cons.prems by (intro apart_offsets) simp_all
  then have "apart (dsp_buffer_at p i) 4 (dsp_buffer_at p j) 4" by (rule apart_sym)
  with Cons show ?case by (simp add: layout_simps)
qed simp

lemma store_access_read:
  assumes "j < length bs" and "12 * (i + length bs) \<le> 2 ^ 32"
  shows "read32 (store_access m p i bs) (dsp_buffer_at p (i + j)) = access_performed (bs ! j)"
  using assms
proof (induction bs arbitrary: m i j)
  case (Cons b bs)
  show ?case
  proof (cases j)
    case 0
    then show ?thesis using Cons.prems by (simp add: store_access_before layout_simps)
  next
    case (Suc k)
    then show ?thesis using Cons.IH [of k "i + 1"] Cons.prems by simp
  qed
qed simp

lemma store_access_apart:
  assumes "apart p (12 * (i + length bs)) a l" and "12 * (i + length bs) \<le> 2 ^ 32" and "l \<le> 2 ^ 32"
  shows "read_bytes (store_access m p i bs) a l = read_bytes m a l"
  using assms
proof (induction bs arbitrary: m i)
  case (Cons b bs)
  have "apart (dsp_buffer_at p i) 4 a l"
    unfolding dsp_buffer_at_offset by (rule apart_within [OF Cons.prems(1)]) simp
  with Cons.prems Cons.IH [of "i + 1"] show ?case by (simp add: layout_simps)
qed simp

subsection \<open>Requests\<close>

lemma response_not_valid:
  "((f :: u32) OR XRP_DSP_CMD_FLAG_RESPONSE_VALID) AND
     (XRP_DSP_CMD_FLAG_REQUEST_VALID OR XRP_DSP_CMD_FLAG_RESPONSE_VALID) \<noteq> XRP_DSP_CMD_FLAG_REQUEST_VALID"
proof
  assume "(f OR XRP_DSP_CMD_FLAG_RESPONSE_VALID) AND
     (XRP_DSP_CMD_FLAG_REQUEST_VALID OR XRP_DSP_CMD_FLAG_RESPONSE_VALID) = XRP_DSP_CMD_FLAG_REQUEST_VALID"
  then have "bit ((f OR 2) AND 3) 1 = bit (1 :: u32) 1" by (simp add: cmd_flag_defs)
  then show False by (simp add: bit_simps)
qed

lemma complete_request_simps [simp]:
  "d_dev (complete_request st f) = d_dev st"
  "d_mmio (complete_request st f) = d_mmio st @ xrp_hw_send_host_irq (d_hw st)"
  "read32 (d_mem (complete_request st f)) (dsp_cmd (d_dev st)) = f OR XRP_DSP_CMD_FLAG_RESPONSE_VALID"
  by (simp_all add: complete_request_def layout_simps)

lemma complete_request_polled: "d_dev st = d \<Longrightarrow> xrp_request_valid (d_mem (complete_request st f)) (dsp_cmd d) =
    (False, f OR XRP_DSP_CMD_FLAG_RESPONSE_VALID)"
  using response_not_valid [of f] complete_request_simps(3) [of st f]
  by (auto simp: xrp_request_valid_def Let_def layout_simps)

text \<open>A dispatch that processed a request is one that ended in \<open>complete_request\<close>.\<close>

lemma dispatch_processed:
  assumes "xrp_device_dispatch env malloc_ok st = Some (Dispatched s st')" and "xrp_device_poll st = XRP_STATUS_SUCCESS"
  shows "process_command env malloc_ok st (read32 (d_mem st) (dsp_cmd (d_dev st))) = Some (s, st')"
proof -
  have "fst (xrp_request_valid (d_mem st) (dsp_cmd (d_dev st)))"
    using assms(2) by (simp add: xrp_device_poll_def split: if_splits)
  with assms(1) show ?thesis
    by (auto simp: xrp_device_dispatch_def xrp_request_valid_def Let_def layout_simps bind_eq_Some_conv split: if_splits)
qed

lemma process_command_cases:
  assumes "process_command env malloc_ok st flags = Some (s, st')"
  obtains (unknown) "command_handler env (d_dev st) (d_mem st) = Some None" "s = XRP_STATUS_FAILURE"
      "st' = complete_request st (flags OR XRP_DSP_CMD_FLAG_RESPONSE_DELIVERY_FAIL)"
    | (nomem) h where "command_handler env (d_dev st) (d_mem st) = Some (Some h)" "\<not> malloc_ok"
      "MAX_STACK_BUFFERS < n_buffers (d_mem st) (dsp_cmd (d_dev st))"
      "s = XRP_STATUS_FAILURE" "st' = complete_request st flags"
    | (run) h m' where "command_handler env (d_dev st) (d_mem st) = Some (Some h)"
      "run_handler h (d_mem st) (dsp_cmd (d_dev st)) = (s, m')"
      "st' = complete_request (st\<lparr>d_mem := m'\<rparr>)
         (if s \<noteq> XRP_STATUS_SUCCESS then flags OR XRP_DSP_CMD_FLAG_RESPONSE_DELIVERY_FAIL else flags)"
proof -
  obtain h where h: "command_handler env (d_dev st) (d_mem st) = Some h"
    using assms by (cases "command_handler env (d_dev st) (d_mem st)") (simp_all add: process_command_def Let_def)
  show thesis
  proof (cases h)
    case None
    with h assms show thesis by (intro unknown) (simp_all add: process_command_def Let_def)
  next
    case (Some f)
    obtain s0 m0 where r: "run_handler f (d_mem st) (dsp_cmd (d_dev st)) = (s0, m0)" by fastforce
    show thesis
    proof (cases "MAX_STACK_BUFFERS < n_buffers (d_mem st) (dsp_cmd (d_dev st)) \<and> \<not> malloc_ok")
      case True
      with h Some assms show thesis by (intro nomem [of f]) (simp_all add: process_command_def Let_def)
    next
      case False
      with h Some r assms have "s = s0" "st' = complete_request (st\<lparr>d_mem := m0\<rparr>)
         (if s \<noteq> XRP_STATUS_SUCCESS then flags OR XRP_DSP_CMD_FLAG_RESPONSE_DELIVERY_FAIL else flags)"
        by (auto simp: process_command_def Let_def split: if_splits)
      with h Some r show thesis by (intro run [of f m0]) simp_all
    qed
  qed
qed

lemma process_command_flags:
  assumes "process_command env True st flags = Some (s, st')"
  shows "read32 (d_mem st') (dsp_cmd (d_dev st)) = flags OR XRP_DSP_CMD_FLAG_RESPONSE_VALID OR
    (if s = XRP_STATUS_SUCCESS then 0 else XRP_DSP_CMD_FLAG_RESPONSE_DELIVERY_FAIL)"
  using assms
proof (cases rule: process_command_cases)
  case (run h m')
  then show ?thesis
    using complete_request_simps(3) [of "st\<lparr>d_mem := m'\<rparr>"] by (simp add: ac_simps)
qed (simp_all add: ac_simps)

lemma command_handler_cases:
  "command_handler env dev m = Some (Some h) \<Longrightarrow> h = run_command env \<or> (\<exists>f c. h = handler_of env f c)"
  by (auto simp: command_handler_def bind_eq_Some_conv split: if_splits)

lemma n_buffers_bound: "12 * unat (n_buffers m cmd) \<le> 2 ^ 32"
proof -
  have "12 * unat (n_buffers m cmd) \<le> unat (read32 m (cmd + off_buffer_size))"
    by (simp add: n_buffers_def layout_simps unat_div)
  also have "\<dots> \<le> 2 ^ 32" using less_imp_le [OF unat_lt32] by simp
  finally show ?thesis .
qed

text \<open>What is in the descriptors after a handler that uses the API has run.\<close>

lemma run_handler_access:
  assumes "via_api h" and "run_handler h m cmd = (s, m')" and "i < unat (n_buffers m cmd)"
  shows "\<exists>b. access_ok (load_buffer m (dsp_buffers m cmd) i) b \<and>
    read32 m' (dsp_buffer_at (dsp_buffers m cmd) i) = access_performed b"
proof -
  let ?p = "dsp_buffers m cmd" and ?n = "unat (n_buffers m cmd)"
  let ?g = "\<lparr>g_ref = 0, g_buffer = map (load_buffer m ?p) [0..<?n]\<rparr>"
  obtain st' g' m1 where h: "h (in_data_ptr m cmd) (read32 m (cmd + off_in_data_size)) (out_data_ptr m cmd)
      (read32 m (cmd + off_out_data_size)) ?g m = (st', g', m1)"
    by (metis prod_cases3)
  with assms(2) have m': "m' = store_access m1 ?p 0 (g_buffer g')" by (simp add: run_handler_def Let_def)
  from assms(1) h obtain cs where g': "g' = foldl dsp_call_step ?g cs" unfolding via_api_def by (metis fst_conv snd_conv)
  have "list_all2 access_ok (map (load_buffer m ?p) [0..<?n]) (g_buffer g')"
    unfolding g' by (rule dsp_calls_access) (simp add: list_all2_conv_all_nth load_buffer_access)
  then have l: "length (g_buffer g') = ?n" and a: "access_ok (load_buffer m ?p i) (g_buffer g' ! i)"
    using assms(3) by (auto simp: list_all2_conv_all_nth)
  have "read32 m' (dsp_buffer_at ?p i) = access_performed (g_buffer g' ! i)"
    using store_access_read [of i "g_buffer g'" 0] n_buffers_bound assms(3) by (simp add: m' l)
  with a show ?thesis by blast
qed

subsection \<open>Properties\<close>

lemmas sample_defs = sample_state_def sample_mem_def sample_env_def sample_handler_def fresh_device_def

lemma sample_reads:
  "read32 sample_mem 0x1000 = 1" "read32 sample_mem 0x1004 = 4" "read32 sample_mem 0x1008 = 4"
  "read32 sample_mem 0x100c = 12" "read32 sample_mem 0x1030 = 3" "read32 sample_mem 0x1034 = 0x100"
  "read32 sample_mem 0x1038 = 0x8000"
  by (simp_all add: sample_mem_def apart_def)

lemma sample_poll: "xrp_device_poll sample_state = XRP_STATUS_SUCCESS"
  by (simp add: xrp_device_poll_def xrp_request_valid_def sample_state_def sample_reads layout_simps cmd_flag_defs)

lemma sample_via_api: "via_api (run_command sample_env) \<and> (\<forall>f c. via_api (handler_of sample_env f c))"
proof -
  have "\<exists>calls. dsp_call_step g c = foldl dsp_call_step g calls" for g c
    by (rule exI [of _ "[c]"]) simp
  then show ?thesis by (simp add: via_api_def sample_env_def sample_handler_def del: dsp_call_step.simps)
qed

lemma sample_dispatch:
  "\<exists>st'. xrp_device_dispatch sample_env True sample_state = Some (Dispatched XRP_STATUS_SUCCESS st')"
  by (simp add: xrp_device_dispatch_def xrp_request_valid_def process_command_def command_handler_def
      run_handler_def n_buffers_def MAX_STACK_BUFFERS_def sample_state_def sample_reads sample_env_def sample_handler_def layout_simps cmd_flag_defs
      XRP_DSP_SYNC_START_def Let_def)

text \<open>
  C22: A pending request that is dispatched as a command is answered exactly once: afterwards the
  request is no longer pending, every further dispatch finds nothing to do and changes nothing, and the
  host has been interrupted once.
\<close>

theorem request_answered_once:
  assumes "xrp_device_dispatch env malloc_ok st = Some (Dispatched s st')"
    and "xrp_device_poll st = XRP_STATUS_SUCCESS"
  shows "xrp_device_poll st' = XRP_STATUS_PENDING \<and>
    xrp_device_dispatch env' malloc_ok' st' = Some (Dispatched XRP_STATUS_PENDING st') \<and>
    d_dev st' = d_dev st \<and> d_mmio st' = d_mmio st @ xrp_hw_send_host_irq (d_hw st)"
  using dispatch_processed [OF assms]
proof (cases rule: process_command_cases)
  case unknown
  then show ?thesis by (simp add: xrp_device_poll_def xrp_device_dispatch_def complete_request_polled)
next
  case (nomem h)
  then show ?thesis by (simp add: xrp_device_poll_def xrp_device_dispatch_def complete_request_polled)
next
  case (run h m')
  then show ?thesis by (simp add: xrp_device_poll_def xrp_device_dispatch_def complete_request_polled)
qed

theorem request_answered_once_witness:
  "\<exists>st'. xrp_device_dispatch sample_env True sample_state = Some (Dispatched XRP_STATUS_SUCCESS st') \<and>
     xrp_device_dispatch sample_env True st' = Some (Dispatched XRP_STATUS_PENDING st') \<and>
     d_mmio st' = [(0xfd000014, 0x20)]"
proof -
  obtain st' where d: "xrp_device_dispatch sample_env True sample_state = Some (Dispatched XRP_STATUS_SUCCESS st')"
    using sample_dispatch by blast
  from request_answered_once [OF d sample_poll, of sample_env True] show ?thesis
    using d by (auto simp: sample_state_def xrp_hw_send_host_irq_def BIT_def)
qed



text \<open>
  When the buffer array cannot be allocated the dispatch reports failure, but the answer the
  host sees has \<open>RESPONSE_DELIVERY_FAIL\<close> only if the request already had it: the command looks delivered
  although no handler ran.
\<close>

lemma malloc_failure_not_reported:
  assumes "xrp_device_dispatch env False st = Some (Dispatched s st')"
    and "xrp_device_poll st = XRP_STATUS_SUCCESS"
    and "command_handler env (d_dev st) (d_mem st) = Some (Some h)"
    and "MAX_STACK_BUFFERS < n_buffers (d_mem st) (dsp_cmd (d_dev st))"
  shows "s = XRP_STATUS_FAILURE \<and>
    read32 (d_mem st') (dsp_cmd (d_dev st)) =
      read32 (d_mem st) (dsp_cmd (d_dev st)) OR XRP_DSP_CMD_FLAG_RESPONSE_VALID"
  using dispatch_processed [OF assms(1,2)] assms(3,4)
  by (auto simp: process_command_def Let_def complete_request_def layout_simps)

lemma malloc_failure_not_reported_example:
  "\<exists>st'. xrp_device_dispatch sample_env False (sample_state\<lparr>d_mem := write32 sample_mem 0x100c 0x100\<rparr>) =
      Some (Dispatched XRP_STATUS_FAILURE st') \<and> read32 (d_mem st') 0x1000 = 3"
proof -
  let ?st = "sample_state\<lparr>d_mem := write32 sample_mem 0x100c 0x100\<rparr>"
  have r: "read32 (write32 sample_mem 0x100c 0x100) 0x1000 = 1" "n_buffers (write32 sample_mem 0x100c 0x100) 0x1000 = 21"
    by (simp_all add: sample_reads n_buffers_def layout_simps apart_def)
  have c: "command_handler sample_env (d_dev ?st) (d_mem ?st) = Some (Some sample_handler)"
    by (simp add: command_handler_def sample_state_def r layout_simps cmd_flag_defs sample_env_def)
  have p: "xrp_device_poll ?st = XRP_STATUS_SUCCESS"
    by (simp add: xrp_device_poll_def xrp_request_valid_def sample_state_def r layout_simps cmd_flag_defs)
  have "\<exists>s st'. xrp_device_dispatch sample_env False ?st = Some (Dispatched s st')"
    using c by (simp add: xrp_device_dispatch_def xrp_request_valid_def process_command_def r sample_state_def
        layout_simps cmd_flag_defs XRP_DSP_SYNC_START_def MAX_STACK_BUFFERS_def)
  then obtain s st' where d: "xrp_device_dispatch sample_env False ?st = Some (Dispatched s st')" by blast
  from malloc_failure_not_reported [OF d p c] d show ?thesis
    by (auto simp: sample_state_def r MAX_STACK_BUFFERS_def cmd_flag_defs)
qed

text \<open>
  C27: If the handlers use the buffers through the API, a buffer is reported to the host as written
  only if the host had allowed more than reading it.
\<close>

theorem reported_access_allowed:
  assumes "via_api (run_command env) \<and> (\<forall>f c. via_api (handler_of env f c))"
    and "xrp_device_dispatch env malloc_ok st = Some (Dispatched XRP_STATUS_SUCCESS st')"
    and "xrp_device_poll st = XRP_STATUS_SUCCESS"
    and "p = dsp_buffers (d_mem st) (dsp_cmd (d_dev st))" and "n = unat (n_buffers (d_mem st) (dsp_cmd (d_dev st)))"
    and "apart p (12 * n) (dsp_cmd (d_dev st)) 4" and "i < n"
    and "read32 (d_mem st') (dsp_buffer_at p i) AND XRP_DSP_BUFFER_FLAG_WRITE \<noteq> 0"
  shows "read32 (d_mem st) (dsp_buffer_at p i) \<noteq> XRP_DSP_BUFFER_FLAG_READ"
  using dispatch_processed [OF assms(2,3)]
proof (cases rule: process_command_cases)
  case (run h m')
  have "via_api h" using command_handler_cases [OF run(1)] assms(1) by blast
  from run_handler_access [OF this run(2)] assms(4,5,7) obtain b where
    b: "access_ok (load_buffer (d_mem st) p i) b" "read32 m' (dsp_buffer_at p i) = access_performed b"
    by blast
  have "apart (dsp_cmd (d_dev st)) 4 (dsp_buffer_at p i) 4"
    unfolding dsp_buffer_at_offset
    by (rule apart_sym, rule apart_within [OF assms(6)]) (use assms(7) in simp)
  then have "read32 (d_mem st') (dsp_buffer_at p i) = read32 m' (dsp_buffer_at p i)"
    using run(3) by (simp add: complete_request_def layout_simps)
  with b assms(8) have "allowed_access (load_buffer (d_mem st) p i) AND XRP_WRITE \<noteq> 0"
    by (intro access_performed_write) simp_all
  then show ?thesis
    by (auto simp: load_buffer_def layout_simps dsp_buffer_allowed_access_def XRP_READ_def XRP_WRITE_def)
qed (use assms(2) in simp_all)

theorem reported_access_allowed_witness:
  "read32 (d_mem (case xrp_device_dispatch sample_env True sample_state of Some (Dispatched s st') \<Rightarrow> st'
       | _ \<Rightarrow> sample_state)) 0x1030 = 2 \<and> read32 (d_mem sample_state) 0x1030 \<noteq> XRP_DSP_BUFFER_FLAG_READ"
proof -
  obtain st' where d: "xrp_device_dispatch sample_env True sample_state = Some (Dispatched XRP_STATUS_SUCCESS st')"
    using sample_dispatch by blast
  have n: "n_buffers sample_mem 0x1000 = 1" by (simp add: n_buffers_def sample_reads layout_simps)
  have p: "dsp_buffers sample_mem 0x1000 = 0x1030" by (simp add: dsp_buffers_def n layout_simps)
  have "read32 (d_mem st') 0x1030 = 2"
    using d dispatch_processed [OF d sample_poll]
    by (simp add: process_command_def command_handler_def run_handler_def sample_state_def sample_reads n p
        layout_simps cmd_flag_defs sample_env_def sample_handler_def Let_def)
      (auto simp: complete_request_def layout_simps MAX_STACK_BUFFERS_def dsp_buffer_at_def access_performed_def
        on_buffer_def buffer_op_defs load_buffer_def dsp_buffer_allowed_access_def sample_reads apart_def
        XRP_DSP_BUFFER_FLAG_READ_def XRP_DSP_BUFFER_FLAG_WRITE_def XRP_READ_def XRP_WRITE_def XRP_READ_WRITE_def)
  moreover from this have "read32 (d_mem sample_state) (dsp_buffer_at 0x1030 0) \<noteq> XRP_DSP_BUFFER_FLAG_READ"
    using reported_access_allowed [OF sample_via_api d sample_poll refl refl, of 0]
    by (simp add: sample_state_def p n apart_def dsp_buffer_at_def XRP_DSP_BUFFER_FLAG_WRITE_def)
  ultimately show ?thesis using d by (simp add: dsp_buffer_at_def)
qed

text \<open>
  Mapping succeeds exactly for a range inside the buffer and flags inside the allowed access; the
  pointer is the start of that range; a failed call changes nothing; and unmapping the pointer undoes the
  counts.
\<close>

lemma map_buffer_spec:
  assumes "unat (b_ptr b) + unat (b_size b) < 2 ^ 32"
  shows "case xrp_map_buffer b offset sz flags of
      (b', Some p, s) \<Rightarrow> s = XRP_STATUS_SUCCESS \<and> unat offset + unat sz \<le> unat (b_size b) \<and>
        allowed_access b AND flags = flags \<and> unat p = unat (b_ptr b) + unat offset \<and>
        map_flags b' = map_flags b OR flags \<and>
        (\<exists>b''. xrp_unmap_buffer b' p = (b'', XRP_STATUS_SUCCESS) \<and> b_ref b'' = b_ref b \<and>
          map_count b'' = map_count b)
    | (b', None, s) \<Rightarrow> s = XRP_STATUS_FAILURE \<and> b' = b \<and>
        \<not> (unat offset + unat sz \<le> unat (b_size b) \<and> allowed_access b AND flags = flags)"
proof (cases "unat offset + unat sz \<le> unat (b_size b) \<and> allowed_access b AND flags = flags")
  case True
  then have in_range: "offset \<le> b_size b \<and> sz \<le> b_size b - offset" by (simp add: range_inside)
  have p: "unat (b_ptr b + offset) = unat (b_ptr b) + unat offset"
    using True assms by (intro unat_add_le) simp
  then have "b_ptr b \<le> b_ptr b + offset" by (simp add: word_le_nat_alt)
  with in_range True p show ?thesis by (simp add: buffer_op_defs Let_def)
next
  case False
  then have "\<not> (offset \<le> b_size b \<and> sz \<le> b_size b - offset \<and> allowed_access b AND flags = flags)"
    using range_inside [of offset "b_size b" sz] by auto
  then have "xrp_map_buffer b offset sz flags = (b, None, XRP_STATUS_FAILURE)"
    unfolding xrp_map_buffer_def by (rule if_not_P)
  with False show ?thesis by simp
qed

lemma map_buffer_spec_example:
  "fst (snd (xrp_map_buffer \<lparr>b_ref = 0, b_ptr = 0x8000, b_size = 0x100, map_count = 0, allowed_access = 1, map_flags = 0\<rparr>
     0x80 0x80 1)) = Some 0x8080 \<and>
   fst (snd (xrp_map_buffer \<lparr>b_ref = 0, b_ptr = 0x8000, b_size = 0x100, map_count = 0, allowed_access = 1, map_flags = 0\<rparr>
     0x80 0x81 1)) = None"
  using map_buffer_spec [of "\<lparr>b_ref = 0, b_ptr = 0x8000, b_size = 0x100, map_count = 0, allowed_access = 1, map_flags = 0\<rparr>"
      "0x80" "0x80" 1]
    map_buffer_spec [of "\<lparr>b_ref = 0, b_ptr = 0x8000, b_size = 0x100, map_count = 0, allowed_access = 1, map_flags = 0\<rparr>"
      "0x80" "0x81" 1]
  by (simp add: xrp_map_buffer_def)

end
