(* ===== verification/XRP_Protocol.thy ===== *)
theory XRP_Protocol
  imports XRP_Submit XRP_Dsp
begin

text \<open>
  Host and DSP together: the command that the driver writes (\<open>xrp_fill_hw_request\<close>, \<open>XRP_Kernel_Request\<close>) is
  the one that the DSP library decodes (\<open>XRP_Dsp\<close>), and the answer of the DSP is what the driver reports
  (\<open>xrp_complete_hw_request\<close>).

  The DSP sees the memory at other addresses: \<open>dsp_view\<close> \<open>d\<close> is the memory shifted by \<open>d\<close>, as a window of the
  address map does it.
\<close>

subsection \<open>Two views of the memory\<close>

definition dsp_view :: "u32 \<Rightarrow> mem \<Rightarrow> mem" where
  "dsp_view d m = (\<lambda>a. m (a - d))"

definition host_view :: "u32 \<Rightarrow> mem \<Rightarrow> mem" where
  "host_view d m = (\<lambda>a. m (a + d))"

lemma read_bytes_dsp_view [simp]: "read_bytes (dsp_view d m) (a + d) n = read_bytes m a n"
  by (simp add: read_bytes_def dsp_view_def algebra_simps)

lemma read_bytes_host_view [simp]: "read_bytes (host_view d m) a n = read_bytes m (a + d) n"
  by (simp add: read_bytes_def host_view_def algebra_simps)

lemma read32_views [simp]:
  "read32 (dsp_view d m) (a + d) = read32 m a" "read32 (host_view d m) a = read32 m (a + d)"
  by (simp_all add: read32_def)

lemma dsp_view_offsets:
  "read32 (dsp_view d m) (a + d + k) = read32 m (a + k)" "read_bytes (dsp_view d m) (a + d + k) n = read_bytes m (a + k) n"
  using read32_views(1) [of d m "a + k"] read_bytes_dsp_view [of d m "a + k" n] by (simp_all add: ac_simps)

subsection \<open>A command as a list of fields\<close>

text \<open>Writing fields at offsets of a base address, and that they do not overlap.\<close>

fun put_fields :: "mem \<Rightarrow> u32 \<Rightarrow> (nat \<times> u8 list) list \<Rightarrow> mem" where
  "put_fields m cmd [] = m"
| "put_fields m cmd ((k, bs) # fs) = put_fields (write_bytes m (cmd + of_nat k) bs) cmd fs"

fun fields_ok :: "nat \<Rightarrow> (nat \<times> u8 list) list \<Rightarrow> bool" where
  "fields_ok sz [] = True"
| "fields_ok sz ((k, bs) # fs) \<longleftrightarrow>
     k + length bs \<le> sz \<and> (\<forall>(j, cs)\<in>set fs. j + length cs \<le> k \<or> k + length bs \<le> j) \<and> fields_ok sz fs"

lemma fields_ok_size: "fields_ok sz fs \<Longrightarrow> (k, bs) \<in> set fs \<Longrightarrow> k + length bs \<le> sz"
  by (induction fs) auto

lemma read_write_offsets:
  assumes "j + length cs \<le> k \<or> k + n \<le> j" and "j + length cs \<le> 2 ^ 32" and "k + n \<le> 2 ^ 32"
  shows "read_bytes (write_bytes m (cmd + of_nat j) cs) (cmd + of_nat k) n = read_bytes m (cmd + of_nat k) n"
proof (rule read_write_apart)
  show "apart (cmd + of_nat j) (length cs) (cmd + of_nat k) n"
    using assms apart_offsets [of j "length cs" k n cmd] apart_offsets [of k n j "length cs" cmd]
    by (auto intro: apart_sym)
qed (use assms in auto)

lemma read_other_field:
  assumes "fields_ok sz fs" and "sz \<le> 2 ^ 32" and "k + n \<le> sz"
    and "\<forall>(j, cs)\<in>set fs. j + length cs \<le> k \<or> k + n \<le> j"
  shows "read_bytes (put_fields m cmd fs) (cmd + of_nat k) n = read_bytes m (cmd + of_nat k) n"
  using assms
proof (induction fs arbitrary: m)
  case (Cons f fs)
  obtain j cs where f: "f = (j, cs)" by fastforce
  have "read_bytes (write_bytes m (cmd + of_nat j) cs) (cmd + of_nat k) n = read_bytes m (cmd + of_nat k) n"
    using Cons.prems by (intro read_write_offsets) (auto simp: f)
  with Cons show ?case by (auto simp: f)
qed simp

lemma read_field:
  assumes "fields_ok sz fs" and "sz \<le> 2 ^ 32" and "(k, bs) \<in> set fs" and "n = length bs"
  shows "read_bytes (put_fields m cmd fs) (cmd + of_nat k) n = bs"
  using assms
proof (induction fs arbitrary: m)
  case (Cons f fs)
  show ?case
  proof (cases "f = (k, bs)")
    case True
    with Cons.prems have "read_bytes (put_fields m cmd (f # fs)) (cmd + of_nat k) n =
        read_bytes (write_bytes m (cmd + of_nat k) bs) (cmd + of_nat k) n"
      by (simp, intro read_other_field [of sz]) auto
    then show ?thesis using Cons.prems True by (simp add: read_write_bytes)
  next
    case False
    then show ?thesis using Cons by (cases f) auto
  qed
qed simp

text \<open>The fields of a command for the request \<open>rq\<close>, in the order in which the driver writes them.\<close>

definition cmd_fields :: "xrp_address_map \<Rightarrow> xrp_request \<Rightarrow> (nat \<times> u8 list) list" where
  "cmd_fields amap rq =
     (let q = rq_queue rq in
      [(4, bytes_of32 (q_in_data_size q)), (8, bytes_of32 (q_out_data_size q)),
       (12, bytes_of32 (of_nat (rq_n_buffers rq) * 12)),
       (16, if q_in_data_size q > 16 then bytes_of32 (xrp_translate_to_dsp amap (rq_in_data_phys rq))
            else pad4 (take (unat (q_in_data_size q)) (rq_in_data rq)))] @
      (if q_out_data_size q > 16 then [(32, bytes_of32 (xrp_translate_to_dsp amap (rq_out_data_phys rq)))] else []) @
      [(48, if rq_n_buffers rq > 1 then bytes_of32 (xrp_translate_to_dsp amap (rq_dsp_buffer_phys rq))
            else pad4 (inline_buffers rq))] @
      (if q_flags q AND XRP_QUEUE_FLAG_NSID \<noteq> 0 then [(64, pad4 (take 16 (rq_nsid rq)))] else []) @
      [(0, bytes_of32 ((q_flags q AND NOT XRP_DSP_CMD_FLAG_RESPONSE_VALID) OR XRP_DSP_CMD_FLAG_REQUEST_VALID))])"

lemma fill_hw_request_fields: "xrp_fill_hw_request amap cmd rq m = put_fields m cmd (cmd_fields amap rq)"
  by (simp add: xrp_fill_hw_request_def cmd_fields_def Let_def xrp_comm_write32_def write32_def comm_write_bytes layout_simps)

lemma length_pad4_le: "length bs \<le> 4 * k \<Longrightarrow> length (pad4 bs) \<le> 4 * k"
  unfolding length_pad4 by (rule round_up_least) simp_all

lemma cmd_fields_ok: "fields_ok 80 (cmd_fields amap rq)"
proof -
  have i: "length (pad4 (take (unat (q_in_data_size (rq_queue rq))) (rq_in_data rq))) \<le> 16" if "\<not> q_in_data_size (rq_queue rq) > 16"
    using length_pad4_le [of "take (unat (q_in_data_size (rq_queue rq))) (rq_in_data rq)" 4] that
    by (simp add: word_less_nat_alt)
  have b: "length (pad4 (inline_buffers rq)) \<le> 12"
    using length_pad4_le [of "inline_buffers rq" 3] by (simp add: inline_buffers_def dsp_buffer_bytes_def)
  have n: "length (pad4 (take 16 (rq_nsid rq))) \<le> 16" using length_pad4_le [of "take 16 (rq_nsid rq)" 4] by simp
  show ?thesis using i b n by (auto simp: cmd_fields_def Let_def)
qed

lemma fill_read:
  "(k, bs) \<in> set (cmd_fields amap rq) \<Longrightarrow> n = length bs \<Longrightarrow>
     read_bytes (xrp_fill_hw_request amap cmd rq m) (cmd + of_nat k) n = bs"
  unfolding fill_hw_request_fields by (rule read_field [OF cmd_fields_ok]) simp_all

lemma fill_word:
  "(k, bytes_of32 v) \<in> set (cmd_fields amap rq) \<Longrightarrow> read32 (xrp_fill_hw_request amap cmd rq m) (cmd + of_nat k) = v"
  by (simp add: read32_def fill_read)

text \<open>A request as \<open>xrp_map_request\<close> leaves it.\<close>

definition request_filled :: "xrp_request \<Rightarrow> bool" where
  "request_filled rq \<longleftrightarrow> q_flags (rq_queue rq) AND NOT XRP_QUEUE_VALID_FLAGS = 0 \<and>
     rq_n_buffers rq = unat (q_buffer_size (rq_queue rq)) div sizeof_ioctl_buffer \<and>
     (q_in_data_size (rq_queue rq) \<le> XRP_DSP_CMD_INLINE_DATA_SIZE \<longrightarrow>
        length (rq_in_data rq) = unat (q_in_data_size (rq_queue rq))) \<and>
     (q_flags (rq_queue rq) AND XRP_QUEUE_FLAG_NSID \<noteq> 0 \<longrightarrow> length (rq_nsid rq) = XRP_DSP_CMD_NAMESPACE_ID_SIZE)"

lemma valid_flags:
  fixes f :: u32
  assumes "f AND NOT XRP_QUEUE_VALID_FLAGS = 0"
  shows "f = 0 \<or> f = 4"
proof -
  have "f = f AND 4 OR f AND NOT 4" by (simp add: bit_eq_iff bit_simps) blast
  then have f: "f = f AND 4" using assms by (simp add: XRP_QUEUE_VALID_FLAGS_def)
  have "f AND 4 = of_bool (bit f 2) * 4"
  proof (rule bit_eqI)
    fix n
    have "bit (4 :: u32) n \<longleftrightarrow> n = 2" using bit_exp_iff [of 2 n, where 'a = u32] by auto
    then show "bit (f AND 4) n = bit (of_bool (bit f 2) * 4 :: u32) n" by (auto simp: bit_simps)
  qed
  with f show ?thesis by (cases "bit f 2") simp_all
qed

lemma request_filled_simps:
  assumes "request_filled rq"
  shows "q_flags (rq_queue rq) = 0 \<or> q_flags (rq_queue rq) = 4" and "rq_n_buffers rq < 2 ^ 28"
proof -
  show "q_flags (rq_queue rq) = 0 \<or> q_flags (rq_queue rq) = 4" using assms by (intro valid_flags) (simp add: request_filled_def)
  show "rq_n_buffers rq < 2 ^ 28"
    using assms unat_lt32 [of "q_buffer_size (rq_queue rq)"]
    by (simp add: request_filled_def sizeof_ioctl_buffer_def less_mult_imp_div_less)
qed

text \<open>The header of the command, as the host sees it.\<close>

lemma fill_header:
  assumes "request_filled rq"
  shows "read32 (xrp_fill_hw_request amap cmd rq m) cmd = q_flags (rq_queue rq) OR XRP_DSP_CMD_FLAG_REQUEST_VALID"
    and "read32 (xrp_fill_hw_request amap cmd rq m) (cmd + 4) = q_in_data_size (rq_queue rq)"
    and "read32 (xrp_fill_hw_request amap cmd rq m) (cmd + 8) = q_out_data_size (rq_queue rq)"
    and "read32 (xrp_fill_hw_request amap cmd rq m) (cmd + 12) = of_nat (rq_n_buffers rq) * 12"
  using fill_word [of 0 _ amap rq cmd m] fill_word [of 4 _ amap rq cmd m] fill_word [of 8 _ amap rq cmd m]
    fill_word [of 12 _ amap rq cmd m] request_filled_simps(1) [OF assms]
  by (auto simp: cmd_fields_def Let_def cmd_flag_defs)

lemma fill_n_buffers:
  assumes "request_filled rq"
  shows "n_buffers (dsp_view d (xrp_fill_hw_request amap cmd rq m)) (cmd + d) = of_nat (rq_n_buffers rq)"
    and "unat (of_nat (rq_n_buffers rq) :: u32) = rq_n_buffers rq"
proof -
  let ?n = "of_nat (rq_n_buffers rq) :: u32"
  show n: "unat ?n = rq_n_buffers rq" using request_filled_simps(2) [OF assms] by (simp add: unat_of_nat)
  then have "unat (?n * 12) = unat ?n * 12"
    using request_filled_simps(2) [OF assms] by (subst unat_mult_lem [THEN iffD1]) simp_all
  then have "unat (?n * 12 div 12) = unat ?n" by (simp add: unat_div)
  then have "?n * 12 div 12 = ?n" by (simp only: word_unat_eq_iff)
  then show "n_buffers (dsp_view d (xrp_fill_hw_request amap cmd rq m)) (cmd + d) = ?n"
    using fill_header(4) [OF assms, of amap cmd m] by (simp add: n_buffers_def dsp_view_offsets layout_simps)
qed

lemma load_inline_buffer:
  assumes "read_bytes m p 12 = dsp_buffer_bytes b"
  shows "load_buffer m p 0 = \<lparr>b_ref = 0, b_ptr = db_addr b, b_size = db_size b, map_count = 0,
    allowed_access = dsp_buffer_allowed_access (db_flags b), map_flags = 0\<rparr>"
proof -
  have "read_bytes m p (4 + (4 + 4)) = bytes_of32 (db_flags b) @ bytes_of32 (db_size b) @ bytes_of32 (db_addr b)"
    using assms by (simp add: dsp_buffer_bytes_def)
  then have "read_bytes m p 4 = bytes_of32 (db_flags b)" "read_bytes m (p + 4) 4 = bytes_of32 (db_size b)"
    "read_bytes m (p + 4 + 4) 4 = bytes_of32 (db_addr b)"
    unfolding read_bytes_append by (simp_all add: append_eq_append_conv)
  then show ?thesis by (simp add: load_buffer_def XRP_Dsp.dsp_buffer_at_def read32_def layout_simps ac_simps)
qed

lemma pad4_whole: "4 dvd length p \<Longrightarrow> pad4 p = p"
  by (simp add: pad4_def round_up_id)

text \<open>What the DSP finds: input and output data, the descriptors, the namespace.\<close>

lemma decoded_in_data:
  assumes "request_filled rq" and "m' = dsp_view d (xrp_fill_hw_request amap cmd rq m)"
  shows "if q_in_data_size (rq_queue rq) > 16 then in_data_ptr m' (cmd + d) = xrp_translate_to_dsp amap (rq_in_data_phys rq)
     else read_bytes m' (in_data_ptr m' (cmd + d)) (unat (q_in_data_size (rq_queue rq))) = rq_in_data rq"
proof (cases "q_in_data_size (rq_queue rq) > 16")
  case True
  then have "read32 (xrp_fill_hw_request amap cmd rq m) (cmd + of_nat 16) = xrp_translate_to_dsp amap (rq_in_data_phys rq)"
    by (intro fill_word) (simp add: cmd_fields_def Let_def)
  with True show ?thesis
    using fill_header(2) [OF assms(1)] by (simp add: in_data_ptr_def assms(2) dsp_view_offsets layout_simps)
next
  case False
  let ?d = "rq_in_data rq" and ?m = "xrp_fill_hw_request amap cmd rq m"
  have l: "length ?d = unat (q_in_data_size (rq_queue rq))" using assms(1) False by (simp add: request_filled_def layout_simps)
  have "read_bytes ?m (cmd + of_nat 16) (length (pad4 ?d)) = pad4 ?d"
    using False l by (intro fill_read) (simp_all add: cmd_fields_def Let_def)
  then have "take (length ?d) (read_bytes ?m (cmd + 16) (length (pad4 ?d))) = ?d" by (simp add: pad4_def)
  then have "read_bytes ?m (cmd + 16) (length ?d) = ?d"
    using round_up_ge [of 4 "length ?d"] by (simp add: take_read_bytes length_pad4)
  with False l show ?thesis
    using fill_header(2) [OF assms(1)] by (simp add: in_data_ptr_def assms(2) dsp_view_offsets layout_simps)
qed

lemma decoded_out_data:
  assumes "request_filled rq" and "m' = dsp_view d (xrp_fill_hw_request amap cmd rq m)"
  shows "out_data_ptr m' (cmd + d) =
    (if q_out_data_size (rq_queue rq) > 16 then xrp_translate_to_dsp amap (rq_out_data_phys rq) else cmd + d + off_out_data)"
proof -
  have "q_out_data_size (rq_queue rq) > 16 \<Longrightarrow>
      read32 (xrp_fill_hw_request amap cmd rq m) (cmd + of_nat 32) = xrp_translate_to_dsp amap (rq_out_data_phys rq)"
    by (intro fill_word) (simp add: cmd_fields_def Let_def)
  then show ?thesis
    using fill_header(3) [OF assms(1)] by (simp add: out_data_ptr_def assms(2) dsp_view_offsets layout_simps)
qed

lemma decoded_descriptors:
  assumes "request_filled rq" and "m' = dsp_view d (xrp_fill_hw_request amap cmd rq m)" and "rq_n_buffers rq > 1"
  shows "dsp_buffers m' (cmd + d) = xrp_translate_to_dsp amap (rq_dsp_buffer_phys rq)"
proof -
  have "read32 (xrp_fill_hw_request amap cmd rq m) (cmd + of_nat 48) = xrp_translate_to_dsp amap (rq_dsp_buffer_phys rq)"
    using assms(3) by (intro fill_word) (simp add: cmd_fields_def Let_def)
  then show ?thesis using assms(3) fill_n_buffers [OF assms(1)]
    by (simp add: dsp_buffers_def assms(2) dsp_view_offsets layout_simps word_less_nat_alt)
qed

lemma decoded_single_buffer:
  assumes "request_filled rq" and "m' = dsp_view d (xrp_fill_hw_request amap cmd rq m)" and "rq_n_buffers rq = 1"
  shows "load_buffer m' (dsp_buffers m' (cmd + d)) 0 =
       \<lparr>b_ref = 0, b_ptr = db_addr (rq_buffer_data rq), b_size = db_size (rq_buffer_data rq), map_count = 0,
        allowed_access = dsp_buffer_allowed_access (db_flags (rq_buffer_data rq)), map_flags = 0\<rparr>"
proof (rule load_inline_buffer)
  have "inline_buffers rq = dsp_buffer_bytes (rq_buffer_data rq)"
    using assms(3) by (simp add: inline_buffers_def dsp_buffer_bytes_def layout_simps)
  then have "read_bytes (xrp_fill_hw_request amap cmd rq m) (cmd + of_nat 48) 12 = dsp_buffer_bytes (rq_buffer_data rq)"
    using assms(3) by (intro fill_read) (simp_all add: cmd_fields_def Let_def pad4_whole dsp_buffer_bytes_def)
  then show "read_bytes m' (dsp_buffers m' (cmd + d)) 12 = dsp_buffer_bytes (rq_buffer_data rq)"
    using assms(3) fill_n_buffers [OF assms(1)] by (simp add: dsp_buffers_def assms(2) dsp_view_offsets layout_simps)
qed

lemma decoded_nsid:
  assumes "request_filled rq" and "m' = dsp_view d (xrp_fill_hw_request amap cmd rq m)"
    and "q_flags (rq_queue rq) AND XRP_QUEUE_FLAG_NSID \<noteq> 0"
  shows "read_bytes m' (cmd + d + 64) 16 = rq_nsid rq"
proof -
  have l: "length (rq_nsid rq) = 16" using assms(1,3) by (simp add: request_filled_def layout_simps)
  then have "read_bytes (xrp_fill_hw_request amap cmd rq m) (cmd + of_nat 64) 16 = rq_nsid rq"
    using assms(3) by (intro fill_read) (simp_all add: cmd_fields_def Let_def pad4_whole)
  then show ?thesis by (simp add: assms(2) dsp_view_offsets)
qed

subsection \<open>What mapping leaves behind\<close>

text \<open>\<open>copy_from_user\<close> delivers as many bytes as were asked for.\<close>

definition get_user_law :: "kenv \<Rightarrow> bool" where
  "get_user_law env \<longleftrightarrow> (\<forall>m a n bs. kv_get_user env m a n = Some bs \<longrightarrow> length bs = n)"

text \<open>The parts of a request that travel in the command itself.\<close>

definition inline_part :: "xrp_request \<Rightarrow> xrp_ioctl_queue \<times> nat \<times> u8 list \<times> u8 list" where
  "inline_part rq = (rq_queue rq, rq_n_buffers rq, rq_in_data rq, rq_nsid rq)"

lemma and_then_Some:
  "and_then r f = Some (None, rq', st') \<longleftrightarrow> (\<exists>rq st. r = Some (None, rq, st) \<and> f rq st = Some (None, rq', st'))"
  by (auto simp: and_then_def bind_eq_Some_conv split: option.splits)

lemma map_out_data_inline: "map_out_data env filp rq st = Some (None, rq', st') \<Longrightarrow> inline_part rq' = inline_part rq"
  by (auto simp: map_out_data_def inline_part_def Let_def split: bind_splits if_split_asm sum.split_asm prod.split_asm)

lemma map_buffer_inline: "map_buffer env filp i rq st = Some (None, rq', st') \<Longrightarrow> inline_part rq' = inline_part rq"
  by (auto simp: map_buffer_def inline_part_def store_dsp_buffer_def Let_def
      split: bind_splits if_split_asm sum.split_asm option.split_asm prod.split_asm)

lemma map_buffers_inline: "map_buffers env filp is rq st = Some (None, rq', st') \<Longrightarrow> inline_part rq' = inline_part rq"
  by (induction "is" arbitrary: rq st) (auto simp: and_then_Some dest: map_buffer_inline)

lemma map_descriptors_inline: "map_descriptors env rq st = Some (None, rq', st') \<Longrightarrow> inline_part rq' = inline_part rq"
  by (auto simp: map_descriptors_def inline_part_def split: bind_splits if_split_asm sum.split_asm prod.split_asm)

lemma share_request_inline:
  assumes "share_request env filp rq st = Some (None, rq', st')" and "get_user_law env"
  shows "rq_queue rq' = rq_queue rq \<and> rq_n_buffers rq' = rq_n_buffers rq \<and> rq_nsid rq' = rq_nsid rq \<and>
    (q_in_data_size (rq_queue rq) \<le> XRP_DSP_CMD_INLINE_DATA_SIZE \<longrightarrow> length (rq_in_data rq') = unat (q_in_data_size (rq_queue rq)))"
proof -
  from assms(1) obtain rq1 st1 rq2 st2 rq3 st3 where s: "map_in_data env filp rq st = Some (None, rq1, st1)"
    "map_out_data env filp rq1 st1 = Some (None, rq2, st2)"
    "map_buffers env filp [0..<rq_n_buffers rq2] rq2 st2 = Some (None, rq3, st3)"
    "map_descriptors env rq3 st3 = Some (None, rq', st')"
    by (auto simp: share_request_def and_then_Some)
  then have "inline_part rq' = inline_part rq1"
    using map_out_data_inline map_buffers_inline map_descriptors_inline by metis
  moreover have "rq_queue rq1 = rq_queue rq \<and> rq_n_buffers rq1 = rq_n_buffers rq \<and> rq_nsid rq1 = rq_nsid rq \<and>
    (q_in_data_size (rq_queue rq) \<le> XRP_DSP_CMD_INLINE_DATA_SIZE \<longrightarrow> length (rq_in_data rq1) = unat (q_in_data_size (rq_queue rq)))"
    using s(1) assms(2)
    by (auto simp: map_in_data_def get_user_law_def Let_def split: bind_splits if_split_asm sum.split_asm option.split_asm prod.split_asm)
  ultimately show ?thesis by (simp add: inline_part_def)
qed

subsection \<open>The answer\<close>

text \<open>The driver waits until the answer is there.\<close>

lemma complete_cmd_answered:
  assumes "\<forall>ev\<in>set waits. fst ev > 0 \<and> \<not> xrp_cmd_complete (snd ev) comm" and "xrp_cmd_complete m comm"
  shows "xvp_complete_cmd_irq comm (waits @ (t, m) # rest) = Some (None, m)"
    and "xvp_complete_cmd_poll comm (waits @ (t, m) # rest) = Some (None, m)"
  using assms by (induction waits) auto

lemma process_command_returns:
  assumes "command_handler env (d_dev st) (d_mem st) \<noteq> None" and "unat (n_buffers (d_mem st) (dsp_cmd (d_dev st))) \<le> 2 ^ 27"
  shows "\<exists>s st'. process_command env True st flags = Some (s, st')"
proof -
  let ?n = "n_buffers (d_mem st) (dsp_cmd (d_dev st))"
  have "unat (?n * sizeof_xrp_buffer) = unat ?n * unat sizeof_xrp_buffer"
    using assms(2) unfolding sizeof_xrp_buffer_def by (subst unat_mult_lem [THEN iffD1]) simp_all
  with assms(1) show ?thesis by (auto simp: process_command_def Let_def split: option.splits prod.splits)
qed

text \<open>The flags of the answer to a command of the driver.\<close>

lemma answer_flags:
  assumes "f = 0 \<or> f = (4 :: u32)" and "r = (f OR XRP_DSP_CMD_FLAG_REQUEST_VALID) OR XRP_DSP_CMD_FLAG_RESPONSE_VALID OR
    (if ok then 0 else XRP_DSP_CMD_FLAG_RESPONSE_DELIVERY_FAIL)"
  shows "r AND (XRP_DSP_CMD_FLAG_REQUEST_VALID OR XRP_DSP_CMD_FLAG_RESPONSE_VALID) =
      XRP_DSP_CMD_FLAG_REQUEST_VALID OR XRP_DSP_CMD_FLAG_RESPONSE_VALID"
    and "r AND XRP_DSP_CMD_FLAG_RESPONSE_DELIVERY_FAIL = 0 \<longleftrightarrow> ok"
  using assms by (auto simp: cmd_flag_defs)

lemma dispatch_command:
  assumes "request_filled rq" and "d_mem dst = dsp_view d (xrp_fill_hw_request amap cmd rq m)" and "dsp_cmd (d_dev dst) = cmd + d"
    and "command_handler denv (d_dev dst) (d_mem dst) \<noteq> None" and "rq_n_buffers rq \<le> 2 ^ 27"
  obtains s dst' where "xrp_device_dispatch denv True dst = Some (Dispatched s dst')"
    "read32 (d_mem dst') (cmd + d) = (q_flags (rq_queue rq) OR XRP_DSP_CMD_FLAG_REQUEST_VALID) OR
       XRP_DSP_CMD_FLAG_RESPONSE_VALID OR (if s = XRP_STATUS_SUCCESS then 0 else XRP_DSP_CMD_FLAG_RESPONSE_DELIVERY_FAIL)"
proof -
  let ?f = "q_flags (rq_queue rq) OR XRP_DSP_CMD_FLAG_REQUEST_VALID"
  have fl: "q_flags (rq_queue rq) = 0 \<or> q_flags (rq_queue rq) = 4" by (rule request_filled_simps(1) [OF assms(1)])
  have v: "xrp_request_valid (d_mem dst) (dsp_cmd (d_dev dst)) = (True, ?f)"
    using fl fill_header(1) [OF assms(1)] by (auto simp: xrp_request_valid_def Let_def assms(2,3) layout_simps cmd_flag_defs)
  have "unat (n_buffers (d_mem dst) (dsp_cmd (d_dev dst))) \<le> 2 ^ 27"
    using fill_n_buffers [OF assms(1)] assms(5) by (simp add: assms(2,3))
  from process_command_returns [OF assms(4) this] obtain s dst' where p: "process_command denv True dst ?f = Some (s, dst')" by blast
  have "?f \<noteq> XRP_DSP_SYNC_START" using fl by (auto simp: cmd_flag_defs XRP_DSP_SYNC_START_def)
  then have "xrp_device_dispatch denv True dst = Some (Dispatched s dst')" using v p by (simp add: xrp_device_dispatch_def)
  then show ?thesis using process_command_flags [OF p] assms(3) by (intro that) simp_all
qed

subsection \<open>Properties\<close>

text \<open>A request with four bytes of input and of output and one writable buffer.\<close>

definition sample_request :: xrp_request where
  "sample_request = sample_stack\<lparr>rq_queue := \<lparr>q_flags = 0, q_in_data_size = 4, q_out_data_size = 4, q_buffer_size = 16,
       q_in_data_addr = 0x9000, q_out_data_addr = 0x9100, q_buffer_addr = 0x9200, q_nsid_addr = 0\<rparr>,
     rq_n_buffers := 1, rq_buffer_mapping := Some [Map_none], rq_in_data := [1, 2, 3, 4],
     rq_buffer_data := \<lparr>db_flags = 3, db_size = 0x100, db_addr = 0x60008000\<rparr>\<rparr>"

definition sample_map :: xrp_address_map where
  "sample_map = \<lparr>map_entries = [\<lparr>src_addr = 0, dst_addr = 0x60000000, e_size = 0x10000000\<rparr>]\<rparr>"

lemma sample_request_filled: "request_filled sample_request"
  by (simp add: request_filled_def sample_request_def sample_stack_def sizeof_ioctl_buffer_def layout_simps XRP_QUEUE_VALID_FLAGS_def)

text \<open>
  Surroundings in which the DSP dispatches the command while the driver waits: the driver looks once before
  and once after.
\<close>

definition answering_dsp :: "dsp_env \<Rightarrow> dsp_state \<Rightarrow> u32 \<Rightarrow> submit_env" where
  "answering_dsp denv dst d =
     \<lparr>se_dsp = \<lambda>m. case xrp_device_dispatch denv True (dst\<lparr>d_mem := dsp_view d m\<rparr>) of
          Some (Dispatched s dst') \<Rightarrow> [(1, m), (1, host_view d (d_mem dst'))] | _ \<Rightarrow> [],
      se_reboot = True, se_load = \<lambda>m. Some (None, m), se_synchronize = \<lambda>m. (None, m)\<rparr>"



text \<open>
  C1: The DSP decodes exactly the command the driver encoded.  For every request, inline or by address, with or
  without a namespace: the command is pending on the DSP, its sizes and its number of buffers are those of the
  request, the input data it finds inline are the bytes of the request, data and descriptors passed by
  address are at the translated address of the memory shared for them, a single buffer arrives with its
  address, its size and the access the host allows, and the namespace is the one the host named.
\<close>

theorem command_decoded:
  assumes "request_filled rq" and "m' = dsp_view d (xrp_fill_hw_request amap cmd rq m)" and "q = rq_queue rq"
  shows "xrp_request_valid m' (cmd + d) = (True, q_flags q OR XRP_DSP_CMD_FLAG_REQUEST_VALID) \<and>
    read32 m' (cmd + d + off_in_data_size) = q_in_data_size q \<and>
    read32 m' (cmd + d + off_out_data_size) = q_out_data_size q \<and>
    unat (n_buffers m' (cmd + d)) = rq_n_buffers rq \<and>
    (if q_in_data_size q > XRP_DSP_CMD_INLINE_DATA_SIZE
     then in_data_ptr m' (cmd + d) = xrp_translate_to_dsp amap (rq_in_data_phys rq)
     else read_bytes m' (in_data_ptr m' (cmd + d)) (unat (q_in_data_size q)) = rq_in_data rq) \<and>
    out_data_ptr m' (cmd + d) =
      (if q_out_data_size q > XRP_DSP_CMD_INLINE_DATA_SIZE then xrp_translate_to_dsp amap (rq_out_data_phys rq)
       else cmd + d + off_out_data) \<and>
    (rq_n_buffers rq > 1 \<longrightarrow> dsp_buffers m' (cmd + d) = xrp_translate_to_dsp amap (rq_dsp_buffer_phys rq)) \<and>
    (rq_n_buffers rq = 1 \<longrightarrow> load_buffer m' (dsp_buffers m' (cmd + d)) 0 =
       \<lparr>b_ref = 0, b_ptr = db_addr (rq_buffer_data rq), b_size = db_size (rq_buffer_data rq), map_count = 0,
        allowed_access = dsp_buffer_allowed_access (db_flags (rq_buffer_data rq)), map_flags = 0\<rparr>) \<and>
    ((q_flags q OR XRP_DSP_CMD_FLAG_REQUEST_VALID) AND XRP_DSP_CMD_FLAG_REQUEST_NSID \<noteq> 0 \<longleftrightarrow>
       q_flags q AND XRP_QUEUE_FLAG_NSID \<noteq> 0) \<and>
    (q_flags q AND XRP_QUEUE_FLAG_NSID \<noteq> 0 \<longrightarrow>
       read_bytes m' (cmd + d + off_nsid) XRP_DSP_CMD_NAMESPACE_ID_SIZE = rq_nsid rq)"
proof -
  note q = assms(3)
  have fl: "q_flags q = 0 \<or> q_flags q = 4" using request_filled_simps(1) [OF assms(1)] q by simp
  have "xrp_request_valid m' (cmd + d) = (True, q_flags q OR XRP_DSP_CMD_FLAG_REQUEST_VALID)"
    using fl fill_header(1) [OF assms(1)] by (auto simp: xrp_request_valid_def Let_def assms(2) q layout_simps cmd_flag_defs)
  moreover have "(q_flags q OR XRP_DSP_CMD_FLAG_REQUEST_VALID) AND XRP_DSP_CMD_FLAG_REQUEST_NSID \<noteq> 0 \<longleftrightarrow>
       q_flags q AND XRP_QUEUE_FLAG_NSID \<noteq> 0"
    using fl by (auto simp: cmd_flag_defs XRP_QUEUE_FLAG_NSID_def)
  moreover have "unat (n_buffers m' (cmd + d)) = rq_n_buffers rq" using fill_n_buffers [OF assms(1)] by (simp add: assms(2))
  moreover have "read32 m' (cmd + d + 4) = q_in_data_size q" "read32 m' (cmd + d + 8) = q_out_data_size q"
    using fill_header(2,3) [OF assms(1)] by (simp_all add: assms(2) q dsp_view_offsets)
  ultimately show ?thesis
    using decoded_in_data [OF assms(1,2)] decoded_out_data [OF assms(1,2)] decoded_descriptors [OF assms(1,2)]
      decoded_single_buffer [OF assms(1,2)] decoded_nsid [OF assms(1,2)]
    by (simp add: q layout_simps)
qed

theorem command_decoded_witness:
  "read_bytes (dsp_view 0x60000000 (xrp_fill_hw_request sample_map 0x1000 sample_request (\<lambda>_. 0xff)))
     (in_data_ptr (dsp_view 0x60000000 (xrp_fill_hw_request sample_map 0x1000 sample_request (\<lambda>_. 0xff))) 0x60001000) 4 = [1, 2, 3, 4] \<and>
   load_buffer (dsp_view 0x60000000 (xrp_fill_hw_request sample_map 0x1000 sample_request (\<lambda>_. 0xff)))
     (dsp_buffers (dsp_view 0x60000000 (xrp_fill_hw_request sample_map 0x1000 sample_request (\<lambda>_. 0xff))) 0x60001000) 0 =
     \<lparr>b_ref = 0, b_ptr = 0x60008000, b_size = 0x100, map_count = 0, allowed_access = 3, map_flags = 0\<rparr>"
  using command_decoded [OF sample_request_filled refl refl, of "0x60000000" sample_map "0x1000" "\<lambda>_. 0xff"]
  by (simp add: sample_request_def sample_stack_def layout_simps dsp_buffer_allowed_access_def
      XRP_DSP_BUFFER_FLAG_READ_def XRP_READ_WRITE_def)



end
