(* ===== verification/XRP_Kernel_File.thy ===== *)
theory XRP_Kernel_File
  imports XRP_Submit
begin

text \<open>
  The device file, \<^verbatim>\<open>xrp-kernel/xvp_main.c\<close> lines 362--398 (\<open>xrp_ioctl_alloc\<close>), 967--999 (\<open>xrp_ioctl_free\<close>) and
  1387--1495 (\<open>xvp_ioctl\<close>, \<open>xvp_vm_open\<close>, \<open>xvp_vm_close\<close>, \<open>xvp_mmap\<close>, \<open>xvp_open\<close>, \<open>xvp_close\<close>): how allocations get
  into the address spaces of processes and out of them again.

  The memory management of the kernel is not part of the sources.  Its choices are parameters (\<open>mm_env\<close>): the
  address of a new area, the result of \<open>remap_pfn_range\<close>, and which areas an unmapping removes.  What the driver
  relies on: \<open>vm_mmap\<close> calls the \<open>mmap\<close> operation of the file for an area of whole pages and keeps the area
  exactly if the operation succeeds; unmapping calls \<open>close\<close> once for every area it removes.

  Shown: over every sequence of these operations and of whole submissions an area never outlives the memory
  behind it; and memory whose mapping fails stays allocated for ever.
\<close>

subsection \<open>State\<close>

text \<open>
  The driver, the open files with the allocations that wait to be mapped (\<open>busy_list\<close>), the areas of all
  processes that come from the driver, and the count of users that keeps the device powered.
\<close>

record fst =
  f_k :: kst
  f_open :: "nat list"
  f_busy :: "nat \<Rightarrow> (nat \<times> xrp_allocation) list"
  f_areas :: "vma list"
  f_pm :: nat

record mm_env =
  mm_place :: "vma list \<Rightarrow> u32 \<Rightarrow> u32 option"
  mm_remap :: "vma \<Rightarrow> errno option"
  mm_unmap :: "vma list \<Rightarrow> u32 \<Rightarrow> u32 \<Rightarrow> errno option \<times> vma list \<times> vma list"

subsection \<open>Areas\<close>

text \<open>\<open>vma->vm_ops\<close> is set, so that an area holds a reference, exactly if an allocation was found.\<close>

definition xvp_mmap :: "kenv \<Rightarrow> mm_env \<Rightarrow> nat \<Rightarrow> vma \<Rightarrow> fst \<Rightarrow> errno option \<times> vma \<times> fst" where
  "xvp_mmap env mm filp vma s =
     (let pfn = vm_pgoff vma + drop_bit 12 (kv_file_pmem env filp) in
      case xrp_allocation_dequeue (push_bit 12 pfn) (vm_end vma - vm_start vma) (f_busy s filp) of
        (Some (i, a), busy) \<Rightarrow>
          (mm_remap mm vma, vma\<lparr>vm_private_data := i\<rparr>, s\<lparr>f_busy := (f_busy s)(filp := busy)\<rparr>)
      | (None, busy) \<Rightarrow> (Some EINVAL, vma, s))"

definition xvp_vm_open :: "vma \<Rightarrow> fst \<Rightarrow> fst option" where
  "xvp_vm_open vma s = do { k \<leftarrow> k_get (f_k s) (vm_private_data vma); Some (s\<lparr>f_k := k\<rparr>) }"

definition xvp_vm_close :: "vma \<Rightarrow> fst \<Rightarrow> fst option" where
  "xvp_vm_close vma s = do { k \<leftarrow> k_put (f_k s) (vm_private_data vma); Some (s\<lparr>f_k := k\<rparr>) }"

text \<open>What the kernel does with the operations above.\<close>

definition map_area :: "kenv \<Rightarrow> mm_env \<Rightarrow> nat \<Rightarrow> vma \<Rightarrow> fst \<Rightarrow> errno option \<times> fst" where
  "map_area env mm filp vma s =
     (case xvp_mmap env mm filp vma s of
        (Some e, vma, s) \<Rightarrow> (Some e, s)
      | (None, vma, s) \<Rightarrow> (None, s\<lparr>f_areas := vma # f_areas s\<rparr>))"

definition vm_mmap :: "kenv \<Rightarrow> mm_env \<Rightarrow> nat \<Rightarrow> u32 \<Rightarrow> u32 \<Rightarrow> fst \<Rightarrow> (errno + u32) \<times> fst" where
  "vm_mmap env mm filp sz offset s =
     (case mm_place mm (f_areas s) sz of
        None \<Rightarrow> (Inl ENOMEM, s)
      | Some addr \<Rightarrow>
          (case map_area env mm filp \<lparr>vm_start = addr, vm_end = addr + ALIGN sz PAGE_SIZE, vm_file = Some filp,
                  vm_pgoff = drop_bit 12 offset, vm_private_data = 0, vm_pfnmap = True\<rparr> s of
             (Some e, s) \<Rightarrow> (Inl e, s)
           | (None, s) \<Rightarrow> (Inr addr, s)))"

fun close_areas :: "vma list \<Rightarrow> fst \<Rightarrow> fst option" where
  "close_areas [] s = Some s"
| "close_areas (v # vs) s = do { s \<leftarrow> xvp_vm_close v s; close_areas vs s }"

definition vm_munmap :: "mm_env \<Rightarrow> u32 \<Rightarrow> u32 \<Rightarrow> fst \<Rightarrow> (errno option \<times> fst) option" where
  "vm_munmap mm start len s =
     (case mm_unmap mm (f_areas s) start len of
        (e, gone, kept) \<Rightarrow> do { s \<leftarrow> close_areas gone (s\<lparr>f_areas := kept\<rparr>); Some (e, s) })"

subsection \<open>The ioctl calls\<close>

definition sizeof_ioctl_alloc :: nat where
  "sizeof_ioctl_alloc = 16"

record ioctl_alloc_arg =
  ia_size :: u32
  ia_align :: u32
  ia_addr :: u64

definition ioctl_alloc_of :: "u8 list \<Rightarrow> ioctl_alloc_arg" where
  "ioctl_alloc_of bs = \<lparr>ia_size = of_bytes32 (take 4 bs), ia_align = of_bytes32 (take 4 (drop 4 bs)), ia_addr = le64_at bs 8\<rparr>"

definition ioctl_alloc_bytes :: "ioctl_alloc_arg \<Rightarrow> u8 list" where
  "ioctl_alloc_bytes ia = bytes_of32 (ia_size ia) @ bytes_of32 (ia_align ia) @
     bytes_of32 (ucast (ia_addr ia)) @ bytes_of32 (ucast (drop_bit 32 (ia_addr ia)))"

text \<open>The result of \<open>vm_mmap\<close> is not tested: a negative error code becomes the address.\<close>

fun errno_code :: "errno \<Rightarrow> u32" where
  "errno_code EINVAL = 22" | "errno_code ENOMEM = 12" | "errno_code EFAULT = 14" | "errno_code ENODEV = 19"
| "errno_code EBUSY = 16" | "errno_code ENXIO = 6" | "errno_code ENOENT = 2" | "errno_code ERESTARTSYS = 512"

definition xrp_ioctl_alloc :: "kenv \<Rightarrow> mm_env \<Rightarrow> nat \<Rightarrow> u32 \<Rightarrow> fst \<Rightarrow> (errno option \<times> fst) option" where
  "xrp_ioctl_alloc env mm filp p s =
     (case kv_get_user env (k_mem (f_k s)) p sizeof_ioctl_alloc of
        None \<Rightarrow> Some (Some EFAULT, s)
      | Some bs \<Rightarrow>
          let ia = ioctl_alloc_of bs in
          case k_allocate env (f_k s) (ia_size ia) (ia_align ia) of
            (Inl e, k) \<Rightarrow> Some (Some e, s\<lparr>f_k := k\<rparr>)
          | (Inr i, k) \<Rightarrow> do {
              a \<leftarrow> k_allocs k i;
              let s = s\<lparr>f_k := k, f_busy := (f_busy s)(filp := xrp_allocation_queue (i, a) (f_busy s filp))\<rparr>;
              (case vm_mmap env mm filp (a_size a) (xrp_private_offset (k_pool k) a) s of
                 (r, s) \<Rightarrow>
                   let vaddr = (case r of Inl e \<Rightarrow> - errno_code e | Inr addr \<Rightarrow> addr);
                       ia = ia\<lparr>ia_addr := ucast vaddr\<rparr>
                   in case kv_put_user env (k_mem (f_k s)) p (ioctl_alloc_bytes ia) of
                        (m, ok) \<Rightarrow>
                          let s = s\<lparr>f_k := (f_k s)\<lparr>k_mem := m\<rparr>\<rparr> in
                          if ok then Some (None, s)
                          else do { (e, s) \<leftarrow> vm_munmap mm vaddr (ia_size ia) s; Some (Some EFAULT, s) })
            })"

definition xrp_ioctl_free :: "kenv \<Rightarrow> mm_env \<Rightarrow> nat \<Rightarrow> u32 \<Rightarrow> fst \<Rightarrow> (errno option \<times> fst) option" where
  "xrp_ioctl_free env mm filp p s =
     (case kv_get_user env (k_mem (f_k s)) p sizeof_ioctl_alloc of
        None \<Rightarrow> Some (Some EFAULT, s)
      | Some bs \<Rightarrow>
          let start = ucast (ia_addr (ioctl_alloc_of bs)) in
          case kv_find_vma env start of
            Some vma \<Rightarrow>
              if vm_file vma = Some filp \<and> vm_start vma \<le> start \<and> start < vm_end vma
              then vm_munmap mm (vm_start vma) (vm_end vma - vm_start vma) s
              else Some (Some EINVAL, s)
          | None \<Rightarrow> Some (Some EINVAL, s))"

text \<open>\<open>_IO('r', n)\<close>.\<close>

definition XRP_IOCTL_ALLOC :: u32 where
  "XRP_IOCTL_ALLOC = 0x7201"

definition XRP_IOCTL_FREE :: u32 where
  "XRP_IOCTL_FREE = 0x7202"

definition XRP_IOCTL_QUEUE :: u32 where
  "XRP_IOCTL_QUEUE = 0x7203"

definition XRP_IOCTL_QUEUE_NS :: u32 where
  "XRP_IOCTL_QUEUE_NS = 0x7204"

lemmas ioctl_defs = XRP_IOCTL_ALLOC_def XRP_IOCTL_FREE_def XRP_IOCTL_QUEUE_def XRP_IOCTL_QUEUE_NS_def

definition xvp_ioctl ::
  "kenv \<Rightarrow> mm_env \<Rightarrow> submit_env \<Rightarrow> xrp_request \<Rightarrow> nat \<Rightarrow> u32 \<Rightarrow> u32 \<Rightarrow> xvp \<times> fst \<Rightarrow> (errno option \<times> xvp \<times> fst) option" where
  "xvp_ioctl env mm se stack filp cmd arg xs =
     (case xs of (x, s) \<Rightarrow>
        if cmd = XRP_IOCTL_ALLOC then do { (e, s) \<leftarrow> xrp_ioctl_alloc env mm filp arg s; Some (e, x, s) }
        else if cmd = XRP_IOCTL_FREE then do { (e, s) \<leftarrow> xrp_ioctl_free env mm filp arg s; Some (e, x, s) }
        else if cmd = XRP_IOCTL_QUEUE \<or> cmd = XRP_IOCTL_QUEUE_NS then
          do { (e, x, k) \<leftarrow> xrp_ioctl_submit_sync env se filp stack arg x (f_k s); Some (e, x, s\<lparr>f_k := k\<rparr>) }
        else Some (Some EINVAL, x, s))"

subsection \<open>Opening and closing\<close>

text \<open>
  \<open>pm_runtime_get_sync\<close> counts a user even if it fails; its result is \<open>pm_ret\<close>.  Closing frees the structure of
  the file, and with it the list of the allocations that were never mapped.
\<close>

definition xvp_open :: "errno option \<Rightarrow> bool \<Rightarrow> bool \<Rightarrow> nat \<Rightarrow> fst \<Rightarrow> errno option \<times> fst" where
  "xvp_open pm_ret file_ok known_ok filp s =
     (let s = s\<lparr>f_pm := f_pm s + 1\<rparr> in
      case pm_ret of
        Some e \<Rightarrow> (Some e, s)
      | None \<Rightarrow>
          if \<not> file_ok then (Some ENOMEM, s\<lparr>f_pm := f_pm s - 1\<rparr>)
          else (None, s\<lparr>f_open := filp # f_open s, f_busy := (f_busy s)(filp := []),
                  f_k := (f_k s)\<lparr>k_known := xrp_add_known_file known_ok filp (k_known (f_k s))\<rparr>\<rparr>))"

definition xvp_close :: "nat \<Rightarrow> fst \<Rightarrow> fst" where
  "xvp_close filp s =
     s\<lparr>f_k := (f_k s)\<lparr>k_known := xrp_remove_known_file filp (k_known (f_k s))\<rparr>,
       f_open := remove1 filp (f_open s), f_busy := (f_busy s)(filp := []), f_pm := f_pm s - 1\<rparr>"

subsection \<open>Specification\<close>

text \<open>
  The references to allocations that files and areas hold, and those that are \<open>lost\<close>: nothing in the system
  refers to the allocation any more, and nothing will release it.
\<close>

definition file_refs :: "fst \<Rightarrow> nat list \<Rightarrow> nat \<Rightarrow> nat" where
  "file_refs s lost i =
     (\<Sum>f\<in>set (f_open s). count_list (map fst (f_busy s f)) i) + count_list (map vm_private_data (f_areas s)) i + count_list lost i"

definition finv :: "fst \<Rightarrow> nat list \<Rightarrow> xrp_mapping list \<Rightarrow> bool" where
  "finv s lost ms \<longleftrightarrow> kinv (f_k s) (file_refs s lost) (\<lambda>_. 0) ms \<and> distinct (f_open s)"

definition file_sound :: "fst \<Rightarrow> bool" where
  "file_sound s \<longleftrightarrow> (\<exists>lost ms. finv s lost ms)"

lemma file_soundI [intro]: "finv s lost ms \<Longrightarrow> file_sound s"
  by (auto simp: file_sound_def)

text \<open>What the driver relies on of the memory management.\<close>

definition mm_law :: "mm_env \<Rightarrow> bool" where
  "mm_law mm \<longleftrightarrow> (\<forall>areas start len e gone kept. mm_unmap mm areas start len = (e, gone, kept) \<longrightarrow>
     mset areas = mset gone + mset kept)"

subsection \<open>References\<close>

lemma kinv_put:
  assumes "kinv st rf pf ms" and "0 < rf i"
  obtains st' where "k_put st i = Some st'" "kinv st' (rf(i := rf i - 1)) pf ms" "k_known st' = k_known st" "k_mem st' = k_mem st"
proof -
  define rc where "rc = (\<lambda>i. rf i + (\<Sum>m\<leftarrow>ms. count_list (map_refs m) i))"
  have "refs_ok st rc" "0 < rc i" using assms by (simp_all add: kinv_def rc_def)
  from k_put_ok [OF this] obtain p al where k: "k_put st i = Some (st\<lparr>k_pool := p, k_allocs := al\<rparr>)"
    "refs_ok (st\<lparr>k_pool := p, k_allocs := al\<rparr>) (rc(i := rc i - 1))" by blast
  have "rc(i := rc i - 1) = (\<lambda>j. (rf(i := rf i - 1)) j + (\<Sum>m\<leftarrow>ms. count_list (map_refs m) j))"
    using assms(2) by (auto simp: rc_def fun_eq_iff)
  with k assms(1) show ?thesis by (intro that [of "st\<lparr>k_pool := p, k_allocs := al\<rparr>"]) (simp_all add: kinv_def)
qed

lemma kinv_get:
  assumes "kinv st rf pf ms" and "0 < rf i" and "rf i + (\<Sum>m\<leftarrow>ms. count_list (map_refs m) i) + 1 < 2 ^ 32"
  obtains st' where "k_get st i = Some st'" "kinv st' (rf(i := rf i + 1)) pf ms" "k_known st' = k_known st"
proof -
  define rc where "rc = (\<lambda>i. rf i + (\<Sum>m\<leftarrow>ms. count_list (map_refs m) i))"
  have "refs_ok st rc" "0 < rc i" "rc i + 1 < 2 ^ 32" using assms by (simp_all add: kinv_def rc_def)
  from k_get_ok [OF this] obtain al where k: "k_get st i = Some (st\<lparr>k_allocs := al\<rparr>)"
    "refs_ok (st\<lparr>k_allocs := al\<rparr>) (rc(i := rc i + 1))" by blast
  have "rc(i := rc i + 1) = (\<lambda>j. (rf(i := rf i + 1)) j + (\<Sum>m\<leftarrow>ms. count_list (map_refs m) j))"
    by (auto simp: rc_def fun_eq_iff)
  with k assms(1) show ?thesis by (intro that [of "st\<lparr>k_allocs := al\<rparr>"]) (simp_all add: kinv_def)
qed

lemma kinv_allocate:
  assumes "kinv st rf pf ms" and "request_fits sz al" and "kv_cur_ok env" and "k_allocate env st sz al = (Inr i, st')"
  obtains a where "k_allocs st' i = Some a" "kinv st' (rf(i := rf i + 1)) pf ms" "k_known st' = k_known st"
proof -
  define rc where "rc = (\<lambda>i. rf i + (\<Sum>m\<leftarrow>ms. count_list (map_refs m) i))"
  have "refs_ok st rc" using assms(1) by (simp add: kinv_def rc_def)
  from k_allocate_ok [OF this assms(2-4)] obtain p a where k: "st' = st\<lparr>k_pool := p, k_allocs := (k_allocs st)(i \<mapsto> a), k_next := i + 1\<rparr>"
    "rc i = 0" "refs_ok st' (rc(i := 1))" by blast
  then have "rc(i := 1) = (\<lambda>j. (rf(i := rf i + 1)) j + (\<Sum>m\<leftarrow>ms. count_list (map_refs m) j))"
    by (auto simp: rc_def fun_eq_iff)
  with k assms(1) show ?thesis by (intro that [of a]) (simp_all add: kinv_def)
qed

lemma dequeue_cases:
  assumes "xrp_allocation_dequeue paddr sz busy = (r, busy')"
  shows "case r of None \<Rightarrow> busy' = busy | Some x \<Rightarrow> mset busy = add_mset x (mset busy')"
  using assms by (induction paddr sz busy arbitrary: r busy' rule: xrp_allocation_dequeue.induct)
    (auto split: if_splits prod.splits option.splits)

lemma count_list_mset: "mset xs = mset ys \<Longrightarrow> count_list xs i = count_list ys i"
  by (metis count_mset)

text \<open>Changing the list of one open file.\<close>

lemma file_refs_busy:
  assumes "filp \<in> set (f_open s)"
  shows "file_refs (s\<lparr>f_busy := (f_busy s)(filp := b)\<rparr>) lost i + count_list (map fst (f_busy s filp)) i =
    file_refs s lost i + count_list (map fst b) i"
proof -
  let ?c = "\<lambda>b. count_list (map fst b) i"
  have "(\<Sum>f\<in>set (f_open s). ?c (((f_busy s)(filp := b)) f)) = ?c b + (\<Sum>f\<in>set (f_open s) - {filp}. ?c (f_busy s f))"
    using assms by (subst sum.remove [of _ filp]) (auto intro: sum.cong)
  moreover have "(\<Sum>f\<in>set (f_open s). ?c (f_busy s f)) = ?c (f_busy s filp) + (\<Sum>f\<in>set (f_open s) - {filp}. ?c (f_busy s f))"
    using assms by (subst sum.remove [of _ filp]) auto
  ultimately show ?thesis by (simp add: file_refs_def)
qed

lemma file_refs_frame [simp]:
  "file_refs (s\<lparr>f_k := k\<rparr>) lost = file_refs s lost" "file_refs (s\<lparr>f_pm := n\<rparr>) lost = file_refs s lost"
  by (simp_all add: file_refs_def fun_eq_iff)

subsection \<open>The operations keep the books\<close>

lemma finv_refs:
  assumes "finv s lost ms" and "\<And>i. file_refs s' lost' i = file_refs s lost i" and "f_k s' = f_k s" and "f_open s' = f_open s"
  shows "finv s' lost' ms"
proof -
  have "file_refs s' lost' = file_refs s lost" using assms(2) by (simp add: fun_eq_iff)
  with assms show ?thesis by (simp add: finv_def)
qed

lemma map_area_ok:
  assumes "finv s lost ms" and "filp \<in> set (f_open s)" and "map_area env mm filp vma s = (e, s')"
  shows "(\<exists>lost'. finv s' lost' ms) \<and> f_k s' = f_k s \<and> f_open s' = f_open s"
proof -
  obtain r b where d: "xrp_allocation_dequeue (push_bit 12 (vm_pgoff vma + drop_bit 12 (kv_file_pmem env filp)))
      (vm_end vma - vm_start vma) (f_busy s filp) = (r, b)" by fastforce
  show ?thesis
  proof (cases r)
    case None
    then show ?thesis using assms d by (auto simp: map_area_def xvp_mmap_def Let_def)
  next
    case (Some x)
    obtain n a where x: "x = (n, a)" by fastforce
    have "mset (f_busy s filp) = add_mset (n, a) (mset b)" using dequeue_cases [OF d] Some x by simp
    then have "mset (map fst (f_busy s filp)) = mset (n # map fst b)" by simp
    from count_list_mset [OF this] have c: "count_list (map fst (f_busy s filp)) i = count_list (map fst b) i + (if n = i then 1 else 0)" for i
      by auto
    let ?s = "s\<lparr>f_busy := (f_busy s)(filp := b)\<rparr>"
    have fr: "file_refs ?s lost i + (if n = i then 1 else 0) = file_refs s lost i" for i
      using file_refs_busy [OF assms(2), of b lost i] c [of i] by auto
    show ?thesis
    proof (cases "mm_remap mm vma")
      case None
      then have s': "s' = ?s\<lparr>f_areas := vma\<lparr>vm_private_data := n\<rparr> # f_areas s\<rparr>"
        using assms(3) d Some x by (simp add: map_area_def xvp_mmap_def Let_def)
      have "file_refs s' lost i = file_refs s lost i" for i using fr [of i] by (auto simp: s' file_refs_def split: if_splits)
      then show ?thesis using finv_refs [OF assms(1), of s' lost] by (auto simp: s')
    next
      case e: (Some y)
      then have s': "s' = ?s" using assms(3) d Some x by (simp add: map_area_def xvp_mmap_def Let_def)
      have "file_refs s' (n # lost) i = file_refs s lost i" for i using fr [of i] by (auto simp: s' file_refs_def split: if_splits)
      then show ?thesis using finv_refs [OF assms(1), of s' "n # lost"] by (auto simp: s')
    qed
  qed
qed

lemma close_areas_ok:
  assumes "finv (s\<lparr>f_areas := gone @ f_areas s\<rparr>) lost ms"
  shows "\<exists>s'. close_areas gone s = Some s' \<and> finv s' lost ms \<and> f_open s' = f_open s \<and> f_busy s' = f_busy s \<and> f_areas s' = f_areas s \<and>
    k_known (f_k s') = k_known (f_k s)"
  using assms
proof (induction gone arbitrary: s)
  case (Cons v gone)
  let ?i = "vm_private_data v" and ?rf = "file_refs (s\<lparr>f_areas := (v # gone) @ f_areas s\<rparr>) lost"
  have rf: "?rf(?i := ?rf ?i - 1) = file_refs (s\<lparr>f_areas := gone @ f_areas s\<rparr>) lost" by (auto simp: file_refs_def fun_eq_iff)
  have "kinv (f_k s) ?rf (\<lambda>_. 0) ms" "0 < ?rf ?i" using Cons.prems by (simp_all add: finv_def file_refs_def)
  from kinv_put [OF this] obtain k where k: "k_put (f_k s) ?i = Some k"
    "kinv k (file_refs (s\<lparr>f_areas := gone @ f_areas s\<rparr>) lost) (\<lambda>_. 0) ms" "k_known k = k_known (f_k s)" unfolding rf by blast
  have "file_refs (s\<lparr>f_k := k, f_areas := gone @ f_areas s\<rparr>) lost = file_refs (s\<lparr>f_areas := gone @ f_areas s\<rparr>) lost"
    by (simp add: file_refs_def fun_eq_iff)
  then have "finv ((s\<lparr>f_k := k\<rparr>)\<lparr>f_areas := gone @ f_areas (s\<lparr>f_k := k\<rparr>)\<rparr>) lost ms"
    using k(2) Cons.prems by (simp add: finv_def)
  from Cons.IH [OF this] show ?case using k by (simp add: xvp_vm_close_def)
qed simp

lemma vm_munmap_ok:
  assumes "finv s lost ms" and "mm_law mm"
  shows "\<exists>e s'. vm_munmap mm start len s = Some (e, s') \<and> finv s' lost ms \<and> f_open s' = f_open s \<and> k_known (f_k s') = k_known (f_k s)"
proof -
  obtain e gone kept where u: "mm_unmap mm (f_areas s) start len = (e, gone, kept)" by (metis prod_cases3)
  then have "mset (f_areas s) = mset (gone @ kept)" using assms(2) by (simp add: mm_law_def)
  then have "mset (map vm_private_data (f_areas s)) = mset (map vm_private_data (gone @ kept))" unfolding mset_map by simp
  from count_list_mset [OF this] have "file_refs ((s\<lparr>f_areas := kept\<rparr>)\<lparr>f_areas := gone @ f_areas (s\<lparr>f_areas := kept\<rparr>)\<rparr>) lost i = file_refs s lost i" for i
    by (simp add: file_refs_def)
  from finv_refs [OF assms(1) this] have "finv ((s\<lparr>f_areas := kept\<rparr>)\<lparr>f_areas := gone @ f_areas (s\<lparr>f_areas := kept\<rparr>)\<rparr>) lost ms" by simp
  from close_areas_ok [OF this] u show ?thesis by (auto simp: vm_munmap_def)
qed

lemma vm_mmap_ok:
  assumes "finv s lost ms" and "filp \<in> set (f_open s)" and "vm_mmap env mm filp sz offset s = (r, s')"
  shows "(\<exists>lost'. finv s' lost' ms) \<and> f_k s' = f_k s \<and> f_open s' = f_open s"
  using assms map_area_ok [OF assms(1,2)]
  by (auto simp: vm_mmap_def split: option.splits prod.splits)

lemma finv_mem: "finv s lost ms \<Longrightarrow> finv (s\<lparr>f_k := (f_k s)\<lparr>k_mem := m\<rparr>\<rparr>) lost ms"
  by (simp add: finv_def)

lemma finv_allocated:
  assumes "finv s lost ms" and "filp \<in> set (f_open s)" and "request_fits sz al" and "kv_cur_ok env"
    and "k_allocate env (f_k s) sz al = (Inr i, k)"
  obtains a where "k_allocs k i = Some a" "k_known k = k_known (f_k s)"
    "finv (s\<lparr>f_k := k, f_busy := (f_busy s)(filp := (i, a) # f_busy s filp)\<rparr>) lost ms"
proof -
  have "kinv (f_k s) (file_refs s lost) (\<lambda>_. 0) ms" using assms(1) by (simp add: finv_def)
  from kinv_allocate [OF this assms(3-5)] obtain a where a: "k_allocs k i = Some a" "k_known k = k_known (f_k s)"
    "kinv k ((file_refs s lost)(i := file_refs s lost i + 1)) (\<lambda>_. 0) ms" by blast
  let ?s = "s\<lparr>f_busy := (f_busy s)(filp := (i, a) # f_busy s filp)\<rparr>"
  have "file_refs ?s lost = (file_refs s lost)(i := file_refs s lost i + 1)"
  proof
    fix j show "file_refs ?s lost j = ((file_refs s lost)(i := file_refs s lost i + 1)) j"
      using file_refs_busy [OF assms(2), of "(i, a) # f_busy s filp" lost j] by auto
  qed
  then have "finv (?s\<lparr>f_k := k\<rparr>) lost ms" using a(3) assms(1) by (simp only: finv_def file_refs_frame) simp
  moreover have "?s\<lparr>f_k := k\<rparr> = s\<lparr>f_k := k, f_busy := (f_busy s)(filp := (i, a) # f_busy s filp)\<rparr>" by simp
  ultimately show ?thesis using a by (intro that) simp_all
qed

lemma ioctl_alloc_ok:
  assumes "finv s lost ms" and "filp \<in> set (f_open s)" and "mm_law mm" and "kv_cur_ok env"
    and "\<And>bs. kv_get_user env (k_mem (f_k s)) p sizeof_ioctl_alloc = Some bs \<Longrightarrow>
      request_fits (ia_size (ioctl_alloc_of bs)) (ia_align (ioctl_alloc_of bs))"
  shows "\<exists>e s' lost'. xrp_ioctl_alloc env mm filp p s = Some (e, s') \<and> finv s' lost' ms \<and> f_open s' = f_open s \<and>
    k_known (f_k s') = k_known (f_k s)"
proof (cases "kv_get_user env (k_mem (f_k s)) p sizeof_ioctl_alloc")
  case None
  then show ?thesis using assms(1) by (auto simp: xrp_ioctl_alloc_def)
next
  case (Some bs)
  define ia where "ia = ioctl_alloc_of bs"
  obtain r k where al: "k_allocate env (f_k s) (ia_size ia) (ia_align ia) = (r, k)" by fastforce
  have fits: "request_fits (ia_size ia) (ia_align ia)" using assms(5) Some by (simp add: ia_def)
  show ?thesis
  proof (cases r)
    case (Inl e)
    have "refs_ok (f_k s) (\<lambda>i. file_refs s lost i + (\<Sum>m\<leftarrow>ms. count_list (map_refs m) i))" using assms(1) by (simp add: finv_def kinv_def)
    from k_allocate_err [OF this fits assms(4) al [unfolded Inl]] show ?thesis
      using Some al Inl assms(1) by (auto simp: xrp_ioctl_alloc_def ia_def)
  next
    case (Inr i)
    obtain a where a: "k_allocs k i = Some a" "k_known k = k_known (f_k s)"
      and inv: "finv (s\<lparr>f_k := k, f_busy := (f_busy s)(filp := (i, a) # f_busy s filp)\<rparr>) lost ms"
      by (rule finv_allocated [OF assms(1,2) fits assms(4) al [unfolded Inr]])
    let ?s = "s\<lparr>f_k := k, f_busy := (f_busy s)(filp := (i, a) # f_busy s filp)\<rparr>"
    obtain v s1 where mm: "vm_mmap env mm filp (a_size a) (xrp_private_offset (k_pool k) a) ?s = (v, s1)" by fastforce
    with vm_mmap_ok [OF inv _ mm] assms(2) obtain lost' where s1: "finv s1 lost' ms" "f_k s1 = k" "f_open s1 = f_open s" by auto
    define vaddr where "vaddr = (case v of Inl e \<Rightarrow> - errno_code e | Inr addr \<Rightarrow> addr)"
    obtain m ok where put: "kv_put_user env (k_mem k) p (ioctl_alloc_bytes (ia\<lparr>ia_addr := ucast vaddr\<rparr>)) = (m, ok)" by fastforce
    let ?s1 = "s1\<lparr>f_k := k\<lparr>k_mem := m\<rparr>\<rparr>"
    have s1': "finv ?s1 lost' ms" using finv_mem [OF s1(1), of m] s1(2) by simp
    have run: "xrp_ioctl_alloc env mm filp p s =
        (if ok then Some (None, ?s1) else do { (e, s) \<leftarrow> vm_munmap mm vaddr (ia_size ia) ?s1; Some (Some EFAULT, s) })"
      using Some al Inr a mm put s1(2)
      by (simp add: xrp_ioctl_alloc_def ia_def [symmetric] xrp_allocation_queue_def vaddr_def)
    from vm_munmap_ok [OF s1' assms(3), of vaddr "ia_size ia"] s1' show ?thesis
      using run s1(3) a(2) by (cases ok) auto
  qed
qed

lemma ioctl_free_ok:
  assumes "finv s lost ms" and "mm_law mm"
  shows "\<exists>e s'. xrp_ioctl_free env mm filp p s = Some (e, s') \<and> finv s' lost ms \<and> f_open s' = f_open s \<and>
    k_known (f_k s') = k_known (f_k s)"
  using assms(1) vm_munmap_ok [OF assms] by (auto simp: xrp_ioctl_free_def Let_def split: option.splits)

subsection \<open>Sequences of operations\<close>

text \<open>What processes and the kernel do with the device; \<open>Op_fork\<close> duplicates an area.\<close>

datatype file_op =
    Op_open "errno option" bool bool nat
  | Op_close nat
  | Op_ioctl kenv mm_env submit_env xrp_request nat u32 u32
  | Op_mmap kenv mm_env nat vma
  | Op_fork vma
  | Op_munmap mm_env u32 u32

fun file_step :: "file_op \<Rightarrow> xvp \<times> fst \<Rightarrow> (xvp \<times> fst) option" where
  "file_step (Op_open pm_ret file_ok known_ok filp) (x, s) = Some (x, snd (xvp_open pm_ret file_ok known_ok filp s))"
| "file_step (Op_close filp) (x, s) = Some (x, xvp_close filp s)"
| "file_step (Op_ioctl env mm se stack filp cmd arg) (x, s) = map_option snd (xvp_ioctl env mm se stack filp cmd arg (x, s))"
| "file_step (Op_mmap env mm filp vma) (x, s) = Some (x, snd (map_area env mm filp vma s))"
| "file_step (Op_fork vma) (x, s) = do { s \<leftarrow> xvp_vm_open vma s; Some (x, s\<lparr>f_areas := vma # f_areas s\<rparr>) }"
| "file_step (Op_munmap mm start len) (x, s) = do { (e, s) \<leftarrow> vm_munmap mm start len s; Some (x, s) }"

fun file_run :: "file_op list \<Rightarrow> xvp \<times> fst \<Rightarrow> (xvp \<times> fst) option" where
  "file_run [] xs = Some xs"
| "file_run (op # ops) xs = Option.bind (file_step op xs) (file_run ops)"

text \<open>
  When an operation is possible: the file is open (or not yet), the area exists, the sizes do not
  overflow, and no reference count is near its limit; the areas that the kernel finds for an address are those
  the driver has been told of.
\<close>

definition refs_below :: "fst \<Rightarrow> nat \<Rightarrow> bool" where
  "refs_below s n \<longleftrightarrow> (\<forall>i a. k_allocs (f_k s) i = Some a \<longrightarrow> unat (a_ref a) + n < 2 ^ 32) \<and> n < 2 ^ 32"

definition areas_seen :: "kenv \<Rightarrow> nat \<Rightarrow> fst \<Rightarrow> bool" where
  "areas_seen env filp s \<longleftrightarrow> (\<forall>addr v f. kv_find_vma env addr = Some v \<longrightarrow> vm_file v = Some f \<longrightarrow>
     f = filp \<or> xrp_is_known_file f (k_known (f_k s)) \<longrightarrow> v \<in> set (f_areas s))"

definition submit_ok :: "kenv \<Rightarrow> submit_env \<Rightarrow> xrp_request \<Rightarrow> nat \<Rightarrow> u32 \<Rightarrow> fst \<Rightarrow> bool" where
  "submit_ok env se stack filp p s \<longleftrightarrow>
     empty_request stack \<and> kv_buffer_mapping_ok env \<and> kv_cur_ok env \<and> gup_law env \<and> surroundings_ok se \<and> areas_seen env filp s \<and>
     (\<forall>bs. kv_get_user env (k_mem (f_k s)) p sizeof_ioctl_queue = Some bs \<longrightarrow>
        refs_below s (unat (q_buffer_size (ioctl_queue_of bs)) div sizeof_ioctl_buffer + 4) \<and>
        request_shareable env (ioctl_queue_of bs))"

fun op_ok :: "file_op \<Rightarrow> fst \<Rightarrow> bool" where
  "op_ok (Op_open pm_ret file_ok known_ok filp) s \<longleftrightarrow> filp \<notin> set (f_open s)"
| "op_ok (Op_close filp) s \<longleftrightarrow> filp \<in> set (f_open s)"
| "op_ok (Op_ioctl env mm se stack filp cmd arg) s \<longleftrightarrow> filp \<in> set (f_open s) \<and> mm_law mm \<and>
     (cmd = XRP_IOCTL_ALLOC \<longrightarrow> kv_cur_ok env \<and>
        (\<forall>bs. kv_get_user env (k_mem (f_k s)) arg sizeof_ioctl_alloc = Some bs \<longrightarrow>
           request_fits (ia_size (ioctl_alloc_of bs)) (ia_align (ioctl_alloc_of bs)))) \<and>
     (cmd = XRP_IOCTL_QUEUE \<or> cmd = XRP_IOCTL_QUEUE_NS \<longrightarrow> submit_ok env se stack filp arg s)"
| "op_ok (Op_mmap env mm filp vma) s \<longleftrightarrow> filp \<in> set (f_open s)"
| "op_ok (Op_fork vma) s \<longleftrightarrow> vma \<in> set (f_areas s) \<and> refs_below s 1"
| "op_ok (Op_munmap mm start len) s \<longleftrightarrow> mm_law mm"

fun ops_ok :: "file_op list \<Rightarrow> xvp \<times> fst \<Rightarrow> bool" where
  "ops_ok [] xs = True"
| "ops_ok (op # ops) xs \<longleftrightarrow> op_ok op (snd xs) \<and> (case file_step op xs of None \<Rightarrow> True | Some xs' \<Rightarrow> ops_ok ops xs')"

lemma refs_below_room:
  assumes "finv s lost ms" and "refs_below s n"
  shows "file_refs s lost i + (\<Sum>m\<leftarrow>ms. count_list (map_refs m) i) + n < 2 ^ 32"
proof -
  have e: "file_refs s lost i + (\<Sum>m\<leftarrow>ms. count_list (map_refs m) i) = refs_of (k_allocs (f_k s) i)"
    using assms(1) by (simp add: finv_def kinv_def refs_ok_def)
  show ?thesis unfolding e using assms(2) by (cases "k_allocs (f_k s) i") (auto simp: refs_below_def)
qed

lemma area_refs:
  assumes "v \<in> set (f_areas s)"
  shows "0 < file_refs s lost (vm_private_data v)"
proof -
  have "count_list (map vm_private_data (f_areas s)) (vm_private_data v) \<noteq> 0" using assms by (simp add: count_list_0_iff)
  then show ?thesis by (simp add: file_refs_def)
qed

lemma submit_step_ok:
  assumes "finv s lost ms" and "submit_ok env se stack filp p s"
  shows "\<exists>ret x' k ms'. xrp_ioctl_submit_sync env se filp stack p x (f_k s) = Some (ret, x', k) \<and> finv (s\<lparr>f_k := k\<rparr>) lost ms'"
proof -
  have k: "kinv (f_k s) (file_refs s lost) (\<lambda>_. 0) ms" using assms(1) by (simp add: finv_def)
  have sys: "system_ok env filp (k_known (f_k s)) (file_refs s lost)"
    using assms(2) area_refs by (auto simp: submit_ok_def system_ok_def areas_hold_def areas_seen_def)
  have room: "room (file_refs s lost) ms (unat (q_buffer_size (ioctl_queue_of bs)) div sizeof_ioctl_buffer) \<and>
      request_shareable env (ioctl_queue_of bs)" if "kv_get_user env (k_mem (f_k s)) p sizeof_ioctl_queue = Some bs" for bs
    using assms(2) that refs_below_room [OF assms(1)] unfolding submit_ok_def room_def by (metis add.assoc)
  have e: "empty_request stack" "kv_buffer_mapping_ok env" "surroundings_ok se" using assms(2) by (simp_all add: submit_ok_def)
  have "\<exists>ret x' k'. xrp_ioctl_submit_sync env se filp stack p x (f_k s) = Some (ret, x', k') \<and> k_known k' = k_known (f_k s) \<and>
    (kinv k' (file_refs s lost) (\<lambda>_. 0) ms \<or>
     ret \<noteq> None \<and> x_off x' \<and> \<not> x_off x \<and> (\<exists>leaked. kinv k' (file_refs s lost) (\<lambda>_. 0) (leaked @ ms)))"
    by (rule submit_keeps_books [OF k e(1,2) sys e(3)]) (rule room)
  then show ?thesis using assms(1) unfolding finv_def file_refs_frame by auto
qed

lemma kinv_known [simp]: "kinv (st\<lparr>k_known := kn\<rparr>) rf pf ms = kinv st rf pf ms"
  by (simp add: kinv_def refs_ok_def)

lemma open_ok:
  assumes "finv s lost ms" and "filp \<notin> set (f_open s)"
  shows "finv (snd (xvp_open pm_ret file_ok known_ok filp s)) lost ms"
proof -
  let ?s = "s\<lparr>f_pm := f_pm s + 1, f_open := filp # f_open s, f_busy := (f_busy s)(filp := []),
      f_k := (f_k s)\<lparr>k_known := xrp_add_known_file known_ok filp (k_known (f_k s))\<rparr>\<rparr>"
  have "(\<Sum>f\<in>set (f_open s). count_list (map fst (((f_busy s)(filp := [])) f)) i) = (\<Sum>f\<in>set (f_open s). count_list (map fst (f_busy s f)) i)" for i
    using assms(2) by (intro sum.cong) auto
  then have "file_refs ?s lost = file_refs s lost" using assms(2) by (simp add: file_refs_def fun_eq_iff)
  then have "finv ?s lost ms" using assms by (simp add: finv_def)
  then show ?thesis using assms(1) by (auto simp: xvp_open_def Let_def finv_def split: option.splits)
qed

lemma close_ok:
  assumes "finv s lost ms" and "filp \<in> set (f_open s)"
  shows "finv (xvp_close filp s) (map fst (f_busy s filp) @ lost) ms"
proof -
  have d: "set (remove1 filp (f_open s)) = set (f_open s) - {filp}" using assms(1) by (simp add: finv_def set_remove1_eq)
  have "(\<Sum>f\<in>set (f_open s) - {filp}. count_list (map fst (((f_busy s)(filp := [])) f)) i) + count_list (map fst (f_busy s filp)) i =
      (\<Sum>f\<in>set (f_open s). count_list (map fst (f_busy s f)) i)" for i
    using assms(2) by (subst sum.remove [of "set (f_open s)" filp]) (auto intro!: sum.cong)
  then have "file_refs (xvp_close filp s) (map fst (f_busy s filp) @ lost) = file_refs s lost"
    by (simp add: file_refs_def xvp_close_def d fun_eq_iff)
  then show ?thesis using assms(1) by (simp add: finv_def xvp_close_def)
qed

lemma fork_ok:
  assumes "finv s lost ms" and "v \<in> set (f_areas s)" and "refs_below s 1"
  shows "\<exists>s'. xvp_vm_open v s = Some s' \<and> finv (s'\<lparr>f_areas := v # f_areas s'\<rparr>) lost ms"
proof -
  let ?i = "vm_private_data v"
  have k: "kinv (f_k s) (file_refs s lost) (\<lambda>_. 0) ms" using assms(1) by (simp add: finv_def)
  from kinv_get [OF k area_refs [OF assms(2)] refs_below_room [OF assms(1,3)]] obtain k' where
    k': "k_get (f_k s) ?i = Some k'" "kinv k' ((file_refs s lost)(?i := file_refs s lost ?i + 1)) (\<lambda>_. 0) ms" by blast
  have "file_refs (s\<lparr>f_k := k', f_areas := v # f_areas s\<rparr>) lost = (file_refs s lost)(?i := file_refs s lost ?i + 1)"
    by (auto simp: file_refs_def fun_eq_iff)
  then show ?thesis using k' assms(1) by (simp add: xvp_vm_open_def finv_def)
qed

lemma ioctl_step_ok:
  assumes "finv s lost ms" and "op_ok (Op_ioctl env mm se stack filp cmd arg) s"
  shows "\<exists>e x' s'. xvp_ioctl env mm se stack filp cmd arg (x, s) = Some (e, x', s') \<and> file_sound s'"
proof -
  consider "cmd = XRP_IOCTL_ALLOC" | "cmd = XRP_IOCTL_FREE" | "cmd = XRP_IOCTL_QUEUE \<or> cmd = XRP_IOCTL_QUEUE_NS"
    | "cmd \<noteq> XRP_IOCTL_ALLOC" "cmd \<noteq> XRP_IOCTL_FREE" "cmd \<noteq> XRP_IOCTL_QUEUE" "cmd \<noteq> XRP_IOCTL_QUEUE_NS" by blast
  then show ?thesis
  proof cases
    case 1
    then show ?thesis using ioctl_alloc_ok [OF assms(1), of filp mm env arg] assms(2) by (auto simp: xvp_ioctl_def)
  next
    case 2
    then show ?thesis using ioctl_free_ok [OF assms(1), of mm env filp arg] assms(2) by (auto simp: xvp_ioctl_def ioctl_defs)
  next
    case 3
    then have "cmd \<noteq> XRP_IOCTL_ALLOC" "cmd \<noteq> XRP_IOCTL_FREE" by (auto simp: ioctl_defs)
    moreover have "submit_ok env se stack filp arg s" using 3 assms(2) by auto
    ultimately show ?thesis using 3 submit_step_ok [OF assms(1), of env se stack filp arg x] by (auto simp: xvp_ioctl_def)
  next
    case 4
    then show ?thesis using assms(1) by (auto simp: xvp_ioctl_def)
  qed
qed

lemma file_step_ok:
  assumes "finv s lost ms" and "op_ok op s"
  shows "\<exists>x' s'. file_step op (x, s) = Some (x', s') \<and> file_sound s'"
proof (cases op)
  case (Op_open pm_ret file_ok known_ok filp)
  then show ?thesis using file_soundI [OF open_ok [OF assms(1)]] assms(2) by auto
next
  case (Op_close filp)
  then show ?thesis using file_soundI [OF close_ok [OF assms(1)]] assms(2) by auto
next
  case (Op_ioctl env mm se stack filp cmd arg)
  from ioctl_step_ok [OF assms(1) assms(2) [unfolded Op_ioctl], of x] obtain e x' s' where
    "xvp_ioctl env mm se stack filp cmd arg (x, s) = Some (e, x', s')" "file_sound s'" by blast
  then show ?thesis by (simp add: Op_ioctl)
next
  case (Op_mmap env mm filp vma)
  obtain e s' where "map_area env mm filp vma s = (e, s')" by fastforce
  moreover from map_area_ok [OF assms(1) _ this] assms(2) obtain lost' where "finv s' lost' ms" by (auto simp: Op_mmap)
  ultimately show ?thesis using file_soundI by (simp add: Op_mmap)
next
  case (Op_fork v)
  then obtain s' where "xvp_vm_open v s = Some s'" "finv (s'\<lparr>f_areas := v # f_areas s'\<rparr>) lost ms"
    using fork_ok [OF assms(1), of v] assms(2) by auto
  then show ?thesis using file_soundI by (simp add: Op_fork)
next
  case (Op_munmap mm start len)
  with vm_munmap_ok [OF assms(1), of mm start len] assms(2) obtain e s' where
    "vm_munmap mm start len s = Some (e, s')" "finv s' lost ms" by auto
  then show ?thesis using file_soundI by (simp add: Op_munmap)
qed

lemma file_run_ok:
  assumes "file_sound s" and "ops_ok ops (x, s)"
  shows "\<exists>x' s'. file_run ops (x, s) = Some (x', s') \<and> file_sound s'"
  using assms
proof (induction ops arbitrary: x s)
  case (Cons op ops)
  from Cons.prems(1) obtain lost ms where "finv s lost ms" unfolding file_sound_def by blast
  from file_step_ok [OF this, of op x] Cons.prems(2) obtain x' s' where "file_step op (x, s) = Some (x', s')" "file_sound s'" by auto
  then show ?case using Cons.IH [of s' x'] Cons.prems(2) by simp
qed auto

text \<open>Live allocations are apart from the free memory and from each other.\<close>

lemma live_member: "f i = Some a \<Longrightarrow> i < n \<Longrightarrow> a \<in> set (live_of f n)"
  by (auto simp: live_of_def List.map_filter_def intro!: image_eqI [of _ _ i])

lemma live_split:
  assumes "f i = Some a" and "f j = Some b" and "i < j" and "j < n"
  shows "\<exists>xs ys zs. live_of f n = xs @ a # ys @ b # zs"
proof -
  have "[0..<n] = [0..<i] @ i # [Suc i..<j] @ j # [Suc j..<n]"
    using assms(3,4) upt_add_eq_append [of 0 i "n - i"] upt_add_eq_append [of "Suc i" j "n - j"]
    by (simp add: upt_conv_Cons)
  then show ?thesis using assms(1,2) unfolding live_of_def by (simp add: map_filter_append map_filter_simps) blast
qed

lemma live_apart:
  assumes "refs_ok st rc" and "k_allocs st i = Some a"
  shows "bytes a \<inter> pool_free (k_pool st) = {}"
    and "k_allocs st j = Some b \<Longrightarrow> i \<noteq> j \<Longrightarrow> bytes a \<inter> bytes b = {}"
proof -
  have t: "tiles (pool_free (k_pool st)) (pool_span (k_pool st)) (live_of (k_allocs st) (k_next st))"
    using assms(1) by (simp add: refs_ok_def accounted_def)
  have below: "k < k_next st" if "k_allocs st k = Some c" for k c
    using assms(1) that by (auto simp: refs_ok_def not_le [symmetric])
  show "bytes a \<inter> pool_free (k_pool st) = {}"
    using t live_member [of "k_allocs st", OF assms(2) below [OF assms(2)]] by (auto simp: tiles_def)
  show "bytes a \<inter> bytes b = {}" if b: "k_allocs st j = Some b" and "i \<noteq> j"
  proof (cases "i < j")
    case True
    from live_split [of "k_allocs st", OF assms(2) b True below [OF b]] t show ?thesis
      by (auto simp: tiles_def sorted_wrt_append)
  next
    case False
    then have "j < i" using \<open>i \<noteq> j\<close> by simp
    from live_split [of "k_allocs st", OF b assms(2) this below [OF assms(2)]] t show ?thesis
      by (auto simp: tiles_def sorted_wrt_append)
  qed
qed

lemma sound_areas:
  assumes "file_sound s" and "v \<in> set (f_areas s)"
  obtains a where "k_allocs (f_k s) (vm_private_data v) = Some a" "bytes a \<inter> pool_free (k_pool (f_k s)) = {}"
proof -
  obtain lost ms where f: "finv s lost ms" using assms(1) unfolding file_sound_def by blast
  define rc where "rc = (\<lambda>i. file_refs s lost i + (\<Sum>m\<leftarrow>ms. count_list (map_refs m) i))"
  have r: "refs_ok (f_k s) rc" using f by (simp add: finv_def kinv_def rc_def)
  moreover have "0 < rc (vm_private_data v)" using area_refs [OF assms(2)] by (simp add: rc_def)
  ultimately obtain a where "k_allocs (f_k s) (vm_private_data v) = Some a" using refs_okD by blast
  then show ?thesis using live_apart(1) [OF r] that by blast
qed

subsection \<open>Properties\<close>


text \<open>A process opens the device, allocates a page and forks.\<close>

definition sample_fst :: fst where
  "sample_fst = \<lparr>f_k = sample_kst, f_open = [], f_busy = \<lambda>_. [], f_areas = [], f_pm = 0\<rparr>"

definition page_request :: "u8 list" where
  "page_request = [0, 0x10, 0, 0] @ replicate 12 0"

definition alloc_env :: kenv where
  "alloc_env = (sample_env False)\<lparr>kv_get_user := \<lambda>m a n. Some page_request, kv_file_pmem := \<lambda>_. 0x100000\<rparr>"

definition sample_mm :: "u32 option \<Rightarrow> mm_env" where
  "sample_mm place = \<lparr>mm_place = \<lambda>areas sz. place, mm_remap = \<lambda>v. None,
     mm_unmap = \<lambda>areas start len. (None, filter (\<lambda>v. vm_start v = start) areas, filter (\<lambda>v. vm_start v \<noteq> start) areas)\<rparr>"

definition sample_area :: vma where
  "sample_area = \<lparr>vm_start = 0x40000000, vm_end = 0x40001000, vm_file = Some 5, vm_pgoff = 0, vm_private_data = 0, vm_pfnmap = True\<rparr>"

definition sample_ops :: "file_op list" where
  "sample_ops = [Op_open None True True 5, Op_ioctl alloc_env (sample_mm (Some 0x40000000)) silent_dsp sample_stack 5 XRP_IOCTL_ALLOC 0x7000,
     Op_fork sample_area]"

definition sample_page :: "u32 \<Rightarrow> xrp_allocation" where
  "sample_page r = \<lparr>a_start = 0x100000, a_size = 0x1000, a_ref = r\<rparr>"

definition sample_page_kst :: "mem \<Rightarrow> nat list \<Rightarrow> u32 \<Rightarrow> kst" where
  "sample_page_kst m kn r = sample_kst\<lparr>k_mem := m, k_known := kn, k_pool := \<lparr>p_start = 0x100000, p_size = 0x4000,
       free_list = [\<lparr>a_start = 0x101000, a_size = 0x3000, a_ref = 0\<rparr>]\<rparr>, k_allocs := [0 \<mapsto> sample_page r], k_next := 1\<rparr>"

lemma sample_ioctl_alloc_of: "ioctl_alloc_of page_request = \<lparr>ia_size = 0x1000, ia_align = 0, ia_addr = 0\<rparr>"
  by code_simp

lemma sample_allocate:
  "k_allocate alloc_env (sample_kst\<lparr>k_known := kn\<rparr>) 0x1000 0 = (Inr 0, sample_page_kst (k_mem sample_kst) kn 1)"
  by (simp add: k_allocate_def xrp_private_alloc_def carve_block_def ALIGN_def PAGE_SIZE_def Let_def alloc_env_def sample_env_def
      sample_page_kst_def sample_page_def sample_kst_def)

lemma sample_vm_mmap:
  "f_areas s = [] \<Longrightarrow> f_busy s 5 = [(0, sample_page 1)] \<Longrightarrow>
   vm_mmap alloc_env (sample_mm (Some 0x40000000)) 5 0x1000 0 s = (Inr 0x40000000, s\<lparr>f_busy := (f_busy s)(5 := []), f_areas := [sample_area]\<rparr>)"
  by (simp add: vm_mmap_def map_area_def xvp_mmap_def Let_def alloc_env_def sample_mm_def sample_page_def sample_area_def ALIGN_def PAGE_SIZE_def)

lemma alloc_env_user [simp]:
  "kv_get_user alloc_env m a n = Some page_request" "kv_put_user alloc_env m a b = (write_bytes m a b, True)"
  by (simp_all add: alloc_env_def sample_env_def)

definition opened_fst :: fst where
  "opened_fst = \<lparr>f_k = sample_kst\<lparr>k_known := [5]\<rparr>, f_open = [5], f_busy = \<lambda>_. [], f_areas = [], f_pm = 1\<rparr>"

lemma sample_ioctl_alloc:
  "\<exists>m. xrp_ioctl_alloc alloc_env (sample_mm (Some 0x40000000)) 5 0x7000 opened_fst =
     Some (None, opened_fst\<lparr>f_k := sample_page_kst m [5] 1, f_areas := [sample_area]\<rparr>)"
proof -
  have k: "k_allocs (sample_page_kst m kn r) 0 = Some (sample_page r)" "xrp_private_offset (k_pool (sample_page_kst m kn r)) (sample_page r) = 0"
    "(sample_page_kst m kn r)\<lparr>k_mem := m'\<rparr> = sample_page_kst m' kn r" "a_size (sample_page r) = 0x1000" for m m' kn r
    by (simp_all add: sample_page_kst_def sample_page_def xrp_private_offset_def)
  show ?thesis
    using sample_allocate [of "[5]"]
    by (simp add: xrp_ioctl_alloc_def sample_ioctl_alloc_of opened_fst_def xrp_allocation_queue_def k sample_vm_mmap fun_upd_def)
      (auto simp: fun_eq_iff)
qed

lemma sample_file_run:
  "\<exists>m. file_run sample_ops (sample_xvp, sample_fst) =
     Some (sample_xvp, opened_fst\<lparr>f_k := sample_page_kst m [5] 2, f_areas := [sample_area, sample_area]\<rparr>) \<and>
   ops_ok sample_ops (sample_xvp, sample_fst)"
proof -
  obtain m where al: "xrp_ioctl_alloc alloc_env (sample_mm (Some 0x40000000)) 5 0x7000 opened_fst =
     Some (None, opened_fst\<lparr>f_k := sample_page_kst m [5] 1, f_areas := [sample_area]\<rparr>)" using sample_ioctl_alloc by blast
  let ?s = "opened_fst\<lparr>f_k := sample_page_kst m [5] 1, f_areas := [sample_area]\<rparr>"
  have o: "snd (xvp_open None True True 5 sample_fst) = opened_fst"
    by (simp add: xvp_open_def sample_fst_def opened_fst_def xrp_add_known_file_def sample_kst_def fun_eq_iff)
  have f: "xvp_vm_open sample_area ?s = Some (?s\<lparr>f_k := sample_page_kst m [5] 2\<rparr>)"
    by (simp add: xvp_vm_open_def k_get_def sample_page_kst_def sample_page_def sample_area_def xrp_allocation_get_def)
  have law: "mm_law (sample_mm place)" for place
    using multiset_partition by (auto simp: mm_law_def sample_mm_def)
  have "op_ok (Op_ioctl alloc_env (sample_mm (Some 0x40000000)) silent_dsp sample_stack 5 XRP_IOCTL_ALLOC 0x7000) opened_fst"
    using law by (simp add: opened_fst_def alloc_env_def sample_env_def ioctl_defs sample_ioctl_alloc_of
        request_fits_def eff_size_def eff_align_def round_up_def)
  moreover have "refs_below ?s 1" by (simp add: refs_below_def sample_page_kst_def sample_page_def)
  ultimately show ?thesis
    using al o f by (intro exI [of _ m]) (simp add: sample_ops_def xvp_ioctl_def sample_fst_def)
qed


text \<open>
  C36: An allocation that cannot be mapped is lost.  If the kernel finds no place for the area, \<open>xrp_ioctl_alloc\<close>
  still reports success, with an error code as the address; and when the file is closed the allocation stays,
  although neither a file nor an area refers to it any more.
\<close>

theorem unmapped_allocation_leaks:
  assumes "kv_get_user env (k_mem (f_k s)) p sizeof_ioctl_alloc = Some bs" and "ia = ioctl_alloc_of bs"
    and "k_allocate env (f_k s) (ia_size ia) (ia_align ia) = (Inr i, k)" and "mm_place mm (f_areas s) = (\<lambda>_. None)"
    and "\<And>m b. snd (kv_put_user env m p b)" and "i \<notin> vm_private_data ` set (f_areas s)"
  shows "\<exists>s' a. xrp_ioctl_alloc env mm filp p s = Some (None, s') \<and> (i, a) \<in> set (f_busy s' filp) \<and>
    k_allocs (f_k (xvp_close filp s')) i = Some a \<and> f_busy (xvp_close filp s') filp = [] \<and>
    i \<notin> vm_private_data ` set (f_areas (xvp_close filp s'))"
proof -
  obtain a where a: "k_allocs k i = Some a"
    using assms(3) by (auto simp: k_allocate_def split: prod.splits sum.splits)
  let ?s = "s\<lparr>f_k := k, f_busy := (f_busy s)(filp := (i, a) # f_busy s filp)\<rparr>"
  have mm: "vm_mmap env mm filp (a_size a) (xrp_private_offset (k_pool k) a) ?s = (Inl ENOMEM, ?s)"
    using assms(4) by (simp add: vm_mmap_def)
  obtain m ok where put: "kv_put_user env (k_mem k) p (ioctl_alloc_bytes (ia\<lparr>ia_addr := ucast (- errno_code ENOMEM)\<rparr>)) = (m, ok)"
    by fastforce
  with assms(5) have ok by (metis snd_conv)
  have "xrp_ioctl_alloc env mm filp p s = Some (None, ?s\<lparr>f_k := k\<lparr>k_mem := m\<rparr>\<rparr>)"
    using assms(1,3) a mm put \<open>ok\<close> by (simp add: xrp_ioctl_alloc_def assms(2) [symmetric] xrp_allocation_queue_def)
  then show ?thesis using a assms(6) by (intro exI [of _ "?s\<lparr>f_k := k\<lparr>k_mem := m\<rparr>\<rparr>"] exI [of _ a]) (simp add: xvp_close_def)
qed

theorem unmapped_allocation_leaks_witness:
  "\<exists>s' a. xrp_ioctl_alloc alloc_env (sample_mm None) 5 0x7000 opened_fst = Some (None, s') \<and>
     k_allocs (f_k (xvp_close 5 s')) 0 = Some a \<and> f_busy (xvp_close 5 s') 5 = []"
proof -
  have "k_allocate alloc_env (f_k opened_fst) (ia_size (ioctl_alloc_of page_request)) (ia_align (ioctl_alloc_of page_request)) =
      (Inr 0, sample_page_kst (k_mem sample_kst) [5] 1)"
    using sample_allocate [of "[5]"] by (simp add: opened_fst_def sample_ioctl_alloc_of)
  moreover have "mm_place (sample_mm None) (f_areas opened_fst) = (\<lambda>_. None)" by (simp add: sample_mm_def fun_eq_iff)
  moreover have "0 \<notin> vm_private_data ` set (f_areas opened_fst)" by (simp add: opened_fst_def)
  ultimately show ?thesis
    using unmapped_allocation_leaks [of alloc_env opened_fst "0x7000" page_request "ioctl_alloc_of page_request" 0
        "sample_page_kst (k_mem sample_kst) [5] 1" "sample_mm None" 5] by auto
qed

end
