(* ===== verification/XRP_Host_Native.thy ===== *)
theory XRP_Host_Native
  imports XRP_Kernel_Request
begin

text \<open>
  The host library on Linux, \<^verbatim>\<open>xrp-linux-native/xrp_linux_native.c\<close>: devices, buffers, groups of buffers, queues with
  their worker thread, events, and the submission of commands.

  Objects are on the heap of the process.  All of them start with a reference count; \<open>h_ref\<close> is the count at
  an address, and \<open>None\<close> says that there is no object (any more), so that the use of a released object, like
  that of a null pointer, is \<open>None\<close> for the operation.  Requests are on the heap as well and are linked by their
  \<open>next\<close> pointers.  Reference counts are natural numbers: to wrap around they would need more references than
  there are addresses.  The count of mappings of a buffer is a word, because unmapping may take it below zero.
  What the system answers to a call (\<open>calloc\<close>, \<open>open\<close>, \<open>ioctl\<close>, ...) is an argument.
\<close>

subsection \<open>Objects\<close>

record xrp_device =
  d_fd :: nat

datatype buffer_type = XRP_BUFFER_TYPE_HOST | XRP_BUFFER_TYPE_DEVICE

record xrp_buffer =
  b_device :: "nat option"
  b_type :: buffer_type
  b_ptr :: u32
  b_size :: u32
  b_map_count :: u32
  b_map_flags :: u32

record xrp_buffer_group =
  g_capacity :: nat
  g_buffer :: "(nat \<times> u32) list"

record xrp_request =
  r_next :: "nat option"
  r_in_data :: u32
  r_out_data :: u32
  r_in_data_size :: u32
  r_out_data_size :: u32
  r_buffer_group :: "nat option"
  r_event :: "nat option"

record xrp_queue =
  qu_device :: nat
  qu_use_nsid :: bool
  qu_nsid :: "u8 list"
  qu_head :: "nat option"
  qu_tail :: "nat option"
  qu_exit :: bool

record xrp_event =
  e_queue :: nat
  e_status :: xrp_status

record host =
  h_ref :: "nat \<Rightarrow> nat option"
  h_dev :: "nat \<Rightarrow> xrp_device"
  h_buf :: "nat \<Rightarrow> xrp_buffer"
  h_grp :: "nat \<Rightarrow> xrp_buffer_group"
  h_que :: "nat \<Rightarrow> xrp_queue"
  h_evt :: "nat \<Rightarrow> xrp_event"
  h_rq :: "nat \<Rightarrow> xrp_request option"
  h_next :: nat
  h_mem :: mem
  h_sync_exit :: "nat \<Rightarrow> bool"

text \<open>
  \<open>h_next\<close> is the next address that an allocation returns, \<open>h_mem\<close> are the bytes of the process that commands
  work on, and \<open>h_sync_exit\<close> is the variable \<open>exit\<close> on the stack of the worker of a queue.
\<close>

definition live :: "host \<Rightarrow> nat \<Rightarrow> bool" where
  "live h a \<longleftrightarrow> h_ref h a \<noteq> None"

subsection \<open>Reference counts\<close>

definition alloc_refcounted :: "bool \<Rightarrow> host \<Rightarrow> nat option \<times> host" where
  "alloc_refcounted calloc_ok h =
     (if calloc_ok then (Some (h_next h), h\<lparr>h_ref := (h_ref h)(h_next h \<mapsto> 1), h_next := h_next h + 1\<rparr>) else (None, h))"

definition retain_refcounted :: "nat option \<Rightarrow> host \<Rightarrow> (xrp_status \<times> host) option" where
  "retain_refcounted buf h =
     (case buf of
        None \<Rightarrow> Some (XRP_STATUS_FAILURE, h)
      | Some a \<Rightarrow> do { c \<leftarrow> h_ref h a; Some (XRP_STATUS_SUCCESS, h\<lparr>h_ref := (h_ref h)(a \<mapsto> c + 1)\<rparr>) })"

definition release_refcounted :: "nat option \<Rightarrow> host \<Rightarrow> (xrp_status \<times> host) option" where
  "release_refcounted buf h =
     (case buf of
        None \<Rightarrow> Some (XRP_STATUS_FAILURE, h)
      | Some a \<Rightarrow> do {
          c \<leftarrow> h_ref h a;
          Some (XRP_STATUS_SUCCESS, h\<lparr>h_ref := (h_ref h)(a := (if c - 1 = 0 then None else Some (c - 1)))\<rparr>)
        })"

definition last_refcount :: "nat option \<Rightarrow> host \<Rightarrow> bool option" where
  "last_refcount buf h = do { a \<leftarrow> buf; c \<leftarrow> h_ref h a; Some (c = 1) }"

subsection \<open>Devices\<close>

text \<open>\<open>fd\<close> is the result of \<open>open\<close>; if there is no memory for the device, the file stays open.\<close>

definition xrp_open_device :: "nat option \<Rightarrow> bool \<Rightarrow> host \<Rightarrow> nat option \<times> xrp_status \<times> host" where
  "xrp_open_device fd calloc_ok h =
     (case fd of
        None \<Rightarrow> (None, XRP_STATUS_FAILURE, h)
      | Some f \<Rightarrow>
          (case alloc_refcounted calloc_ok h of
             (None, h) \<Rightarrow> (None, XRP_STATUS_FAILURE, h)
           | (Some a, h) \<Rightarrow> (Some a, XRP_STATUS_SUCCESS, h\<lparr>h_dev := (h_dev h)(a := \<lparr>d_fd = f\<rparr>)\<rparr>)))"

definition xrp_retain_device :: "nat option \<Rightarrow> host \<Rightarrow> (xrp_status \<times> host) option" where
  "xrp_retain_device device h = retain_refcounted device h"

definition xrp_release_device :: "bool \<Rightarrow> nat option \<Rightarrow> host \<Rightarrow> (xrp_status \<times> host) option" where
  "xrp_release_device close_ok device h = do {
     l \<leftarrow> last_refcount device h;
     if l \<and> \<not> close_ok then Some (XRP_STATUS_FAILURE, h) else release_refcounted device h
   }"

subsection \<open>Buffers\<close>

text \<open>
  The answers of the system: whether \<open>close\<close> and \<open>XRP_IOCTL_FREE\<close> succeed, and what \<open>XRP_IOCTL_QUEUE\<close> does, given the
  file, the argument, the array of buffers and the name that the argument points to, and the memory.  The last two
  fields are the addresses of that array and of the name in a queue.
\<close>

record sys =
  s_close_ok :: bool
  s_free_ok :: "u32 \<Rightarrow> bool"
  s_queue :: "nat \<Rightarrow> xrp_ioctl_queue \<Rightarrow> xrp_ioctl_buffer list \<Rightarrow> u8 list \<Rightarrow> mem \<Rightarrow> bool \<times> mem"
  s_stack :: u32
  s_nsid :: "nat \<Rightarrow> u32"

text \<open>\<open>addr\<close> is the address that \<open>XRP_IOCTL_ALLOC\<close> returns for the size, if it succeeds.\<close>

definition xrp_create_buffer ::
  "sys \<Rightarrow> bool \<Rightarrow> (u32 \<Rightarrow> u32 option) \<Rightarrow> nat option \<Rightarrow> u32 \<Rightarrow> u32 option \<Rightarrow> host \<Rightarrow> (nat option \<times> xrp_status \<times> host) option" where
  "xrp_create_buffer sys calloc_ok addr device sz host_ptr h =
     (if host_ptr = None \<and> device = None then Some (None, XRP_STATUS_FAILURE, h)
      else case alloc_refcounted calloc_ok h of
             (None, h) \<Rightarrow> Some (None, XRP_STATUS_FAILURE, h)
           | (Some a, h) \<Rightarrow>
               (case host_ptr of
                  Some p \<Rightarrow> Some (Some a, XRP_STATUS_SUCCESS, h\<lparr>h_buf := (h_buf h)(a :=
                    \<lparr>b_device = None, b_type = XRP_BUFFER_TYPE_HOST, b_ptr = p, b_size = sz, b_map_count = 0, b_map_flags = 0\<rparr>)\<rparr>)
                | None \<Rightarrow> do {
                    d \<leftarrow> device;
                    (s, h) \<leftarrow> xrp_retain_device device h;
                    if s \<noteq> XRP_STATUS_SUCCESS then do { (s', h) \<leftarrow> release_refcounted (Some a) h; Some (None, s, h) }
                    else case addr sz of
                           None \<Rightarrow> do {
                             (s, h) \<leftarrow> xrp_release_device (s_close_ok sys) device h;
                             (s, h) \<leftarrow> release_refcounted (Some a) h;
                             Some (None, XRP_STATUS_FAILURE, h)
                           }
                         | Some p \<Rightarrow> Some (Some a, XRP_STATUS_SUCCESS, h\<lparr>h_buf := (h_buf h)(a :=
                             \<lparr>b_device = Some d, b_type = XRP_BUFFER_TYPE_DEVICE, b_ptr = p, b_size = sz, b_map_count = 0, b_map_flags = 0\<rparr>)\<rparr>)
                  }))"

definition xrp_retain_buffer :: "nat option \<Rightarrow> host \<Rightarrow> (xrp_status \<times> host) option" where
  "xrp_retain_buffer buffer h = retain_refcounted buffer h"

definition xrp_release_buffer :: "sys \<Rightarrow> nat option \<Rightarrow> host \<Rightarrow> (xrp_status \<times> host) option" where
  "xrp_release_buffer sys buffer h = do {
     l \<leftarrow> last_refcount buffer h;
     a \<leftarrow> buffer;
     let b = h_buf h a;
     if l \<and> b_type b = XRP_BUFFER_TYPE_DEVICE then
       if \<not> pred_option (live h) (b_device b) \<or> b_device b = None then None
       else if \<not> s_free_ok sys (b_ptr b) then Some (XRP_STATUS_FAILURE, h)
       else do { (s, h) \<leftarrow> xrp_release_device (s_close_ok sys) (b_device b) h; release_refcounted buffer h }
     else release_refcounted buffer h
   }"

definition xrp_map_buffer :: "nat \<Rightarrow> u32 \<Rightarrow> u32 \<Rightarrow> u32 \<Rightarrow> host \<Rightarrow> (u32 option \<times> xrp_status \<times> host) option" where
  "xrp_map_buffer buffer offset sz map_flags h =
     (let b = h_buf h buffer in
      if \<not> live h buffer then None
      else if offset \<le> b_size b \<and> sz \<le> b_size b - offset then do {
        (s, h) \<leftarrow> retain_refcounted (Some buffer) h;
        Some (Some (b_ptr b + offset), XRP_STATUS_SUCCESS, h\<lparr>h_buf := (h_buf h)(buffer :=
          b\<lparr>b_map_count := b_map_count b + 1, b_map_flags := b_map_flags b OR map_flags\<rparr>)\<rparr>)
      } else Some (None, XRP_STATUS_FAILURE, h))"

definition xrp_unmap_buffer :: "sys \<Rightarrow> nat \<Rightarrow> u32 \<Rightarrow> host \<Rightarrow> (xrp_status \<times> host) option" where
  "xrp_unmap_buffer sys buffer p h =
     (let b = h_buf h buffer in
      if \<not> live h buffer then None
      else if b_ptr b \<le> p \<and> p - b_ptr b \<le> b_size b
      then xrp_release_buffer sys (Some buffer) (h\<lparr>h_buf := (h_buf h)(buffer := b\<lparr>b_map_count := b_map_count b - 1\<rparr>)\<rparr>)
      else Some (XRP_STATUS_FAILURE, h))"

text \<open>The codes of \<open>enum xrp_buffer_info\<close> are 0 and 1; the value is copied if its size is 4 bytes.\<close>

definition xrp_buffer_get_info :: "nat \<Rightarrow> nat \<Rightarrow> u32 \<Rightarrow> host \<Rightarrow> (u32 option \<times> xrp_status) option" where
  "xrp_buffer_get_info buffer info out_sz h =
     (let b = h_buf h buffer in
      if 1 < info then Some (None, XRP_STATUS_FAILURE)
      else if \<not> live h buffer then None
      else if out_sz \<noteq> 4 then Some (None, XRP_STATUS_FAILURE)
      else if info = 0 then Some (Some (b_size b), XRP_STATUS_SUCCESS)
      else Some (Some (if b_type b \<noteq> XRP_BUFFER_TYPE_HOST then 0 else b_ptr b), XRP_STATUS_SUCCESS))"

subsection \<open>Groups of buffers\<close>

definition xrp_create_buffer_group :: "bool \<Rightarrow> host \<Rightarrow> nat option \<times> xrp_status \<times> host" where
  "xrp_create_buffer_group calloc_ok h =
     (case alloc_refcounted calloc_ok h of
        (Some a, h) \<Rightarrow> (Some a, XRP_STATUS_SUCCESS, h\<lparr>h_grp := (h_grp h)(a := \<lparr>g_capacity = 0, g_buffer = []\<rparr>)\<rparr>)
      | (None, h) \<Rightarrow> (None, XRP_STATUS_FAILURE, h))"

definition xrp_retain_buffer_group :: "nat option \<Rightarrow> host \<Rightarrow> (xrp_status \<times> host) option" where
  "xrp_retain_buffer_group grp h = retain_refcounted grp h"

fun release_buffers :: "sys \<Rightarrow> (nat \<times> u32) list \<Rightarrow> host \<Rightarrow> host option" where
  "release_buffers sys [] h = Some h"
| "release_buffers sys (r # rs) h = do { (s, h) \<leftarrow> xrp_release_buffer sys (Some (fst r)) h; release_buffers sys rs h }"

definition xrp_release_buffer_group :: "sys \<Rightarrow> nat option \<Rightarrow> host \<Rightarrow> (xrp_status \<times> host) option" where
  "xrp_release_buffer_group sys grp h = do {
     l \<leftarrow> last_refcount grp h;
     a \<leftarrow> grp;
     h \<leftarrow> (if l then release_buffers sys (g_buffer (h_grp h a)) h else Some h);
     release_refcounted grp h
   }"

text \<open>The index of the new record, or \<open>-1\<close>.\<close>

definition xrp_add_buffer_to_group ::
  "bool \<Rightarrow> nat \<Rightarrow> nat option \<Rightarrow> u32 \<Rightarrow> host \<Rightarrow> (int \<times> xrp_status \<times> host) option" where
  "xrp_add_buffer_to_group realloc_ok grp buffer access_flags h =
     (let g = h_grp h grp; full = length (g_buffer g) = g_capacity g in
      if \<not> live h grp then None
      else if full \<and> \<not> realloc_ok then Some (- 1, XRP_STATUS_FAILURE, h)
      else do {
        let g = (if full then g\<lparr>g_capacity := (g_capacity g + 2) * 2\<rparr> else g);
        let h = h\<lparr>h_grp := (h_grp h)(grp := g)\<rparr>;
        (s, h) \<leftarrow> xrp_retain_buffer buffer h;
        if s \<noteq> XRP_STATUS_SUCCESS then Some (- 1, s, h)
        else do {
          b \<leftarrow> buffer;
          Some (int (length (g_buffer g)), XRP_STATUS_SUCCESS,
            h\<lparr>h_grp := (h_grp h)(grp := g\<lparr>g_buffer := g_buffer g @ [(b, access_flags)]\<rparr>)\<rparr>)
        }
      })"

definition xrp_set_buffer_in_group ::
  "sys \<Rightarrow> nat \<Rightarrow> nat \<Rightarrow> nat option \<Rightarrow> u32 \<Rightarrow> host \<Rightarrow> (xrp_status \<times> host) option" where
  "xrp_set_buffer_in_group sys grp index buffer access_flags h = do {
     (s, h) \<leftarrow> xrp_retain_buffer buffer h;
     if s \<noteq> XRP_STATUS_SUCCESS then Some (s, h)
     else if \<not> live h grp then None
     else do {
       b \<leftarrow> buffer;
       let g = h_grp h grp;
       if index < length (g_buffer g) then do {
         (t, h) \<leftarrow> xrp_release_buffer sys (Some (fst (g_buffer g ! index)))
           (h\<lparr>h_grp := (h_grp h)(grp := g\<lparr>g_buffer := (g_buffer g)[index := (b, access_flags)]\<rparr>)\<rparr>);
         Some (XRP_STATUS_SUCCESS, h)
       } else do { (t, h) \<leftarrow> xrp_release_buffer sys buffer h; Some (XRP_STATUS_FAILURE, h) }
     }
   }"

definition xrp_get_buffer_from_group :: "nat \<Rightarrow> nat \<Rightarrow> host \<Rightarrow> (nat option \<times> xrp_status \<times> host) option" where
  "xrp_get_buffer_from_group grp idx h =
     (let g = h_grp h grp in
      if \<not> live h grp then None
      else if idx < length (g_buffer g) then do {
        let b = fst (g_buffer g ! idx);
        (s, h) \<leftarrow> xrp_retain_buffer (Some b) h;
        Some (Some b, s, h)
      } else Some (None, XRP_STATUS_FAILURE, h))"

definition xrp_buffer_group_get_info :: "nat \<Rightarrow> nat \<Rightarrow> nat \<Rightarrow> u32 \<Rightarrow> host \<Rightarrow> (u32 option \<times> xrp_status) option" where
  "xrp_buffer_group_get_info grp info idx out_sz h =
     (let g = h_grp h grp in
      if \<not> live h grp then None
      else if info = 0 \<and> idx < length (g_buffer g) \<and> out_sz = 4 then Some (Some (snd (g_buffer g ! idx)), XRP_STATUS_SUCCESS)
      else if info = 1 \<and> out_sz = 4 then Some (Some (of_nat (length (g_buffer g))), XRP_STATUS_SUCCESS)
      else Some (None, XRP_STATUS_FAILURE))"

subsection \<open>The request queue\<close>

definition xrp_enqueue_request :: "nat \<Rightarrow> nat \<Rightarrow> host \<Rightarrow> host option" where
  "xrp_enqueue_request queue rq h = do {
     r \<leftarrow> h_rq h rq;
     let h = h\<lparr>h_rq := (h_rq h)(rq \<mapsto> r\<lparr>r_next := None\<rparr>)\<rparr>;
     let q = h_que h queue;
     if \<not> live h queue then None
     else case qu_tail q of
            Some t \<Rightarrow> do {
              tr \<leftarrow> h_rq h t;
              Some (h\<lparr>h_rq := (h_rq h)(t \<mapsto> tr\<lparr>r_next := Some rq\<rparr>), h_que := (h_que h)(queue := q\<lparr>qu_tail := Some rq\<rparr>)\<rparr>)
            }
          | None \<Rightarrow> Some (h\<lparr>h_que := (h_que h)(queue := q\<lparr>qu_head := Some rq, qu_tail := Some rq\<rparr>)\<rparr>)
   }"

definition xrp_dequeue_request :: "nat \<Rightarrow> host \<Rightarrow> (nat option \<times> host) option" where
  "xrp_dequeue_request queue h =
     (let q = h_que h queue in
      if \<not> live h queue then None
      else case qu_head q of
             None \<Rightarrow> Some (None, h)
           | Some rq \<Rightarrow> do {
               r \<leftarrow> h_rq h rq;
               Some (Some rq, h\<lparr>h_que := (h_que h)(queue :=
                 q\<lparr>qu_tail := (if Some rq = qu_tail q then None else qu_tail q), qu_head := r_next r\<rparr>)\<rparr>)
             })"

subsection \<open>Queues and events\<close>

text \<open>\<open>nsid\<close> are the 16 bytes of the name, if there is one; the field of a new queue is zero.\<close>

definition xrp_create_ns_queue ::
  "bool \<Rightarrow> nat option \<Rightarrow> u8 list option \<Rightarrow> host \<Rightarrow> (nat option \<times> xrp_status \<times> host) option" where
  "xrp_create_ns_queue calloc_ok device nsid h =
     (case device of
        None \<Rightarrow> Some (None, XRP_STATUS_FAILURE, h)
      | Some d \<Rightarrow>
          (case alloc_refcounted calloc_ok h of
             (None, h) \<Rightarrow> Some (None, XRP_STATUS_FAILURE, h)
           | (Some a, h) \<Rightarrow> do {
               (s, h) \<leftarrow> xrp_retain_device device h;
               if s \<noteq> XRP_STATUS_SUCCESS then do { (t, h) \<leftarrow> release_refcounted (Some a) h; Some (None, s, h) }
               else Some (Some a, XRP_STATUS_SUCCESS, h\<lparr>h_que := (h_que h)(a :=
                 \<lparr>qu_device = d, qu_use_nsid = (nsid \<noteq> None),
                  qu_nsid = (case nsid of Some n \<Rightarrow> take 16 n | None \<Rightarrow> replicate 16 0),
                  qu_head = None, qu_tail = None, qu_exit = False\<rparr>)\<rparr>)
             }))"

definition xrp_create_queue :: "bool \<Rightarrow> nat option \<Rightarrow> host \<Rightarrow> (nat option \<times> xrp_status \<times> host) option" where
  "xrp_create_queue calloc_ok device h = xrp_create_ns_queue calloc_ok device None h"

definition xrp_retain_queue :: "nat option \<Rightarrow> host \<Rightarrow> (xrp_status \<times> host) option" where
  "xrp_retain_queue queue h = retain_refcounted queue h"

text \<open>
  \<open>join\<close> is \<open>pthread_join\<close> of the worker of a queue: whether it succeeds, and what the worker does until then.
  The worker itself may release the last reference, with the last event; then joining fails and the worker is told to
  return through its variable.
\<close>

type_synonym join = "nat \<Rightarrow> host \<Rightarrow> (bool \<times> host) option"

definition self_join :: join where
  "self_join queue h = Some (False, h)"

definition xrp_release_queue :: "sys \<Rightarrow> join \<Rightarrow> nat option \<Rightarrow> host \<Rightarrow> (xrp_status \<times> host) option" where
  "xrp_release_queue sys join queue h = do {
     l \<leftarrow> last_refcount queue h;
     a \<leftarrow> queue;
     if \<not> l then release_refcounted queue h
     else do {
       (joined, h) \<leftarrow> join a (h\<lparr>h_que := (h_que h)(a := (h_que h a)\<lparr>qu_exit := True\<rparr>)\<rparr>);
       let h = (if joined then h else h\<lparr>h_sync_exit := (h_sync_exit h)(a := True)\<rparr>);
       (s, h) \<leftarrow> xrp_release_device (s_close_ok sys) (Some (qu_device (h_que h a))) h;
       if s \<noteq> XRP_STATUS_SUCCESS then Some (s, h) else release_refcounted queue h
     }
   }"

definition xrp_retain_event :: "nat option \<Rightarrow> host \<Rightarrow> (xrp_status \<times> host) option" where
  "xrp_retain_event event h = retain_refcounted event h"

definition xrp_release_event :: "sys \<Rightarrow> join \<Rightarrow> nat option \<Rightarrow> host \<Rightarrow> (xrp_status \<times> host) option" where
  "xrp_release_event sys join event h = do {
     l \<leftarrow> last_refcount event h;
     a \<leftarrow> event;
     if \<not> l then release_refcounted event h
     else do {
       (s, h) \<leftarrow> xrp_release_queue sys join (Some (e_queue (h_evt h a))) h;
       if s \<noteq> XRP_STATUS_SUCCESS then Some (s, h) else release_refcounted event h
     }
   }"

definition xrp_event_status :: "nat \<Rightarrow> host \<Rightarrow> xrp_status option" where
  "xrp_event_status event h = (if live h event then Some (e_status (h_evt h event)) else None)"

subsection \<open>Commands\<close>

text \<open>The buffers of a group as the driver takes them; \<open>Some None\<close> if one of them is mapped.\<close>

fun ioctl_buffers :: "(nat \<times> u32) list \<Rightarrow> host \<Rightarrow> xrp_ioctl_buffer list option option" where
  "ioctl_buffers [] h = Some (Some [])"
| "ioctl_buffers ((a, access_flags) # rs) h =
     (if \<not> live h a then None
      else if 0 < b_map_count (h_buf h a) then Some None
      else map_option (map_option ((#)
             \<lparr>ib_flags = access_flags, ib_size = b_size (h_buf h a), ib_addr = ucast (b_ptr (h_buf h a))\<rparr>)) (ioctl_buffers rs h))"

definition xrp_run_command ::
  "sys \<Rightarrow> nat \<Rightarrow> u32 \<Rightarrow> u32 \<Rightarrow> u32 \<Rightarrow> u32 \<Rightarrow> nat option \<Rightarrow> host \<Rightarrow> (xrp_status \<times> host) option" where
  "xrp_run_command sys queue in_data in_data_size out_data out_data_size buffer_group h =
     (let q = h_que h queue;
          rs = (case buffer_group of Some g \<Rightarrow> g_buffer (h_grp h g) | None \<Rightarrow> []) in
      if \<not> pred_option (live h) buffer_group \<or> \<not> live h queue then None
      else do {
        bs \<leftarrow> ioctl_buffers rs h;
        case bs of
          None \<Rightarrow> Some (XRP_STATUS_FAILURE, h)
        | Some bs \<Rightarrow>
            if \<not> live h (qu_device q) then None
            else case s_queue sys (d_fd (h_dev h (qu_device q)))
                   \<lparr>q_flags = (if qu_use_nsid q then XRP_QUEUE_FLAG_NSID else 0),
                    q_in_data_size = in_data_size, q_out_data_size = out_data_size,
                    q_buffer_size = of_nat (length rs * 16),
                    q_in_data_addr = ucast in_data, q_out_data_addr = ucast out_data,
                    q_buffer_addr = ucast (s_stack sys), q_nsid_addr = ucast (s_nsid sys queue)\<rparr>
                   bs (qu_nsid q) (h_mem h) of
                   (ok, m) \<Rightarrow> Some (if ok then XRP_STATUS_SUCCESS else XRP_STATUS_FAILURE, h\<lparr>h_mem := m\<rparr>)
      })"

text \<open>
  One call of \<open>xrp_queue_process\<close> is a step up to the end of the section in which the worker takes a request, the command
  itself, and the completion.  Without a request the worker waits, or returns zero if the queue is being released.
\<close>

datatype take_result = Take_waits | Take_exits | Took nat

definition xrp_queue_take :: "nat \<Rightarrow> host \<Rightarrow> (take_result \<times> host) option" where
  "xrp_queue_take queue h = do {
     (rq, h) \<leftarrow> xrp_dequeue_request queue (h\<lparr>h_sync_exit := (h_sync_exit h)(queue := False)\<rparr>);
     Some (case rq of Some r \<Rightarrow> Took r | None \<Rightarrow> if qu_exit (h_que h queue) then Take_exits else Take_waits, h)
   }"

definition xrp_queue_run :: "sys \<Rightarrow> nat \<Rightarrow> nat \<Rightarrow> host \<Rightarrow> (xrp_status \<times> host) option" where
  "xrp_queue_run sys queue rq h = do {
     r \<leftarrow> h_rq h rq;
     xrp_run_command sys queue (r_in_data r) (r_in_data_size r) (r_out_data r) (r_out_data_size r) (r_buffer_group r) h
   }"

definition xrp_queue_complete :: "sys \<Rightarrow> nat \<Rightarrow> nat \<Rightarrow> xrp_status \<Rightarrow> host \<Rightarrow> (bool \<times> host) option" where
  "xrp_queue_complete sys queue rq status h = do {
     r \<leftarrow> h_rq h rq;
     h \<leftarrow> (case r_buffer_group r of
            Some g \<Rightarrow> map_option snd (xrp_release_buffer_group sys (Some g) h)
          | None \<Rightarrow> Some h);
     h \<leftarrow> (case r_event r of
            Some e \<Rightarrow>
              if live h e
              then map_option snd (xrp_release_event sys self_join (Some e)
                     (h\<lparr>h_evt := (h_evt h)(e := (h_evt h e)\<lparr>e_status := status\<rparr>)\<rparr>))
              else None
          | None \<Rightarrow> Some h);
     Some (\<not> h_sync_exit h queue, h\<lparr>h_rq := (h_rq h)(rq := None)\<rparr>)
   }"

text \<open>The result is \<open>None\<close> if the worker waits, and otherwise whether the function returns a non-zero value.\<close>

definition xrp_queue_process :: "sys \<Rightarrow> nat \<Rightarrow> host \<Rightarrow> (bool option \<times> host) option" where
  "xrp_queue_process sys queue h = do {
     (t, h) \<leftarrow> xrp_queue_take queue h;
     case t of
       Take_waits \<Rightarrow> Some (None, h)
     | Take_exits \<Rightarrow> Some (Some False, h)
     | Took rq \<Rightarrow> do {
         (s, h) \<leftarrow> xrp_queue_run sys queue rq h;
         (c, h) \<leftarrow> xrp_queue_complete sys queue rq s h;
         Some (Some c, h)
       }
   }"

text \<open>The worker until it returns (\<open>True\<close>) or waits for a request (\<open>False\<close>).\<close>

partial_function (option) xrp_queue_thread :: "sys \<Rightarrow> nat \<Rightarrow> host \<Rightarrow> (bool \<times> host) option" where
  "xrp_queue_thread sys queue h = do {
     (r, h) \<leftarrow> xrp_queue_process sys queue h;
     if r = None then Some (False, h) else if r = Some False then Some (True, h) else xrp_queue_thread sys queue h
   }"

text \<open>Another thread joins the worker: the worker goes on until it returns; joining a waiting worker does not end.\<close>

definition client_join :: "sys \<Rightarrow> join" where
  "client_join sys queue h = do { (ended, h) \<leftarrow> xrp_queue_thread sys queue h; if ended then Some (True, h) else None }"

text \<open>The request is handed to the queue, with a reference to its group.\<close>

definition submit_request :: "nat option \<Rightarrow> nat \<Rightarrow> xrp_request \<Rightarrow> host \<Rightarrow> host option" where
  "submit_request queue rq r h = do {
     h \<leftarrow> (case r_buffer_group r of None \<Rightarrow> Some h | Some g \<Rightarrow> map_option snd (xrp_retain_buffer_group (Some g) h));
     q \<leftarrow> queue;
     xrp_enqueue_request q rq (h\<lparr>h_rq := (h_rq h)(rq \<mapsto> r)\<rparr>)
   }"

text \<open>The event of a command, if the caller asks for one: one reference is the caller's, the other one the request's.\<close>

definition command_event :: "bool \<Rightarrow> nat option \<Rightarrow> bool \<Rightarrow> host \<Rightarrow> (nat option \<times> xrp_status \<times> host) option" where
  "command_event calloc_ok queue evt h =
     (if \<not> evt then Some (None, XRP_STATUS_SUCCESS, h)
      else case alloc_refcounted calloc_ok h of
        (None, h) \<Rightarrow> Some (None, XRP_STATUS_FAILURE, h)
      | (Some e, h) \<Rightarrow> do {
          (s, h) \<leftarrow> xrp_retain_queue queue h;
          if s \<noteq> XRP_STATUS_SUCCESS then do { (t, h) \<leftarrow> release_refcounted (Some e) h; Some (None, s, h) }
          else do {
            q \<leftarrow> queue;
            (t, h) \<leftarrow> xrp_retain_event (Some e) (h\<lparr>h_evt := (h_evt h)(e := \<lparr>e_queue = q, e_status = XRP_STATUS_PENDING\<rparr>)\<rparr>);
            Some (Some e, XRP_STATUS_SUCCESS, h)
          }
        })"

text \<open>\<open>rq_ok\<close>, \<open>copy\<close> and \<open>calloc_ok\<close> are the results of the three allocations.\<close>

definition xrp_enqueue_command ::
  "bool \<Rightarrow> u32 option \<Rightarrow> bool \<Rightarrow> nat option \<Rightarrow> u32 \<Rightarrow> u32 \<Rightarrow> u32 \<Rightarrow> u32 \<Rightarrow> nat option \<Rightarrow> bool \<Rightarrow> host \<Rightarrow>
   (nat option \<times> xrp_status \<times> host) option" where
  "xrp_enqueue_command rq_ok copy calloc_ok queue in_data in_data_size out_data out_data_size buffer_group evt h =
     (if \<not> rq_ok \<or> in_data_size \<noteq> 0 \<and> copy = None then Some (None, XRP_STATUS_FAILURE, h)
      else do {
        let rq = h_next h;
        let c = (case copy of Some p \<Rightarrow> p | None \<Rightarrow> 0);
        (e, s, h) \<leftarrow> command_event calloc_ok queue evt (h\<lparr>h_next := h_next h + 1,
          h_mem := write_bytes (h_mem h) c (read_bytes (h_mem h) in_data (unat in_data_size))\<rparr>);
        if s \<noteq> XRP_STATUS_SUCCESS then Some (None, s, h)
        else do {
          h \<leftarrow> submit_request queue rq \<lparr>r_next = None, r_in_data = c, r_out_data = out_data, r_in_data_size = in_data_size,
            r_out_data_size = out_data_size, r_buffer_group = buffer_group, r_event = e\<rparr> h;
          Some (e, XRP_STATUS_SUCCESS, h)
        }
      })"

text \<open>While the caller waits for the event, the worker of its queue runs; waiting for ever is \<open>None\<close>.\<close>

partial_function (option) xrp_wait :: "sys \<Rightarrow> nat \<Rightarrow> host \<Rightarrow> host option" where
  "xrp_wait sys event h = do {
     s \<leftarrow> xrp_event_status event h;
     if s \<noteq> XRP_STATUS_PENDING then Some h
     else do {
       (r, h) \<leftarrow> xrp_queue_process sys (e_queue (h_evt h event)) h;
       if r = None then None else xrp_wait sys event h
     }
   }"

definition xrp_run_command_sync ::
  "sys \<Rightarrow> bool \<Rightarrow> u32 option \<Rightarrow> bool \<Rightarrow> nat option \<Rightarrow> u32 \<Rightarrow> u32 \<Rightarrow> u32 \<Rightarrow> u32 \<Rightarrow> nat option \<Rightarrow> host \<Rightarrow>
   (xrp_status \<times> host) option" where
  "xrp_run_command_sync sys rq_ok copy calloc_ok queue in_data in_data_size out_data out_data_size buffer_group h = do {
     (evt, s, h) \<leftarrow> xrp_enqueue_command rq_ok copy calloc_ok queue in_data in_data_size out_data out_data_size buffer_group True h;
     if s \<noteq> XRP_STATUS_SUCCESS then Some (s, h)
     else do {
       e \<leftarrow> evt;
       h \<leftarrow> xrp_wait sys e h;
       s \<leftarrow> xrp_event_status e h;
       (t, h) \<leftarrow> xrp_release_event sys (client_join sys) evt h;
       Some (s, h)
     }
   }"

end
