(* ===== verification/XRP_Host_Queue.thy ===== *)
theory XRP_Host_Queue
  imports XRP_Host_Native
begin

text \<open>
  Correctness of the queues of the host library.  The requests linked from the head of a queue are a first-in first-out
  list, and commands are completed in the order of submission, each once, whatever the order in which the
  client and the worker take their steps; no step uses an object that has been released.
\<close>

subsection \<open>The request queue as a list\<close>

fun chain :: "(nat \<Rightarrow> xrp_request option) \<Rightarrow> nat option \<Rightarrow> nat list \<Rightarrow> bool" where
  "chain R p [] \<longleftrightarrow> p = None"
| "chain R p (x # xs) \<longleftrightarrow> p = Some x \<and> (case R x of Some r \<Rightarrow> chain R (r_next r) xs | None \<Rightarrow> False)"

definition queue_list :: "nat \<Rightarrow> host \<Rightarrow> nat list \<Rightarrow> bool" where
  "queue_list queue h rs \<longleftrightarrow> live h queue \<and> distinct rs \<and> chain (h_rq h) (qu_head (h_que h queue)) rs \<and>
     qu_tail (h_que h queue) = (if rs = [] then None else Some (last rs))"

lemma chain_frame: "(\<And>x. x \<in> set xs \<Longrightarrow> R' x = R x) \<Longrightarrow> chain R' p xs = chain R p xs"
  by (induction xs arbitrary: p) (auto split: option.splits)

lemma chain_snoc:
  "chain R p xs \<Longrightarrow> xs \<noteq> [] \<Longrightarrow> distinct (xs @ [x]) \<Longrightarrow> R (last xs) = Some t \<Longrightarrow> R x = Some r \<Longrightarrow> r_next r = None \<Longrightarrow>
   chain (R(last xs \<mapsto> t\<lparr>r_next := Some x\<rparr>)) p (xs @ [x])"
proof (induction xs arbitrary: p)
  case (Cons y ys)
  show ?case
  proof (cases "ys = []")
    case True
    then show ?thesis using Cons.prems by auto
  next
    case False
    moreover have "last ys \<noteq> y" using False Cons.prems(3) last_in_set [of ys] by auto
    ultimately show ?thesis using Cons by (auto split: option.splits)
  qed
qed simp

lemma chain_last: "chain R p xs \<Longrightarrow> xs \<noteq> [] \<Longrightarrow> \<exists>t. R (last xs) = Some t"
  by (induction xs arbitrary: p) (auto split: option.splits)

lemma chain_defined: "chain R p xs \<Longrightarrow> x \<in> set xs \<Longrightarrow> R x \<noteq> None"
  by (induction xs arbitrary: p) (auto split: option.split_asm)

text \<open>What a client of a request queue relies on.\<close>

locale request_fifo =
  fixes holds :: "'h \<Rightarrow> 'x list \<Rightarrow> bool"
    and ready :: "'h \<Rightarrow> 'x \<Rightarrow> bool"
    and enq :: "'x \<Rightarrow> 'h \<Rightarrow> 'h option"
    and deq :: "'h \<Rightarrow> ('x option \<times> 'h) option"
  assumes enq_law: "holds h xs \<Longrightarrow> ready h x \<Longrightarrow> x \<notin> set xs \<Longrightarrow>
      \<exists>h'. enq x h = Some h' \<and> holds h' (xs @ [x]) \<and> (\<forall>y. ready h y \<longrightarrow> ready h' y)"
    and deq_empty_law: "holds h [] \<Longrightarrow> \<exists>h'. deq h = Some (None, h') \<and> holds h' [] \<and> (\<forall>y. ready h y \<longrightarrow> ready h' y)"
    and deq_law: "holds h (x # xs) \<Longrightarrow> \<exists>h'. deq h = Some (Some x, h') \<and> holds h' xs \<and> (\<forall>y. ready h y \<longrightarrow> ready h' y)"

datatype 'x fifo_op = Enq 'x | Deq

fun fifo_ops :: "('x \<Rightarrow> 'h \<Rightarrow> 'h option) \<Rightarrow> ('h \<Rightarrow> ('x option \<times> 'h) option) \<Rightarrow> 'x fifo_op list \<Rightarrow> 'h \<Rightarrow> ('x option list \<times> 'h) option" where
  "fifo_ops enq deq [] h = Some ([], h)"
| "fifo_ops enq deq (Enq x # os) h = do { h \<leftarrow> enq x h; fifo_ops enq deq os h }"
| "fifo_ops enq deq (Deq # os) h = do { (y, h) \<leftarrow> deq h; (ys, h) \<leftarrow> fifo_ops enq deq os h; Some (y # ys, h) }"

definition list_enq :: "'x \<Rightarrow> 'x list \<Rightarrow> 'x list option" where
  "list_enq x xs = (if x \<in> set xs then None else Some (xs @ [x]))"

lemma list_enq_some: "list_enq x xs = Some ys \<longleftrightarrow> x \<notin> set xs \<and> ys = xs @ [x]"
  by (auto simp: list_enq_def)

fun list_deq :: "'x list \<Rightarrow> ('x option \<times> 'x list) option" where
  "list_deq [] = Some (None, [])"
| "list_deq (x # xs) = Some (Some x, xs)"

context request_fifo
begin

lemma ops_refine:
  "fifo_ops list_enq list_deq os xs = Some (ys, xs') \<Longrightarrow> holds h xs \<Longrightarrow> (\<And>x. Enq x \<in> set os \<Longrightarrow> ready h x) \<Longrightarrow>
   \<exists>h'. fifo_ops enq deq os h = Some (ys, h') \<and> holds h' xs'"
proof (induction os arbitrary: xs h ys)
  case (Cons p os)
  show ?case
  proof (cases p)
    case (Enq x)
    with Cons.prems(1) have new: "x \<notin> set xs" and run: "fifo_ops list_enq list_deq os (xs @ [x]) = Some (ys, xs')"
      by (auto simp: list_enq_some split: bind_splits)
    obtain h' where h': "enq x h = Some h'" "holds h' (xs @ [x])" "\<forall>y. ready h y \<longrightarrow> ready h' y"
      using enq_law [OF Cons.prems(2) _ new] Cons.prems(3) Enq by auto
    show ?thesis using Cons.IH [OF run h'(2)] Cons.prems(3) h' Enq by auto
  next
    case Deq
    with Cons.prems(1) obtain y zs us where d: "list_deq xs = Some (y, us)"
      and run: "fifo_ops list_enq list_deq os us = Some (zs, xs')" and ys: "ys = y # zs"
      by (auto split: bind_splits prod.split_asm)
    obtain h' where h': "deq h = Some (y, h')" "holds h' us" "\<forall>y. ready h y \<longrightarrow> ready h' y"
      using d Cons.prems(2) deq_empty_law [of h] deq_law [of h "hd xs" "tl xs"] by (cases xs) auto
    show ?thesis using Cons.IH [OF run h'(2)] Cons.prems(3) h' Deq ys by auto
  qed
qed simp

end

text \<open>Requests that differ in their links only, and queues that differ in their ends only.\<close>

definition relinked :: "(nat \<Rightarrow> xrp_request option) \<Rightarrow> (nat \<Rightarrow> xrp_request option) \<Rightarrow> bool" where
  "relinked R R' \<longleftrightarrow> (\<forall>y. map_option (r_next_update (\<lambda>_. None)) (R' y) = map_option (r_next_update (\<lambda>_. None)) (R y))"

definition same_queue :: "xrp_queue \<Rightarrow> xrp_queue \<Rightarrow> bool" where
  "same_queue Q Q' \<longleftrightarrow> Q' = Q\<lparr>qu_head := qu_head Q', qu_tail := qu_tail Q'\<rparr>"

lemma enqueue_request_list:
  assumes q: "queue_list queue h xs" and rq: "h_rq h x = Some r" and new: "x \<notin> set xs"
  obtains R Q where "xrp_enqueue_request queue x h = Some (h\<lparr>h_rq := R, h_que := (h_que h)(queue := Q)\<rparr>)"
    "queue_list queue (h\<lparr>h_rq := R, h_que := (h_que h)(queue := Q)\<rparr>) (xs @ [x])"
    "relinked (h_rq h) R" "same_queue (h_que h queue) Q"
proof (cases "xs = []")
  case True
  show ?thesis
    by (rule that [where R = "(h_rq h)(x \<mapsto> r\<lparr>r_next := None\<rparr>)" and Q = "(h_que h queue)\<lparr>qu_head := Some x, qu_tail := Some x\<rparr>"])
      (use True q rq in \<open>auto simp: xrp_enqueue_request_def queue_list_def live_def relinked_def same_queue_def\<close>)
next
  case False
  let ?R = "(h_rq h)(x \<mapsto> r\<lparr>r_next := None\<rparr>)"
  have c: "chain ?R (qu_head (h_que h queue)) xs"
    using q new by (subst chain_frame [of xs _ "h_rq h"]) (auto simp: queue_list_def)
  obtain t where t: "?R (last xs) = Some t" using chain_last [OF c False] by blast
  let ?R' = "?R(last xs \<mapsto> t\<lparr>r_next := Some x\<rparr>)"
  have "chain ?R' (qu_head (h_que h queue)) (xs @ [x])"
    by (rule chain_snoc [OF c False _ t, of x "r\<lparr>r_next := None\<rparr>"]) (use q new in \<open>auto simp: queue_list_def\<close>)
  moreover have "last xs \<noteq> x" using False new last_in_set [of xs] by auto
  ultimately show ?thesis
    using q rq new False t by (intro that [where R = "?R'" and Q = "(h_que h queue)\<lparr>qu_tail := Some x\<rparr>"])
      (auto simp: xrp_enqueue_request_def queue_list_def live_def relinked_def same_queue_def Let_def)
qed

lemma dequeue_request_list:
  assumes "queue_list queue h (x # xs)"
  obtains Q where "xrp_dequeue_request queue h = Some (Some x, h\<lparr>h_que := (h_que h)(queue := Q)\<rparr>)"
    "queue_list queue (h\<lparr>h_que := (h_que h)(queue := Q)\<rparr>) xs" "same_queue (h_que h queue) Q"
proof -
  have "last xs \<noteq> x" if "xs \<noteq> []" using that assms last_in_set [of xs] by (auto simp: queue_list_def)
  moreover obtain r where "h_rq h x = Some r" using assms by (auto simp: queue_list_def split: option.split_asm)
  ultimately show ?thesis using assms
    by (intro that [of "(h_que h queue)\<lparr>qu_tail := (if xs = [] then None else Some (last xs)), qu_head := r_next r\<rparr>"])
      (cases "xs = []"; simp add: xrp_dequeue_request_def queue_list_def live_def same_queue_def)+
qed

lemma dequeue_request_empty: "queue_list queue h [] \<Longrightarrow> xrp_dequeue_request queue h = Some (None, h)"
  by (auto simp: xrp_dequeue_request_def queue_list_def)

definition request_ready :: "host \<Rightarrow> nat \<Rightarrow> bool" where
  "request_ready h x \<longleftrightarrow> h_rq h x \<noteq> None"

lemma relinked_ready: "relinked R R' \<Longrightarrow> (R' y = None) = (R y = None)"
  by (auto simp: relinked_def dest: spec [of _ y])

interpretation rq_fifo: request_fifo "queue_list queue" request_ready "xrp_enqueue_request queue" "xrp_dequeue_request queue"
proof unfold_locales
  fix h xs x
  assume *: "queue_list queue h xs" "request_ready h x" "x \<notin> set xs"
  then obtain r where "h_rq h x = Some r" by (auto simp: request_ready_def)
  then obtain R Q where "xrp_enqueue_request queue x h = Some (h\<lparr>h_rq := R, h_que := (h_que h)(queue := Q)\<rparr>)"
    "queue_list queue (h\<lparr>h_rq := R, h_que := (h_que h)(queue := Q)\<rparr>) (xs @ [x])" "relinked (h_rq h) R"
    using * enqueue_request_list by metis
  then show "\<exists>h'. xrp_enqueue_request queue x h = Some h' \<and> queue_list queue h' (xs @ [x]) \<and> (\<forall>y. request_ready h y \<longrightarrow> request_ready h' y)"
    by (simp add: request_ready_def relinked_ready del: not_None_eq)
next
  fix h x xs
  assume "queue_list queue h (x # xs)"
  then obtain Q where "xrp_dequeue_request queue h = Some (Some x, h\<lparr>h_que := (h_que h)(queue := Q)\<rparr>)"
    "queue_list queue (h\<lparr>h_que := (h_que h)(queue := Q)\<rparr>) xs"
    by (rule dequeue_request_list)
  then show "\<exists>h'. xrp_dequeue_request queue h = Some (Some x, h') \<and> queue_list queue h' xs \<and> (\<forall>y. request_ready h y \<longrightarrow> request_ready h' y)"
    by (simp add: request_ready_def)
qed (auto simp: dequeue_request_empty)

text \<open>
  C17: The linked list of a queue refines a first-in first-out list.  Whatever enqueue and dequeue operations a
  client makes on requests it has allocated, never enqueuing a request that is still in the queue, the
  operations on the links succeed, return the requests that the list returns, and leave the links in the order
  of the list.
\<close>

theorem request_queue_refines_list:
  assumes "queue_list queue h xs" and "\<And>x. Enq x \<in> set os \<Longrightarrow> request_ready h x"
    and "fifo_ops list_enq list_deq os xs = Some (ys, xs')"
  shows "\<exists>h'. fifo_ops (xrp_enqueue_request queue) (xrp_dequeue_request queue) os h = Some (ys, h') \<and> queue_list queue h' xs'"
  using assms by (intro rq_fifo.ops_refine)

definition fifo_host :: host where
  "fifo_host = \<lparr>h_ref = (\<lambda>a. if a = 2 then Some 1 else None), h_dev = (\<lambda>_. \<lparr>d_fd = 9\<rparr>),
     h_buf = (\<lambda>_. \<lparr>b_device = None, b_type = XRP_BUFFER_TYPE_HOST, b_ptr = 0, b_size = 0, b_map_count = 0, b_map_flags = 0\<rparr>),
     h_grp = (\<lambda>_. \<lparr>g_capacity = 0, g_buffer = []\<rparr>),
     h_que = (\<lambda>_. \<lparr>qu_device = 1, qu_use_nsid = False, qu_nsid = replicate 16 0, qu_head = None, qu_tail = None, qu_exit = False\<rparr>),
     h_evt = (\<lambda>_. \<lparr>e_queue = 0, e_status = XRP_STATUS_SUCCESS\<rparr>),
     h_rq = (\<lambda>_. Some \<lparr>r_next = None, r_in_data = 0, r_out_data = 0, r_in_data_size = 0, r_out_data_size = 0, r_buffer_group = None, r_event = None\<rparr>),
     h_next = 10, h_mem = (\<lambda>_. 0), h_sync_exit = (\<lambda>_. False)\<rparr>"

theorem request_queue_refines_list_witness:
  "\<exists>h'. fifo_ops (xrp_enqueue_request 2) (xrp_dequeue_request 2) [Enq 7, Enq 8, Deq, Enq 9, Deq, Deq, Deq, Enq 7] fifo_host =
     Some ([Some 7, Some 8, Some 9, None], h') \<and> queue_list 2 h' [7]"
  by (rule request_queue_refines_list [where xs = "[]"])
    (simp_all add: queue_list_def live_def request_ready_def fifo_host_def list_enq_def)

end
