(* ===== verification/XRP_Host_Run.thy ===== *)
theory XRP_Host_Run
  imports XRP_Host_Queue
begin

text \<open>
  The client of the host library and the worker of a queue, in any order of their steps: the references
  that requests, events and the client hold account for every count, commands are completed in the order of
  submission, and waiting for a command ends.
\<close>

subsection \<open>Counts\<close>

text \<open>Objects whose counts are given by a function; an object without references is not there.\<close>

definition counts :: "(nat \<Rightarrow> nat) \<Rightarrow> nat \<Rightarrow> nat option" where
  "counts f a = (if f a = 0 then None else Some (f a))"

lemma counts_upd: "(counts f)(a := (if n = 0 then None else Some n)) = counts (f(a := n))"
  by (auto simp: counts_def fun_eq_iff)

lemma live_counts: "h_ref h = counts f \<Longrightarrow> live h a \<longleftrightarrow> 0 < f a"
  by (simp add: live_def counts_def)

lemma last_counts: "h_ref h = counts f \<Longrightarrow> 0 < f a \<Longrightarrow> last_refcount (Some a) h = Some (f a = 1)"
  by (simp add: last_refcount_def counts_def)

lemma retain_counts:
  "h_ref h = counts f \<Longrightarrow> 0 < f a \<Longrightarrow>
   retain_refcounted (Some a) h = Some (XRP_STATUS_SUCCESS, h\<lparr>h_ref := counts (f(a := f a + 1))\<rparr>)"
  using counts_upd [of f a "f a + 1"] by (simp add: retain_refcounted_def) (simp add: counts_def)

lemma release_counts:
  "h_ref h = counts f \<Longrightarrow> 0 < f a \<Longrightarrow>
   release_refcounted (Some a) h = Some (XRP_STATUS_SUCCESS, h\<lparr>h_ref := counts (f(a := f a - 1))\<rparr>)"
  using counts_upd [of f a "f a - 1"] by (simp add: release_refcounted_def) (simp add: counts_def)

lemma alloc_counts:
  "h_ref h = counts f \<Longrightarrow> alloc_refcounted True h =
   (Some (h_next h), h\<lparr>h_ref := counts (f(h_next h := 1)), h_next := h_next h + 1\<rparr>)"
  using counts_upd [of f "h_next h" 1] by (simp add: alloc_refcounted_def)

lemma release_group_counts:
  "h_ref h = counts f \<Longrightarrow> 1 < f g \<Longrightarrow>
   xrp_release_buffer_group sys (Some g) h = Some (XRP_STATUS_SUCCESS, h\<lparr>h_ref := counts (f(g := f g - 1))\<rparr>)"
  by (simp add: xrp_release_buffer_group_def last_counts release_counts)

definition drop_event :: "nat \<Rightarrow> nat \<Rightarrow> (nat \<Rightarrow> nat) \<Rightarrow> nat \<Rightarrow> nat" where
  "drop_event q e f = (if f e = 1 then f(q := f q - 1, e := 0) else f(e := f e - 1))"

lemma release_event_counts:
  assumes f: "h_ref h = counts f" and e: "0 < f e" "e_queue (h_evt h e) = q" "e \<noteq> q" and q: "1 < f q"
  shows "xrp_release_event sys join (Some e) h =
    Some (XRP_STATUS_SUCCESS, h\<lparr>h_ref := counts (drop_event q e f)\<rparr>)"
proof (cases "f e = 1")
  case True
  have "xrp_release_queue sys join (Some q) h = Some (XRP_STATUS_SUCCESS, h\<lparr>h_ref := counts (f(q := f q - 1))\<rparr>)"
    using f q by (simp add: xrp_release_queue_def last_counts release_counts)
  moreover have "release_refcounted (Some e) (h\<lparr>h_ref := counts (f(q := f q - 1))\<rparr>) =
      Some (XRP_STATUS_SUCCESS, h\<lparr>h_ref := counts (f(q := f q - 1, e := 0))\<rparr>)"
    using release_counts [of "h\<lparr>h_ref := counts (f(q := f q - 1))\<rparr>" "f(q := f q - 1)" e] True e by simp
  ultimately show ?thesis using f e True by (simp add: xrp_release_event_def last_counts drop_event_def)
next
  case False
  then show ?thesis using f e by (simp add: xrp_release_event_def last_counts release_counts drop_event_def)
qed

subsection \<open>Who holds references\<close>

text \<open>A submitted command: its request, its group and its event.\<close>

type_synonym ticket = "nat \<times> nat option \<times> nat option"

abbreviation rq_of :: "ticket \<Rightarrow> nat" where
  "rq_of t \<equiv> fst t"

abbreviation grp_of :: "ticket \<Rightarrow> nat option" where
  "grp_of t \<equiv> fst (snd t)"

abbreviation evt_of :: "ticket \<Rightarrow> nat option" where
  "evt_of t \<equiv> snd (snd t)"

definition evts :: "ticket list \<Rightarrow> nat set" where
  "evts ts = {e. \<exists>t\<in>set ts. evt_of t = Some e}"

text \<open>
  \<open>base\<close> are the references that the client holds otherwise, \<open>held\<close> the events it has not released.  A pending command
  refers to its group and its event, and every event refers to the queue.
\<close>

definition refs :: "(nat \<Rightarrow> nat) \<Rightarrow> nat \<Rightarrow> ticket list \<Rightarrow> nat set \<Rightarrow> nat \<Rightarrow> nat" where
  "refs base q ts held a = base a + length (filter (\<lambda>t. grp_of t = Some a) ts) + length (filter (\<lambda>t. evt_of t = Some a) ts) +
     of_bool (a \<in> held) + (if a = q then card (evts ts \<union> held) else 0)"

lemma evts_simps [simp]: "evts [] = {}" "evts (t # ts) = set_option (evt_of t) \<union> evts ts" "evts (ts @ us) = evts ts \<union> evts us"
  by (auto simp: evts_def)

lemma finite_evts [simp]: "finite (evts ts)"
  by (induction ts) auto

lemma no_event: "e \<notin> evts ts \<Longrightarrow> filter (\<lambda>t. evt_of t = Some e) ts = []"
  by (auto simp: evts_def filter_empty_conv)

lemma event_counted: "e \<in> evts ts \<Longrightarrow> 0 < length (filter (\<lambda>t. evt_of t = Some e) ts)"
  by (auto simp: evts_def filter_empty_conv)

lemma refs_submit_plain: "refs base q (ts @ [(r, g, None)]) held =
   (case g of None \<Rightarrow> refs base q ts held | Some x \<Rightarrow> (refs base q ts held)(x := refs base q ts held x + 1))"
  by (auto simp: refs_def fun_eq_iff split: option.split)

lemma refs_submit_event:
  assumes "e \<notin> evts ts \<union> held" "finite held" "base e = 0" "e \<noteq> q" "g \<noteq> Some e" "\<forall>t\<in>set ts. grp_of t \<noteq> Some e"
  shows "refs base q (ts @ [(r, g, Some e)]) (insert e held) =
    (let f = (refs base q ts held)(q := refs base q ts held q + 1, e := 2) in case g of None \<Rightarrow> f | Some x \<Rightarrow> f(x := f x + 1))"
proof -
  have "filter (\<lambda>t. grp_of t = Some e) ts = []" using assms by (auto simp: filter_empty_conv)
  moreover have "card (insert e (evts ts \<union> held)) = card (evts ts \<union> held) + 1" using assms by simp
  ultimately show ?thesis using assms
    by (auto simp: refs_def fun_eq_iff no_event Let_def insert_commute Un_commute split: option.split)
qed

lemma refs_complete_group: "refs base q ((r, g, e) # ts) held =
   (case g of None \<Rightarrow> refs base q ((r, None, e) # ts) held
    | Some x \<Rightarrow> (refs base q ((r, None, e) # ts) held)(x := refs base q ((r, None, e) # ts) held x + 1))"
  by (auto simp: refs_def fun_eq_iff split: option.split)

lemma refs_complete_event:
  assumes "e \<notin> evts ts" "finite held" "base e = 0" "e \<noteq> q" "\<forall>t\<in>set ts. grp_of t \<noteq> Some e"
  shows "drop_event q e (refs base q ((r, None, Some e) # ts) held) = refs base q ts held"
proof -
  have g: "filter (\<lambda>t. grp_of t = Some e) ts = []" using assms by (auto simp: filter_empty_conv)
  show ?thesis
  proof (cases "e \<in> held")
    case True
    then show ?thesis using assms g by (auto simp: refs_def fun_eq_iff no_event drop_event_def insert_absorb)
  next
    case False
    then have "card (insert e (evts ts \<union> held)) = card (evts ts \<union> held) + 1" using assms by simp
    then show ?thesis using assms False g by (auto simp: refs_def fun_eq_iff no_event drop_event_def)
  qed
qed

lemma refs_release_event:
  assumes "e \<in> held" "finite held" "base e = 0" "e \<noteq> q" "\<forall>t\<in>set ts. grp_of t \<noteq> Some e"
  shows "drop_event q e (refs base q ts held) = refs base q ts (held - {e})"
proof -
  have g: "filter (\<lambda>t. grp_of t = Some e) ts = []" using assms by (auto simp: filter_empty_conv)
  show ?thesis
  proof (cases "e \<in> evts ts")
    case True
    then have "evts ts \<union> (held - {e}) = evts ts \<union> held" by auto
    then show ?thesis using assms g event_counted [OF True] by (auto simp: refs_def fun_eq_iff drop_event_def)
  next
    case False
    then have "evts ts \<union> held = insert e (evts ts \<union> (held - {e}))" "e \<notin> evts ts \<union> (held - {e})" using assms by auto
    then have "card (evts ts \<union> held) = card (evts ts \<union> (held - {e})) + 1" using assms by simp
    then show ?thesis using assms False g by (auto simp: refs_def fun_eq_iff no_event drop_event_def)
  qed
qed

subsection \<open>The state between two steps\<close>

text \<open>
  What the client provides: references to the queue, its device, the groups \<open>gs\<close> it uses in commands and their buffers.
\<close>

definition client_ok :: "nat set \<Rightarrow> (nat \<Rightarrow> nat) \<Rightarrow> nat \<Rightarrow> host \<Rightarrow> bool" where
  "client_ok gs base q h \<longleftrightarrow> 0 < base q \<and> \<not> qu_exit (h_que h q) \<and> 0 < base (qu_device (h_que h q)) \<and>
     (\<forall>g\<in>gs. 0 < base g \<and> (\<forall>b\<in>set (g_buffer (h_grp h g)). 0 < base (fst b))) \<and> (\<forall>a. 0 < base a \<longrightarrow> a < h_next h)"

definition ticket_ok :: "nat set \<Rightarrow> host \<Rightarrow> ticket \<Rightarrow> bool" where
  "ticket_ok gs h t \<longleftrightarrow> rq_of t < h_next h \<and> set_option (grp_of t) \<subseteq> gs \<and>
     map_option (\<lambda>x. (r_buffer_group x, r_event x)) (h_rq h (rq_of t)) = Some (snd t)"

definition event_ok :: "(nat \<Rightarrow> nat) \<Rightarrow> nat \<Rightarrow> host \<Rightarrow> nat \<Rightarrow> bool" where
  "event_ok base q h e \<longleftrightarrow> base e = 0 \<and> e < h_next h \<and> e_queue (h_evt h e) = q"

text \<open>\<open>busy\<close> is the command that the worker has taken, if any, \<open>rest\<close> are those in the queue.\<close>

definition host_ok :: "nat set \<Rightarrow> (nat \<Rightarrow> nat) \<Rightarrow> nat \<Rightarrow> host \<Rightarrow> ticket list \<Rightarrow> ticket list \<Rightarrow> nat set \<Rightarrow> bool" where
  "host_ok gs base q h busy rest held \<longleftrightarrow>
     h_ref h = counts (refs base q (busy @ rest) held) \<and> client_ok gs base q h \<and>
     distinct (map fst (busy @ rest)) \<and> (\<forall>t\<in>set (busy @ rest). ticket_ok gs h t) \<and>
     distinct (List.map_filter evt_of (busy @ rest)) \<and> finite held \<and> (\<forall>e\<in>evts (busy @ rest) \<union> held. event_ok base q h e) \<and>
     (\<forall>e\<in>evts (busy @ rest). e_status (h_evt h e) = XRP_STATUS_PENDING) \<and>
     (\<forall>e\<in>held - evts (busy @ rest). e_status (h_evt h e) \<noteq> XRP_STATUS_PENDING) \<and>
     queue_list q h (map fst rest) \<and> (busy \<noteq> [] \<longrightarrow> \<not> h_sync_exit h q)"

lemma map_filter_evts: "set (List.map_filter evt_of ts) = evts ts"
  by (induction ts) (auto simp: List.map_filter_def evts_def)

lemma queue_list_frame:
  "queue_list q h rs \<Longrightarrow> h_que h' q = h_que h q \<Longrightarrow> live h' q \<Longrightarrow> (\<And>x. x \<in> set rs \<Longrightarrow> h_rq h' x = h_rq h x) \<Longrightarrow> queue_list q h' rs"
  using chain_frame [of rs "h_rq h'" "h_rq h"] by (auto simp: queue_list_def)

lemma relinked_ticket:
  "relinked R R' \<Longrightarrow> map_option (\<lambda>x. (r_buffer_group x, r_event x)) (R' y) = map_option (\<lambda>x. (r_buffer_group x, r_event x)) (R y)"
proof -
  assume "relinked R R'"
  then have eq: "map_option (r_next_update (\<lambda>_. None)) (R' y) = map_option (r_next_update (\<lambda>_. None)) (R y)"
    by (simp add: relinked_def)
  have k: "map_option (\<lambda>x. (r_buffer_group x, r_event x)) z =
      map_option (\<lambda>x. (r_buffer_group x, r_event x)) (map_option (r_next_update (\<lambda>_. None)) z)" for z :: "XRP_Host_Native.xrp_request option"
    by (cases z) simp_all
  show ?thesis by (subst (1 2) k) (simp add: eq)
qed

lemma relinked_next: "relinked R R' \<Longrightarrow> R y = Some r \<Longrightarrow> \<exists>n. R' y = Some (r\<lparr>r_next := n\<rparr>)"
proof -
  assume "relinked R R'" "R y = Some r"
  then have "map_option (r_next_update (\<lambda>_. None)) (R' y) = Some (r\<lparr>r_next := None\<rparr>)" by (simp add: relinked_def)
  then obtain x where x: "R' y = Some x" "x\<lparr>r_next := None\<rparr> = r\<lparr>r_next := None\<rparr>" by auto
  have "x = (x\<lparr>r_next := None\<rparr>)\<lparr>r_next := r_next x\<rparr>" by simp
  then have "x = r\<lparr>r_next := r_next x\<rparr>" using x(2) by simp
  then show ?thesis using x(1) by metis
qed

lemma base_event: "client_ok gs base q h \<Longrightarrow> event_ok base q h' e \<Longrightarrow> e \<noteq> q \<and> e \<notin> gs"
  by (auto simp: client_ok_def event_ok_def)

lemma no_group_event:
  "client_ok gs base q h \<Longrightarrow> base e = 0 \<Longrightarrow> \<forall>t\<in>set ts. ticket_ok gs h t \<Longrightarrow> \<forall>t\<in>set ts. grp_of t \<noteq> Some e"
  by (fastforce simp: client_ok_def ticket_ok_def)

lemma same_queue_fields: "same_queue Q Q' \<Longrightarrow> qu_exit Q' = qu_exit Q \<and> qu_device Q' = qu_device Q"
  unfolding same_queue_def by (metis xrp_queue.select_convs xrp_queue.surjective xrp_queue.update_convs)

lemma client_ok_frame:
  assumes "client_ok gs base q h" and "h_next h \<le> h_next h'" and "h_grp h' = h_grp h"
    and "qu_exit (h_que h' q) = qu_exit (h_que h q)" "qu_device (h_que h' q) = qu_device (h_que h q)"
  shows "client_ok gs base q h'"
proof -
  have "a < h_next h'" if "0 < base a" for a
  proof -
    have "a < h_next h" using assms(1) that by (simp add: client_ok_def)
    then show ?thesis using assms(2) by simp
  qed
  then show ?thesis using assms by (simp add: client_ok_def)
qed

lemma refs_pos: "0 < base a \<Longrightarrow> 0 < refs base q ts held a"
  by (simp add: refs_def)

text \<open>Everything but counts, requests, events and the links of the queue is the same.\<close>

definition same_objects :: "nat \<Rightarrow> host \<Rightarrow> host \<Rightarrow> bool" where
  "same_objects q h h' \<longleftrightarrow> h_buf h' = h_buf h \<and> h_grp h' = h_grp h \<and> h_dev h' = h_dev h \<and> same_queue (h_que h q) (h_que h' q)"

lemma take_ok:
  assumes "host_ok gs base q h [] (t # rest) held"
  obtains h' where "xrp_queue_take q h = Some (Took (fst t), h')" "host_ok gs base q h' [t] rest held" "h_evt h' = h_evt h"
    "h_next h' = h_next h" "same_objects q h h'" "h_rq h' = h_rq h" "h_mem h' = h_mem h"
proof -
  let ?h = "h\<lparr>h_sync_exit := (h_sync_exit h)(q := False)\<rparr>"
  have "queue_list q ?h (fst t # map fst rest)" using assms by (auto simp: host_ok_def queue_list_def live_def)
  then obtain Q where Q: "xrp_dequeue_request q ?h = Some (Some (fst t), ?h\<lparr>h_que := (h_que ?h)(q := Q)\<rparr>)"
      "queue_list q (?h\<lparr>h_que := (h_que ?h)(q := Q)\<rparr>) (map fst rest)" "same_queue (h_que ?h q) Q"
    by (rule dequeue_request_list)
  have "qu_exit Q = qu_exit (h_que h q)" "qu_device Q = qu_device (h_que h q)"
    using same_queue_fields [OF Q(3)] by auto
  with assms Q show ?thesis
    by (intro that [of "?h\<lparr>h_que := (h_que ?h)(q := Q)\<rparr>"])
      (auto simp: xrp_queue_take_def host_ok_def client_ok_def ticket_ok_def event_ok_def same_objects_def)
qed

lemma take_waits:
  assumes "host_ok gs base q h [] [] held"
  obtains h' where "xrp_queue_take q h = Some (Take_waits, h')" "host_ok gs base q h' [] [] held" "h_evt h' = h_evt h"
    "h_next h' = h_next h"
proof -
  let ?h = "h\<lparr>h_sync_exit := (h_sync_exit h)(q := False)\<rparr>"
  have "queue_list q ?h []" using assms by (auto simp: host_ok_def queue_list_def live_def)
  then show ?thesis using assms
    by (intro that [of ?h]) (auto simp: xrp_queue_take_def dequeue_request_empty host_ok_def client_ok_def event_ok_def)
qed

lemma ioctl_buffers_live: "\<forall>b\<in>set rs. live h (fst b) \<Longrightarrow> \<exists>bs. ioctl_buffers rs h = Some bs"
  by (induction rs) auto

lemma ticket_request:
  "ticket_ok gs h t \<Longrightarrow> \<exists>x. h_rq h (fst t) = Some x \<and> r_buffer_group x = grp_of t \<and> r_event x = evt_of t"
  by (cases t) (auto simp: ticket_ok_def)

lemma command_ok:
  assumes ok: "host_ok gs base q h [t] rest held"
  obtains st m where "xrp_queue_run sys q (fst t) h = Some (st, h\<lparr>h_mem := m\<rparr>)" "st \<noteq> XRP_STATUS_PENDING"
    "host_ok gs base q (h\<lparr>h_mem := m\<rparr>) [t] rest held"
proof -
  let ?f = "refs base q ([t] @ rest) held"
  have f: "h_ref h = counts ?f" and cl: "client_ok gs base q h" and tk: "ticket_ok gs h t" using ok by (auto simp: host_ok_def)
  obtain x where x: "h_rq h (fst t) = Some x" "r_buffer_group x = grp_of t" using ticket_request [OF tk] by blast
  have lv: "live h a" if "0 < base a" for a using live_counts [OF f] refs_pos [of base a] that by simp
  let ?rs = "case grp_of t of Some g \<Rightarrow> g_buffer (h_grp h g) | None \<Rightarrow> []"
  have "\<forall>b\<in>set ?rs. live h (fst b)"
  proof (cases "grp_of t")
    case (Some g)
    then have "g \<in> gs" using tk by (simp add: ticket_ok_def)
    then show ?thesis using cl lv Some by (simp add: client_ok_def)
  qed simp
  then obtain bs where bs: "ioctl_buffers ?rs h = Some bs" using ioctl_buffers_live by blast
  have "pred_option (live h) (grp_of t)" "live h q" "live h (qu_device (h_que h q))"
    using cl tk lv by (cases "grp_of t"; simp add: client_ok_def ticket_ok_def)+
  then have "\<exists>st m. xrp_queue_run sys q (fst t) h = Some (st, h\<lparr>h_mem := m\<rparr>) \<and> st \<noteq> XRP_STATUS_PENDING"
    using x bs
    by (cases bs) (simp add: xrp_queue_run_def xrp_run_command_def exI [of _ "h_mem h"],
      simp add: xrp_queue_run_def xrp_run_command_def case_prod_beta Let_def, blast)
  moreover have "host_ok gs base q (h\<lparr>h_mem := m\<rparr>) [t] rest held" for m
    using ok by (auto simp: host_ok_def client_ok_def ticket_ok_def event_ok_def queue_list_def live_def)
  ultimately show ?thesis using that by blast
qed

lemma release_ok:
  assumes ok: "host_ok gs base q h busy rest held" and e: "e \<in> held"
  obtains h' where "xrp_release_event sys join (Some e) h = Some (XRP_STATUS_SUCCESS, h')"
    "host_ok gs base q h' busy rest (held - {e})" "h_evt h' = h_evt h" "h_next h' = h_next h" "h_mem h' = h_mem h"
proof -
  let ?ts = "busy @ rest"
  let ?f = "refs base q ?ts held"
  have f: "h_ref h = counts ?f" and cl: "client_ok gs base q h" and fin: "finite held" and ev: "event_ok base q h e"
    and tk: "\<forall>t\<in>set ?ts. ticket_ok gs h t" using ok e by (auto simp: host_ok_def)
  have ne: "e \<noteq> q" and b0: "base e = 0" using base_event [OF cl ev] ev by (auto simp: event_ok_def)
  have "0 < card (evts ?ts \<union> held)" using e fin by (auto simp: card_gt_0_iff)
  then have q: "1 < ?f q" using cl by (simp add: refs_def client_ok_def)
  have pe: "0 < ?f e" using e by (simp add: refs_def)
  let ?h = "h\<lparr>h_ref := counts (refs base q ?ts (held - {e}))\<rparr>"
  have "xrp_release_event sys join (Some e) h = Some (XRP_STATUS_SUCCESS, ?h)"
    using release_event_counts [OF f pe _ ne q] ev refs_release_event [where base = base, OF e fin b0 ne no_group_event [OF cl b0 tk]]
    by (simp add: event_ok_def)
  moreover have "0 < refs base q ?ts (held - {e}) q" using cl refs_pos by (simp add: client_ok_def)
  then have "host_ok gs base q ?h busy rest (held - {e})"
    using ok by (auto simp: host_ok_def client_ok_def ticket_ok_def event_ok_def queue_list_def live_def counts_def)
  ultimately show ?thesis by (intro that [of ?h]) simp_all
qed

lemma refs_plain [simp]: "refs base q ((r, None, None) # ts) held = refs base q ts held"
  by (simp add: refs_def fun_eq_iff)

lemma complete_group_ok:
  assumes f: "h_ref h = counts (refs base q ((r, g, e) # ts) held)" and g: "\<forall>x\<in>set_option g. 0 < base x"
  shows "(case g of Some x \<Rightarrow> map_option snd (xrp_release_buffer_group sys (Some x) h) | None \<Rightarrow> Some h) =
    Some (h\<lparr>h_ref := counts (refs base q ((r, None, e) # ts) held)\<rparr>)"
proof (cases g)
  case (Some x)
  let ?f = "refs base q ((r, g, e) # ts) held"
  let ?k = "refs base q ((r, None, e) # ts) held"
  have k: "?f = ?k(x := ?k x + 1)" using refs_complete_group [of base q r g e ts held] Some by simp
  have "0 < ?k x" using g Some refs_pos by simp
  then have "1 < ?f x" by (simp add: k)
  moreover have "?f(x := ?f x - 1) = ?k" by (simp add: k)
  ultimately show ?thesis using release_group_counts [OF f, of x sys] Some by simp
qed (use f in simp)

lemma completed_events:
  fixes E E' :: "nat \<Rightarrow> xrp_event"
  assumes E': "E' = (case eo of None \<Rightarrow> E | Some e \<Rightarrow> E(e := (E e)\<lparr>e_status := s\<rparr>))"
  shows "e_queue (E' e) = e_queue (E e)" and "e \<notin> set_option eo \<Longrightarrow> E' e = E e" and "e \<in> set_option eo \<Longrightarrow> e_status (E' e) = s"
  by (cases eo; simp add: E')+

lemma completed_state:
  assumes ok: "host_ok gs base q h [(r, g, eo)] rest held" and s: "s \<noteq> XRP_STATUS_PENDING"
  shows "host_ok gs base q (h\<lparr>h_ref := counts (refs base q rest held),
    h_evt := (case eo of None \<Rightarrow> h_evt h | Some e \<Rightarrow> (h_evt h)(e := (h_evt h e)\<lparr>e_status := s\<rparr>)),
    h_rq := (h_rq h)(r := None)\<rparr>) [] rest held"
proof -
  define E' where "E' = (case eo of None \<Rightarrow> h_evt h | Some e \<Rightarrow> (h_evt h)(e := (h_evt h e)\<lparr>e_status := s\<rparr>))"
  note E = completed_events [OF E'_def]
  let ?h = "h\<lparr>h_ref := counts (refs base q rest held), h_evt := E', h_rq := (h_rq h)(r := None)\<rparr>"
  have cl: "client_ok gs base q h" and ql: "queue_list q h (map fst rest)" and r: "r \<notin> fst ` set rest"
    and tk: "\<forall>t\<in>set rest. ticket_ok gs h t" and d: "distinct (map fst rest)" and fin: "finite held"
    using ok by (simp_all add: host_ok_def)
  have ev: "distinct (List.map_filter evt_of rest)" "\<forall>e\<in>set_option eo. e \<notin> evts rest"
    using ok map_filter_evts [of rest] by (cases eo; simp add: host_ok_def List.map_filter_simps)+
  have eq: "\<forall>e\<in>evts rest \<union> held. event_ok base q h e" and pe: "\<forall>e\<in>evts rest. e_status (h_evt h e) = XRP_STATUS_PENDING"
    and np: "\<forall>e\<in>held - (set_option eo \<union> evts rest). e_status (h_evt h e) \<noteq> XRP_STATUS_PENDING"
    using ok by (simp_all add: host_ok_def)
  have "live ?h q" using cl refs_pos [of base q q rest held] by (simp add: live_def counts_def client_ok_def)
  then have "queue_list q ?h (map fst rest)" using r by (intro queue_list_frame [OF ql]) auto
  moreover have "\<forall>t\<in>set rest. ticket_ok gs ?h t"
  proof
    fix t assume t: "t \<in> set rest"
    then have "fst t \<noteq> r" using r by blast
    then show "ticket_ok gs ?h t" using tk t by (simp add: ticket_ok_def)
  qed
  moreover have "\<forall>e\<in>evts rest \<union> held. event_ok base q ?h e" using eq by (simp add: event_ok_def E(1))
  moreover have "\<forall>e\<in>evts rest. e_status (E' e) = XRP_STATUS_PENDING"
  proof
    fix e assume "e \<in> evts rest"
    then have "e \<notin> set_option eo" using ev(2) by blast
    then show "e_status (E' e) = XRP_STATUS_PENDING" using pe \<open>e \<in> evts rest\<close> E(2) by simp
  qed
  moreover have "\<forall>e\<in>held - evts rest. e_status (E' e) \<noteq> XRP_STATUS_PENDING"
  proof
    fix e assume "e \<in> held - evts rest"
    then show "e_status (E' e) \<noteq> XRP_STATUS_PENDING" using np s E(2,3) [of e] by (cases "e \<in> set_option eo") simp_all
  qed
  moreover have "client_ok gs base q ?h" using cl by (simp add: client_ok_def)
  ultimately show ?thesis unfolding E'_def [symmetric] using d ev(1) fin by (simp add: host_ok_def)
qed

lemma complete_ok:
  assumes ok: "host_ok gs base q h [t] rest held" and s: "s \<noteq> XRP_STATUS_PENDING"
  obtains h' where "xrp_queue_complete sys q (fst t) s h = Some (True, h')" "host_ok gs base q h' [] rest held"
    "h_evt h' = (case evt_of t of None \<Rightarrow> h_evt h | Some e \<Rightarrow> (h_evt h)(e := (h_evt h e)\<lparr>e_status := s\<rparr>))"
    "h_next h' = h_next h" "h_mem h' = h_mem h"
proof -
  obtain r g eo where t: "t = (r, g, eo)" by (cases t)
  let ?E = "case eo of None \<Rightarrow> h_evt h | Some e \<Rightarrow> (h_evt h)(e := (h_evt h e)\<lparr>e_status := s\<rparr>)"
  let ?h = "h\<lparr>h_ref := counts (refs base q rest held), h_evt := ?E, h_rq := (h_rq h)(r := None)\<rparr>"
  have f: "h_ref h = counts (refs base q ((r, g, eo) # rest) held)" and cl: "client_ok gs base q h" and fin: "finite held"
    and tk: "ticket_ok gs h t" "\<forall>t\<in>set rest. ticket_ok gs h t" and sy: "\<not> h_sync_exit h q"
    using ok by (simp_all add: host_ok_def t)
  have new: "\<forall>e\<in>set_option eo. e \<notin> evts rest \<and> event_ok base q h e"
    using ok map_filter_evts [of rest] by (cases eo) (simp_all add: host_ok_def t List.map_filter_simps)
  obtain x where x: "h_rq h r = Some x" "r_buffer_group x = g" "r_event x = eo" using ticket_request [OF tk(1)] by (auto simp: t)
  have g: "\<forall>x\<in>set_option g. 0 < base x" using cl tk(1) by (auto simp: client_ok_def ticket_ok_def t)
  let ?k = "refs base q ((r, None, eo) # rest) held"
  have "xrp_queue_complete sys q r s h = Some (True, ?h)"
  proof (cases eo)
    case None
    then show ?thesis using complete_group_ok [OF f g, of sys] x sy
      by (simp add: xrp_queue_complete_def)
  next
    case (Some e)
    have ev: "e \<notin> evts rest" "event_ok base q h e" and ne: "e \<noteq> q" and b0: "base e = 0" using new Some base_event [OF cl] by (auto simp: event_ok_def)
    have pe: "0 < ?k e" using Some by (simp add: refs_def)
    have "0 < card (insert e (evts rest \<union> held))" using fin by (simp add: card_gt_0_iff)
    then have kq: "1 < ?k q" using cl Some by (simp add: refs_def client_ok_def)
    let ?h1 = "h\<lparr>h_ref := counts ?k, h_evt := ?E\<rparr>"
    have "xrp_release_event sys self_join (Some e) ?h1 = Some (XRP_STATUS_SUCCESS, ?h1\<lparr>h_ref := counts (refs base q rest held)\<rparr>)"
      using release_event_counts [of ?h1 ?k e q sys self_join] pe ne kq ev(2) Some
        refs_complete_event [where base = base, OF ev(1) fin b0 ne no_group_event [OF cl b0 tk(2)], of r]
      by (simp add: event_ok_def)
    moreover have "live (h\<lparr>h_ref := counts ?k\<rparr>) e" using pe by (simp add: live_def counts_def)
    ultimately show ?thesis using complete_group_ok [OF f g, of sys] x sy Some
      by (simp add: xrp_queue_complete_def)
  qed
  moreover have "host_ok gs base q ?h [] rest held" by (rule completed_state [OF ok [unfolded t] s])
  ultimately show ?thesis by (intro that [of ?h]) (simp_all add: t)
qed

subsection \<open>Submission\<close>

definition add_group :: "nat option \<Rightarrow> (nat \<Rightarrow> nat) \<Rightarrow> nat \<Rightarrow> nat" where
  "add_group g f = (case g of None \<Rightarrow> f | Some x \<Rightarrow> f(x := f x + 1))"

lemma submit_request_ok:
  assumes f: "h_ref h = counts f" and q: "queue_list q h xs" "0 < f q" and x: "x \<notin> set xs" and g: "\<forall>y\<in>set_option (r_buffer_group r). 0 < f y"
  obtains R Q where "submit_request (Some q) x r h =
      Some (h\<lparr>h_ref := counts (add_group (r_buffer_group r) f), h_rq := R, h_que := (h_que h)(q := Q)\<rparr>)"
    "queue_list q (h\<lparr>h_ref := counts (add_group (r_buffer_group r) f), h_rq := R, h_que := (h_que h)(q := Q)\<rparr>) (xs @ [x])"
    "relinked ((h_rq h)(x \<mapsto> r)) R" "same_queue (h_que h q) Q"
proof -
  let ?f = "add_group (r_buffer_group r) f"
  let ?h = "h\<lparr>h_ref := counts ?f, h_rq := (h_rq h)(x \<mapsto> r)\<rparr>"
  have ret: "(case r_buffer_group r of None \<Rightarrow> Some h | Some g \<Rightarrow> map_option snd (xrp_retain_buffer_group (Some g) h)) =
      Some (h\<lparr>h_ref := counts ?f\<rparr>)"
    using f g by (cases "r_buffer_group r") (simp_all add: add_group_def xrp_retain_buffer_group_def retain_counts)
  have "0 < ?f q" using q(2) by (simp add: add_group_def split: option.split)
  then have "live ?h q" by (simp add: live_def counts_def)
  then have "queue_list q ?h xs" using x by (intro queue_list_frame [OF q(1)]) auto
  then obtain R Q where "xrp_enqueue_request q x ?h = Some (?h\<lparr>h_rq := R, h_que := (h_que ?h)(q := Q)\<rparr>)"
      "queue_list q (?h\<lparr>h_rq := R, h_que := (h_que ?h)(q := Q)\<rparr>) (xs @ [x])" "relinked (h_rq ?h) R" "same_queue (h_que ?h q) Q"
    by (rule enqueue_request_list [where x = x and r = r]) (use x in simp_all)
  then show ?thesis by (intro that [where R = R and Q = Q]) (simp_all add: submit_request_def ret)
qed

lemma fresh_request:
  assumes tk: "\<forall>t\<in>set ts. ticket_ok gs h t"
  shows "h_next h \<notin> fst ` set ts"
proof
  assume "h_next h \<in> fst ` set ts"
  then obtain t where "t \<in> set ts" "fst t = h_next h" by (metis imageE)
  moreover from this(1) have "ticket_ok gs h t" using tk by blast
  ultimately show False by (simp add: ticket_ok_def)
qed

text \<open>The state after a submission, whose event is \<open>eo\<close>.\<close>

lemma submitted_state:
  assumes ok: "host_ok gs base q h busy rest held" and g: "set_option g \<subseteq> gs"
    and eo: "set_option eo \<subseteq> {h_next h + 1}"
    and ref: "h_ref h' = counts (refs base q (busy @ rest @ [(h_next h, g, eo)]) (held \<union> set_option eo))"
    and que: "queue_list q h' (map fst (rest @ [(h_next h, g, eo)]))" "same_queue (h_que h q) (h_que h' q)"
    and rq: "relinked ((h_rq h)(h_next h \<mapsto> r)) (h_rq h')" "r_buffer_group r = g" "r_event r = eo"
    and ev: "h_evt h' = (case eo of None \<Rightarrow> h_evt h | Some e \<Rightarrow> (h_evt h)(e := \<lparr>e_queue = q, e_status = XRP_STATUS_PENDING\<rparr>))"
    and frame: "h_grp h' = h_grp h" "h_sync_exit h' = h_sync_exit h" "h_next h + 1 + card (set_option eo) \<le> h_next h'"
  shows "host_ok gs base q h' busy (rest @ [(h_next h, g, eo)]) (held \<union> set_option eo)"
proof -
  let ?t = "(h_next h, g, eo)"
  let ?ts = "busy @ rest"
  have cl: "client_ok gs base q h" and tk: "\<forall>t\<in>set ?ts. ticket_ok gs h t" and eq: "\<forall>e\<in>evts ?ts \<union> held. event_ok base q h e"
    and pe: "\<forall>e\<in>evts ?ts. e_status (h_evt h e) = XRP_STATUS_PENDING"
    and np: "\<forall>e\<in>held - evts ?ts. e_status (h_evt h e) \<noteq> XRP_STATUS_PENDING"
    and d: "distinct (map fst ?ts)" "distinct (List.map_filter evt_of ?ts)" and fin: "finite held" and sy: "busy \<noteq> [] \<longrightarrow> \<not> h_sync_exit h q"
    using ok by (simp_all add: host_ok_def)
  have old: "e \<notin> set_option eo" if "event_ok base q h e" for e using that eo by (auto simp: event_ok_def)
  have E: "h_evt h' e = h_evt h e" if "event_ok base q h e" for e using old [OF that] ev by (cases eo) auto
  have nx: "h_next h < h_next h'" "\<forall>e\<in>set_option eo. e < h_next h'" using frame(3) eo by (cases eo; auto)+
  have "client_ok gs base q h'" using same_queue_fields [OF que(2)] frame(1) nx(1) by (intro client_ok_frame [OF cl]) simp_all
  moreover have "ticket_ok gs h' t" if "t \<in> set ?ts" for t
  proof -
    have "ticket_ok gs h t" using tk that by blast
    then show ?thesis using relinked_ticket [OF rq(1), of "fst t"] nx(1) by (simp add: ticket_ok_def)
  qed
  moreover have "ticket_ok gs h' ?t" using relinked_ticket [OF rq(1), of "h_next h"] rq(2,3) nx(1) g by (simp add: ticket_ok_def)
  moreover have "h_next h \<notin> fst ` set ?ts" by (rule fresh_request [OF tk])
  moreover have "event_ok base q h' e" if "e \<in> evts ?ts \<union> held" for e
    using bspec [OF eq that] E nx(1) by (simp add: event_ok_def)
  moreover have "\<forall>e\<in>set_option eo. base e = 0" using cl eo by (fastforce simp: client_ok_def)
  then have "\<forall>e\<in>set_option eo. event_ok base q h' e \<and> e_status (h_evt h' e) = XRP_STATUS_PENDING"
    using nx(2) ev by (cases eo) (auto simp: event_ok_def)
  moreover have "\<forall>e\<in>set_option eo. e \<notin> evts ?ts" using eq old by blast
  moreover have "\<forall>e\<in>evts ?ts. e_status (h_evt h' e) = XRP_STATUS_PENDING" using pe eq E by simp
  moreover have "\<forall>e\<in>held - evts ?ts. e_status (h_evt h' e) \<noteq> XRP_STATUS_PENDING" using np eq E by simp
  moreover have "distinct (List.map_filter evt_of (?ts @ [?t]))"
    using d(2) \<open>\<forall>e\<in>set_option eo. e \<notin> evts ?ts\<close> map_filter_evts [of ?ts] by (cases eo) (auto simp: List.map_filter_def)
  ultimately show ?thesis using ref que(1) d(1) fin sy frame(2) by (auto simp: host_ok_def)
qed

lemma command_event_ok:
  assumes f: "h_ref h = counts f" and q: "0 < f q" "q \<noteq> h_next h" and eo: "eo = (if evt then Some (h_next h) else None)"
  shows "command_event True (Some q) evt h = Some (eo, XRP_STATUS_SUCCESS,
    h\<lparr>h_ref := counts (if evt then f(h_next h := 2, q := f q + 1) else f), h_next := h_next h + of_bool evt,
      h_evt := (case eo of None \<Rightarrow> h_evt h | Some e \<Rightarrow> (h_evt h)(e := \<lparr>e_queue = q, e_status = XRP_STATUS_PENDING\<rparr>))\<rparr>)"
proof (cases evt)
  case False
  then show ?thesis using f eo by (simp add: command_event_def)
next
  case True
  let ?e = "h_next h"
  let ?h1 = "h\<lparr>h_ref := counts (f(?e := 1)), h_next := ?e + 1\<rparr>"
  let ?h2 = "?h1\<lparr>h_ref := counts (f(?e := 1, q := f q + 1)), h_evt := (h_evt h)(?e := \<lparr>e_queue = q, e_status = XRP_STATUS_PENDING\<rparr>)\<rparr>"
  have "f(?e := 1, q := f q + 1, ?e := 2) = f(?e := 2, q := f q + 1)" using q by (auto simp: fun_eq_iff)
  then have "xrp_retain_event (Some ?e) ?h2 = Some (XRP_STATUS_SUCCESS, ?h2\<lparr>h_ref := counts (f(?e := 2, q := f q + 1))\<rparr>)"
    using retain_counts [of ?h2 "f(?e := 1, q := f q + 1)" ?e] q by (simp add: xrp_retain_event_def numeral_2_eq_2)
  moreover have "xrp_retain_queue (Some q) ?h1 = Some (XRP_STATUS_SUCCESS, ?h1\<lparr>h_ref := counts (f(?e := 1, q := f q + 1))\<rparr>)"
    using retain_counts [of ?h1 "f(?e := 1)" q] q by (simp add: xrp_retain_queue_def)
  ultimately show ?thesis using True eo alloc_counts [OF f] by (simp add: command_event_def)
qed

lemma submit_ok:
  assumes ok: "host_ok gs base q h busy rest held" and g: "set_option g \<subseteq> gs" and mem: "in_sz = 0 \<or> copy \<noteq> None"
    and eo: "eo = (if evt then Some (h_next h + 1) else None)"
  obtains h' where "xrp_enqueue_command True copy True (Some q) in_data in_sz out_data out_sz g evt h = Some (eo, XRP_STATUS_SUCCESS, h')"
    "host_ok gs base q h' busy (rest @ [(h_next h, g, eo)]) (held \<union> set_option eo)"
    "\<And>e. e < h_next h \<Longrightarrow> h_evt h' e = h_evt h e" "h_next h \<le> h_next h'" "same_objects q h h'"
    "h_mem h' = write_bytes (h_mem h) (case copy of Some p \<Rightarrow> p | None \<Rightarrow> 0) (read_bytes (h_mem h) in_data (unat in_sz))"
    "\<exists>n. h_rq h' (h_next h) = Some \<lparr>r_next = n, r_in_data = (case copy of Some p \<Rightarrow> p | None \<Rightarrow> 0), r_out_data = out_data,
       r_in_data_size = in_sz, r_out_data_size = out_sz, r_buffer_group = g, r_event = eo\<rparr>"
proof -
  let ?ts = "busy @ rest"
  let ?f = "refs base q ?ts held"
  have f: "h_ref h = counts ?f" and cl: "client_ok gs base q h" and ql: "queue_list q h (map fst rest)" and fin: "finite held"
    and tk: "\<forall>t\<in>set ?ts. ticket_ok gs h t" and eq: "\<forall>e\<in>evts ?ts \<union> held. event_ok base q h e"
    using ok by (simp_all add: host_ok_def)
  have x: "h_next h \<notin> set (map fst rest)" using fresh_request [OF tk] by (simp add: image_Un)
  have gp: "\<forall>y\<in>set_option g. 0 < base y" and bq: "0 < base q" using cl g by (auto simp: client_ok_def)
  define c where "c = (case copy of Some p \<Rightarrow> p | None \<Rightarrow> 0)"
  define r where "r = \<lparr>r_next = None, r_in_data = c, r_out_data = out_data, r_in_data_size = in_sz,
    r_out_data_size = out_sz, r_buffer_group = g, r_event = eo\<rparr>"
  define M where "M = write_bytes (h_mem h) c (read_bytes (h_mem h) in_data (unat in_sz))"
  define F where "F = (if evt then ?f(h_next h + 1 := 2, q := ?f q + 1) else ?f)"
  define E where "E = (case eo of None \<Rightarrow> h_evt h | Some e \<Rightarrow> (h_evt h)(e := \<lparr>e_queue = q, e_status = XRP_STATUS_PENDING\<rparr>))"
  let ?h = "h\<lparr>h_ref := counts F, h_next := h_next h + (if evt then 2 else 1), h_mem := M, h_evt := E\<rparr>"
  have qn: "q < h_next h" using cl by (simp add: client_ok_def)
  have pos: "0 < F a" if "0 < base a" for a using that by (simp add: F_def refs_def)
  have "live ?h q" using pos [OF bq] by (simp add: live_def counts_def)
  then have "queue_list q ?h (map fst rest)" by (intro queue_list_frame [OF ql]) auto
  then obtain R Q where sub: "submit_request (Some q) (h_next h) r ?h =
        Some (?h\<lparr>h_ref := counts (add_group (r_buffer_group r) F), h_rq := R, h_que := (h_que ?h)(q := Q)\<rparr>)"
      "queue_list q (?h\<lparr>h_ref := counts (add_group (r_buffer_group r) F), h_rq := R, h_que := (h_que ?h)(q := Q)\<rparr>) (map fst rest @ [h_next h])"
      "relinked ((h_rq ?h)(h_next h \<mapsto> r)) R" "same_queue (h_que ?h q) Q"
    by (rule submit_request_ok [where f = F and r = r and x = "h_next h", rotated]) (use pos bq x gp in \<open>simp_all add: r_def\<close>)
  let ?h' = "?h\<lparr>h_ref := counts (add_group g F), h_rq := R, h_que := (h_que ?h)(q := Q)\<rparr>"
  have rg: "r_buffer_group r = g" by (simp add: r_def)
  have "command_event True (Some q) evt (h\<lparr>h_next := h_next h + 1, h_mem := M\<rparr>) = Some (eo, XRP_STATUS_SUCCESS, ?h)"
    using command_event_ok [of "h\<lparr>h_next := h_next h + 1, h_mem := M\<rparr>" ?f q eo evt] f qn refs_pos [of base q q ?ts held] bq eo
    by (simp add: F_def E_def)
  then have res: "xrp_enqueue_command True copy True (Some q) in_data in_sz out_data out_sz g evt h = Some (eo, XRP_STATUS_SUCCESS, ?h')"
    using sub(1) mem unfolding xrp_enqueue_command_def Let_def c_def [symmetric] M_def [symmetric]
    by (auto simp: r_def)
  have hok: "host_ok gs base q ?h' busy (rest @ [(h_next h, g, eo)]) (held \<union> set_option eo)"
  proof (rule submitted_state [OF ok g])
    show "h_ref ?h' = counts (refs base q (busy @ rest @ [(h_next h, g, eo)]) (held \<union> set_option eo))"
    proof (cases evt)
      case False
      then show ?thesis using refs_submit_plain [of base q ?ts "h_next h" g held] eo by (simp add: add_group_def F_def)
    next
      case True
      let ?e = "h_next h + 1"
      have b0: "base ?e = 0" using cl by (fastforce simp: client_ok_def)
      have "?e \<notin> evts ?ts \<union> held"
      proof
        assume "?e \<in> evts ?ts \<union> held"
        then have "event_ok base q h ?e" using eq by blast
        then show False by (simp add: event_ok_def)
      qed
      moreover have "g \<noteq> Some ?e" using gp b0 by auto
      ultimately show ?thesis
        using refs_submit_event [where base = base and r = "h_next h", OF _ fin b0 _ _ no_group_event [OF cl b0 tk], of q g] qn True eo
        by (simp add: add_group_def F_def Let_def fun_upd_twist)
    qed
    show "relinked ((h_rq h)(h_next h \<mapsto> r)) (h_rq ?h')" "r_event r = eo" "queue_list q ?h' (map fst (rest @ [(h_next h, g, eo)]))"
      using sub rg by (simp_all add: r_def)
    show "h_evt ?h' = (case eo of None \<Rightarrow> h_evt h | Some e \<Rightarrow> (h_evt h)(e := \<lparr>e_queue = q, e_status = XRP_STATUS_PENDING\<rparr>))"
      by (simp add: E_def)
    show "set_option eo \<subseteq> {h_next h + 1}" "h_next h + 1 + card (set_option eo) \<le> h_next ?h'" by (simp_all add: eo)
  qed (use sub(4) rg in simp_all)
  have obj: "same_objects q h ?h'" using sub(4) by (simp add: same_objects_def)
  have mm: "h_mem ?h' = M" by simp
  have "\<exists>n. R (h_next h) = Some (r\<lparr>r_next := n\<rparr>)" using relinked_next [OF sub(3), of "h_next h" r] by simp
  then have req: "\<exists>n. h_rq ?h' (h_next h) = Some \<lparr>r_next = n, r_in_data = c, r_out_data = out_data,
       r_in_data_size = in_sz, r_out_data_size = out_sz, r_buffer_group = g, r_event = eo\<rparr>" by (simp add: r_def)
  have evs: "h_evt ?h' e = h_evt h e" if "e < h_next h" for e using that by (simp add: E_def eo)
  have nxt: "h_next h \<le> h_next ?h'" by simp
  show ?thesis by (rule that [of ?h', unfolded c_def [symmetric] M_def [symmetric], OF res hok evs nxt obj mm req])
qed

text \<open>A submission that cannot allocate what it needs changes nothing that matters.\<close>

lemma enqueue_outcome:
  "xrp_enqueue_command rq_ok copy calloc_ok queue in_data in_sz out_data out_sz g evt h =
    (if \<not> rq_ok \<or> in_sz \<noteq> 0 \<and> copy = None then Some (None, XRP_STATUS_FAILURE, h)
     else if evt \<and> \<not> calloc_ok then Some (None, XRP_STATUS_FAILURE, h\<lparr>h_next := h_next h + 1,
       h_mem := write_bytes (h_mem h) (case copy of Some p \<Rightarrow> p | None \<Rightarrow> 0) (read_bytes (h_mem h) in_data (unat in_sz))\<rparr>)
     else xrp_enqueue_command True copy True queue in_data in_sz out_data out_sz g evt h)"
  by (simp add: xrp_enqueue_command_def command_event_def alloc_refcounted_def Let_def)

lemma grow_ok:
  assumes "host_ok gs base q h busy rest held" and "h_next h \<le> n"
  shows "host_ok gs base q (h\<lparr>h_next := n, h_mem := m\<rparr>) busy rest held"
proof -
  have "client_ok gs base q (h\<lparr>h_next := n, h_mem := m\<rparr>)" if "client_ok gs base q h"
    using that assms(2) by (intro client_ok_frame [OF that]) simp_all
  moreover have "ticket_ok gs (h\<lparr>h_next := n, h_mem := m\<rparr>) t" if "ticket_ok gs h t" for t
    using that assms(2) by (simp add: ticket_ok_def)
  moreover have "event_ok base q (h\<lparr>h_next := n, h_mem := m\<rparr>) e" if "event_ok base q h e" for e
    using that assms(2) by (simp add: event_ok_def)
  moreover have "queue_list q (h\<lparr>h_next := n, h_mem := m\<rparr>) rs" if "queue_list q h rs" for rs
    using that by (simp add: queue_list_def live_def)
  ultimately show ?thesis using assms(1) by (simp add: host_ok_def)
qed

subsection \<open>Steps of client and worker\<close>

datatype phase = Idle | Taken nat | Ran nat xrp_status

text \<open>
  The host with the place at which the worker is, the commands submitted and the requests completed so far, with
  their results, and the events that the client has not released.
\<close>

record run =
  w_host :: host
  w_phase :: phase
  w_sub :: "ticket list"
  w_done :: "(nat \<times> xrp_status) list"
  w_held :: "nat set"

inductive host_step :: "sys \<Rightarrow> nat set \<Rightarrow> nat \<Rightarrow> run \<Rightarrow> run \<Rightarrow> bool" for sys gs q where
  submit: "xrp_enqueue_command rq_ok copy calloc_ok (Some q) in_data in_sz out_data out_sz g evt (w_host w) =
      Some (e, XRP_STATUS_SUCCESS, h) \<Longrightarrow> set_option g \<subseteq> gs \<Longrightarrow>
    host_step sys gs q w (w\<lparr>w_host := h, w_sub := w_sub w @ [(h_next (w_host w), g, e)], w_held := w_held w \<union> set_option e\<rparr>)"
| refuse: "xrp_enqueue_command rq_ok copy calloc_ok (Some q) in_data in_sz out_data out_sz g evt (w_host w) =
      Some (e, XRP_STATUS_FAILURE, h) \<Longrightarrow> set_option g \<subseteq> gs \<Longrightarrow> host_step sys gs q w (w\<lparr>w_host := h\<rparr>)"
| release: "e \<in> w_held w \<Longrightarrow> xrp_release_event sys (client_join sys) (Some e) (w_host w) = Some (s, h) \<Longrightarrow>
    host_step sys gs q w (w\<lparr>w_host := h, w_held := w_held w - {e}\<rparr>)"
| take: "w_phase w = Idle \<Longrightarrow> xrp_queue_take q (w_host w) = Some (Took rq, h) \<Longrightarrow>
    host_step sys gs q w (w\<lparr>w_host := h, w_phase := Taken rq\<rparr>)"
| waits: "w_phase w = Idle \<Longrightarrow> xrp_queue_take q (w_host w) = Some (Take_waits, h) \<Longrightarrow> host_step sys gs q w (w\<lparr>w_host := h\<rparr>)"
| run: "w_phase w = Taken rq \<Longrightarrow> xrp_queue_run sys q rq (w_host w) = Some (s, h) \<Longrightarrow>
    host_step sys gs q w (w\<lparr>w_host := h, w_phase := Ran rq s\<rparr>)"
| complete: "w_phase w = Ran rq s \<Longrightarrow> xrp_queue_complete sys q rq s (w_host w) = Some (c, h) \<Longrightarrow>
    host_step sys gs q w (w\<lparr>w_host := h, w_phase := Idle, w_done := w_done w @ [(rq, s)]\<rparr>)"

definition host_start :: "nat set \<Rightarrow> (nat \<Rightarrow> nat) \<Rightarrow> nat \<Rightarrow> run \<Rightarrow> bool" where
  "host_start gs base q w \<longleftrightarrow> h_ref (w_host w) = counts base \<and> client_ok gs base q (w_host w) \<and>
     qu_head (h_que (w_host w) q) = None \<and> qu_tail (h_que (w_host w) q) = None \<and>
     w_phase w = Idle \<and> w_sub w = [] \<and> w_done w = [] \<and> w_held w = {}"

inductive host_run :: "sys \<Rightarrow> nat set \<Rightarrow> (nat \<Rightarrow> nat) \<Rightarrow> nat \<Rightarrow> run \<Rightarrow> bool" for sys gs base q where
  start: "host_start gs base q w \<Longrightarrow> host_run sys gs base q w"
| step: "host_run sys gs base q w \<Longrightarrow> host_step sys gs q w w' \<Longrightarrow> host_run sys gs base q w'"

definition answer_ok :: "host \<Rightarrow> nat set \<Rightarrow> ticket list \<Rightarrow> ticket \<Rightarrow> nat \<times> xrp_status \<Rightarrow> bool" where
  "answer_ok h held pend t d \<longleftrightarrow> fst d = fst t \<and> snd d \<noteq> XRP_STATUS_PENDING \<and>
     (\<forall>e\<in>set_option (evt_of t). e < h_next h \<and> e \<notin> evts pend \<and> (e \<in> held \<longrightarrow> e_status (h_evt h e) = snd d))"

fun phase_ok :: "phase \<Rightarrow> ticket list \<Rightarrow> bool" where
  "phase_ok Idle busy \<longleftrightarrow> busy = []"
| "phase_ok (Taken rq) busy \<longleftrightarrow> map fst busy = [rq]"
| "phase_ok (Ran rq s) busy \<longleftrightarrow> map fst busy = [rq] \<and> s \<noteq> XRP_STATUS_PENDING"

definition run_ok :: "nat set \<Rightarrow> (nat \<Rightarrow> nat) \<Rightarrow> nat \<Rightarrow> run \<Rightarrow> ticket list \<Rightarrow> ticket list \<Rightarrow> ticket list \<Rightarrow> bool" where
  "run_ok gs base q w dn busy rest \<longleftrightarrow> w_sub w = dn @ busy @ rest \<and> host_ok gs base q (w_host w) busy rest (w_held w) \<and>
     phase_ok (w_phase w) busy \<and> list_all2 (answer_ok (w_host w) (w_held w) (busy @ rest)) dn (w_done w)"

lemma answers_frame:
  assumes "list_all2 (answer_ok h held pend) dn ds" and "h_next h \<le> h_next h'"
    and "\<And>e. e < h_next h \<Longrightarrow> e \<notin> evts pend \<Longrightarrow> h_evt h' e = h_evt h e \<and> e \<notin> evts pend' \<and> (e \<in> held' \<longrightarrow> e \<in> held)"
  shows "list_all2 (answer_ok h' held' pend') dn ds"
  using assms(1)
proof (rule list_all2_mono)
  fix t d
  assume "answer_ok h held pend t d"
  then show "answer_ok h' held' pend' t d" using assms(2,3) by (fastforce simp: answer_ok_def)
qed

lemma phase_busy: "phase_ok (Taken rq) busy \<Longrightarrow> \<exists>t. busy = [t] \<and> fst t = rq" "phase_ok (Ran rq s) busy \<Longrightarrow> \<exists>t. busy = [t] \<and> fst t = rq"
  by (auto simp: map_eq_Cons_conv)

lemma start_ok: "host_start gs base q w \<Longrightarrow> run_ok gs base q w [] [] []"
proof -
  assume st: "host_start gs base q w"
  have "refs base q [] {} = base" by (simp add: refs_def fun_eq_iff)
  moreover have "0 < base q" using st by (simp add: host_start_def client_ok_def)
  ultimately show ?thesis using st
    by (simp add: run_ok_def host_ok_def host_start_def queue_list_def live_def counts_def List.map_filter_simps)
qed

lemma enqueue_step_ok:
  assumes ok: "run_ok gs base q w dn busy rest" and g: "set_option g \<subseteq> gs"
    and run: "xrp_enqueue_command rq_ok copy calloc_ok (Some q) in_data in_sz out_data out_sz g evt (w_host w) = Some (e, s, h)"
  shows "s = XRP_STATUS_SUCCESS \<and>
      run_ok gs base q (w\<lparr>w_host := h, w_sub := w_sub w @ [(h_next (w_host w), g, e)], w_held := w_held w \<union> set_option e\<rparr>) dn busy (rest @ [(h_next (w_host w), g, e)]) \<or>
    s = XRP_STATUS_FAILURE \<and> run_ok gs base q (w\<lparr>w_host := h\<rparr>) dn busy rest"
proof -
  let ?h = "w_host w"
  have hok: "host_ok gs base q ?h busy rest (w_held w)" and an: "list_all2 (answer_ok ?h (w_held w) (busy @ rest)) dn (w_done w)"
    and rest: "w_sub w = dn @ busy @ rest" "phase_ok (w_phase w) busy" using ok by (simp_all add: run_ok_def)
  note outcome = enqueue_outcome [of rq_ok copy calloc_ok "Some q" in_data in_sz out_data out_sz g evt ?h]
  show ?thesis
  proof (cases "rq_ok \<and> (in_sz = 0 \<or> copy \<noteq> None) \<and> (evt \<longrightarrow> calloc_ok)")
    case True
    define eo where "eo = (if evt then Some (h_next ?h + 1) else None)"
    obtain h' where h': "xrp_enqueue_command True copy True (Some q) in_data in_sz out_data out_sz g evt ?h = Some (eo, XRP_STATUS_SUCCESS, h')"
      "host_ok gs base q h' busy (rest @ [(h_next ?h, g, eo)]) (w_held w \<union> set_option eo)"
      "\<And>e. e < h_next ?h \<Longrightarrow> h_evt h' e = h_evt ?h e" "h_next ?h \<le> h_next h'"
      by (rule submit_ok [where copy = copy and in_sz = in_sz, OF hok g _ eo_def]) (use True in blast)+
    then have eq: "e = eo" "s = XRP_STATUS_SUCCESS" "h = h'" using run True outcome by auto
    have "list_all2 (answer_ok h' (w_held w \<union> set_option eo) (busy @ rest @ [(h_next ?h, g, eo)])) dn (w_done w)"
      using h'(3,4) by (intro answers_frame [OF an]) (auto simp: eo_def)
    then show ?thesis using eq h'(2) rest by (simp add: run_ok_def)
  next
    case False
    have "\<exists>n m. h_next ?h \<le> n \<and> (e, s, h) = (None, XRP_STATUS_FAILURE, ?h\<lparr>h_next := n, h_mem := m\<rparr>)"
    proof (cases "rq_ok \<and> (in_sz = 0 \<or> copy \<noteq> None)")
      case True
      then have "evt \<and> \<not> calloc_ok" using False by blast
      with True have "(e, s, h) = (None, XRP_STATUS_FAILURE, ?h\<lparr>h_next := h_next ?h + 1,
          h_mem := write_bytes (h_mem ?h) (case copy of Some p \<Rightarrow> p | None \<Rightarrow> 0) (read_bytes (h_mem ?h) in_data (unat in_sz))\<rparr>)"
        using run outcome by auto
      then show ?thesis using le_add1 by blast
    next
      case False
      then have "(e, s, h) = (None, XRP_STATUS_FAILURE, ?h)" using run outcome by (simp split: if_split_asm)
      then show ?thesis by (intro exI [of _ "h_next ?h"] exI [of _ "h_mem ?h"]) simp
    qed
    then obtain n m where n: "h_next ?h \<le> n" "h = ?h\<lparr>h_next := n, h_mem := m\<rparr>" and eq: "s = XRP_STATUS_FAILURE" by blast
    have "list_all2 (answer_ok h (w_held w) (busy @ rest)) dn (w_done w)" using n by (intro answers_frame [OF an]) auto
    then show ?thesis using eq grow_ok [OF hok n(1), of m] n(2) rest by (simp add: run_ok_def)
  qed
qed

text \<open>Every step keeps the state between steps, and there is always a next step of the worker.\<close>

lemma take_step_ok:
  assumes ok: "run_ok gs base q w dn busy rest" and ph: "w_phase w = Idle"
  obtains (took) t rest' h where "rest = t # rest'" "xrp_queue_take q (w_host w) = Some (Took (fst t), h)"
      "run_ok gs base q (w\<lparr>w_host := h, w_phase := Taken (fst t)\<rparr>) dn [t] rest'"
    | (waits) h where "rest = []" "xrp_queue_take q (w_host w) = Some (Take_waits, h)" "run_ok gs base q (w\<lparr>w_host := h\<rparr>) dn [] []"
proof -
  have hok: "host_ok gs base q (w_host w) [] rest (w_held w)" and an: "list_all2 (answer_ok (w_host w) (w_held w) rest) dn (w_done w)"
    and sub: "w_sub w = dn @ rest" using ok ph by (auto simp: run_ok_def)
  show ?thesis
  proof (cases rest)
    case Nil
    obtain h' where h': "xrp_queue_take q (w_host w) = Some (Take_waits, h')" "host_ok gs base q h' [] [] (w_held w)"
        "h_evt h' = h_evt (w_host w)" "h_next h' = h_next (w_host w)" using take_waits [OF hok [unfolded Nil]] .
    have "list_all2 (answer_ok h' (w_held w) []) dn (w_done w)" using h'(3,4) Nil by (intro answers_frame [OF an]) auto
    then show ?thesis using waits [of h'] h' Nil sub ph by (simp add: run_ok_def)
  next
    case (Cons t rest')
    obtain h' where h': "xrp_queue_take q (w_host w) = Some (Took (fst t), h')" "host_ok gs base q h' [t] rest' (w_held w)"
        "h_evt h' = h_evt (w_host w)" "h_next h' = h_next (w_host w)" using take_ok [OF hok [unfolded Cons]] .
    have "list_all2 (answer_ok h' (w_held w) (t # rest')) dn (w_done w)" using h'(3,4) Cons by (intro answers_frame [OF an]) auto
    then show ?thesis using took [of t rest' h'] h' Cons sub by (simp add: run_ok_def)
  qed
qed

lemma run_step_ok:
  assumes ok: "run_ok gs base q w dn busy rest" and ph: "w_phase w = Taken rq"
  obtains s h where "xrp_queue_run sys q rq (w_host w) = Some (s, h)" "run_ok gs base q (w\<lparr>w_host := h, w_phase := Ran rq s\<rparr>) dn busy rest"
proof -
  obtain t where t: "busy = [t]" "fst t = rq" using ok ph phase_busy(1) [of rq busy] by (auto simp: run_ok_def)
  have hok: "host_ok gs base q (w_host w) [t] rest (w_held w)" and an: "list_all2 (answer_ok (w_host w) (w_held w) (busy @ rest)) dn (w_done w)"
    using ok t by (simp_all add: run_ok_def)
  obtain s m where r: "xrp_queue_run sys q (fst t) (w_host w) = Some (s, (w_host w)\<lparr>h_mem := m\<rparr>)" "s \<noteq> XRP_STATUS_PENDING"
      "host_ok gs base q ((w_host w)\<lparr>h_mem := m\<rparr>) [t] rest (w_held w)" using command_ok [OF hok] .
  have "list_all2 (answer_ok ((w_host w)\<lparr>h_mem := m\<rparr>) (w_held w) (busy @ rest)) dn (w_done w)" by (rule answers_frame [OF an]) auto
  then show ?thesis using that [of s "(w_host w)\<lparr>h_mem := m\<rparr>"] r t ok by (simp add: run_ok_def)
qed

lemma complete_step_ok:
  assumes ok: "run_ok gs base q w dn busy rest" and ph: "w_phase w = Ran rq s"
  obtains t h where "busy = [t]" "xrp_queue_complete sys q rq s (w_host w) = Some (True, h)"
    "run_ok gs base q (w\<lparr>w_host := h, w_phase := Idle, w_done := w_done w @ [(rq, s)]\<rparr>) (dn @ [t]) [] rest"
proof -
  obtain t where t: "busy = [t]" "fst t = rq" using ok ph phase_busy(2) [of rq s busy] by (auto simp: run_ok_def)
  have hok: "host_ok gs base q (w_host w) [t] rest (w_held w)" and an: "list_all2 (answer_ok (w_host w) (w_held w) (t # rest)) dn (w_done w)"
    and s: "s \<noteq> XRP_STATUS_PENDING" and sub: "w_sub w = dn @ t # rest" using ok t ph by (simp_all add: run_ok_def)
  obtain h' where h': "xrp_queue_complete sys q (fst t) s (w_host w) = Some (True, h')" "host_ok gs base q h' [] rest (w_held w)"
      "h_evt h' = (case evt_of t of None \<Rightarrow> h_evt (w_host w) | Some e \<Rightarrow> (h_evt (w_host w))(e := (h_evt (w_host w) e)\<lparr>e_status := s\<rparr>))"
      "h_next h' = h_next (w_host w)" using complete_ok [OF hok s] .
  have "list_all2 (answer_ok h' (w_held w) rest) dn (w_done w)"
    using h'(3,4) by (intro answers_frame [OF an]) (auto split: option.split)
  moreover have "\<forall>e\<in>set_option (evt_of t). e < h_next (w_host w) \<and> e \<notin> evts rest"
    using hok map_filter_evts [of rest] by (cases "evt_of t") (simp_all add: host_ok_def event_ok_def List.map_filter_simps)
  then have "answer_ok h' (w_held w) rest t (rq, s)" using h'(3,4) t s by (auto simp: answer_ok_def)
  ultimately show ?thesis using that [of t h'] h'(1,2) t sub by (simp add: run_ok_def list_all2_appendI)
qed

lemma release_step_ok:
  assumes ok: "run_ok gs base q w dn busy rest" and e: "e \<in> w_held w"
  obtains h where "xrp_release_event sys join (Some e) (w_host w) = Some (XRP_STATUS_SUCCESS, h)"
    "run_ok gs base q (w\<lparr>w_host := h, w_held := w_held w - {e}\<rparr>) dn busy rest"
proof -
  have hok: "host_ok gs base q (w_host w) busy rest (w_held w)"
    and an: "list_all2 (answer_ok (w_host w) (w_held w) (busy @ rest)) dn (w_done w)" using ok by (simp_all add: run_ok_def)
  obtain h' where h': "xrp_release_event sys join (Some e) (w_host w) = Some (XRP_STATUS_SUCCESS, h')"
      "host_ok gs base q h' busy rest (w_held w - {e})" "h_evt h' = h_evt (w_host w)" "h_next h' = h_next (w_host w)"
    using release_ok [OF hok e] .
  have "list_all2 (answer_ok h' (w_held w - {e}) (busy @ rest)) dn (w_done w)" using h'(3,4) by (intro answers_frame [OF an]) auto
  then show ?thesis using that [of h'] h' ok by (simp add: run_ok_def)
qed

lemma host_step_ok: "host_step sys gs q w w' \<Longrightarrow> run_ok gs base q w dn busy rest \<Longrightarrow> \<exists>dn busy rest. run_ok gs base q w' dn busy rest"
proof (induction rule: host_step.induct)
  case (submit rq_ok copy calloc_ok in_data in_sz out_data out_sz g evt w e h)
  show ?case using enqueue_step_ok [OF submit(3,2,1)] by auto
next
  case (refuse rq_ok copy calloc_ok in_data in_sz out_data out_sz g evt w e h)
  show ?case using enqueue_step_ok [OF refuse(3,2,1)] by auto
next
  case (release e w s h)
  then show ?case using release_step_ok [of gs base q w dn busy rest e sys "client_join sys"] by (metis option.inject prod.inject)
next
  case (take w rq h)
  then show ?case using take_step_ok [of gs base q w dn busy rest] by (metis option.inject prod.inject take_result.distinct take_result.inject)
next
  case (waits w h)
  then show ?case using take_step_ok [of gs base q w dn busy rest] by (metis option.inject prod.inject take_result.distinct)
next
  case (run w rq s h)
  then show ?case using run_step_ok [of gs base q w dn busy rest rq sys] by (metis option.inject prod.inject)
next
  case (complete w rq s c h)
  then show ?case using complete_step_ok [of gs base q w dn busy rest rq s sys] by (metis option.inject prod.inject)
qed

lemma host_run_ok: "host_run sys gs base q w \<Longrightarrow> \<exists>dn busy rest. run_ok gs base q w dn busy rest"
proof (induction rule: host_run.induct)
  case (start w)
  then show ?case using start_ok by blast
next
  case (step w w')
  then show ?case using host_step_ok by blast
qed

subsection \<open>Running the worker while the client waits\<close>

lemma process_ok:
  assumes "host_ok gs base q h [] (t # rest) held"
  obtains h' where "xrp_queue_process sys q h = Some (Some True, h')" "host_ok gs base q h' [] rest held" "h_next h' = h_next h"
proof -
  obtain h1 where 1: "xrp_queue_take q h = Some (Took (fst t), h1)" "host_ok gs base q h1 [t] rest held" "h_next h1 = h_next h"
    by (rule take_ok [OF assms]) blast
  obtain s m where 2: "xrp_queue_run sys q (fst t) h1 = Some (s, h1\<lparr>h_mem := m\<rparr>)" "s \<noteq> XRP_STATUS_PENDING"
    "host_ok gs base q (h1\<lparr>h_mem := m\<rparr>) [t] rest held" using command_ok [OF 1(2)] .
  obtain h3 where 3: "xrp_queue_complete sys q (fst t) s (h1\<lparr>h_mem := m\<rparr>) = Some (True, h3)" "host_ok gs base q h3 [] rest held"
    "h_next h3 = h_next (h1\<lparr>h_mem := m\<rparr>)" by (rule complete_ok [OF 2(3,2)]) blast
  show ?thesis using 1 2 3 by (intro that [of h3]) (simp_all add: xrp_queue_process_def)
qed

lemma wait_ok:
  "host_ok gs base q h [] rest held \<Longrightarrow> e \<in> held \<Longrightarrow>
   \<exists>h' done' rest'. xrp_wait sys e h = Some h' \<and> rest = done' @ rest' \<and> e \<notin> evts rest' \<and> host_ok gs base q h' [] rest' held"
proof (induction rest arbitrary: h)
  case Nil
  have "live h e" using Nil by (simp add: host_ok_def live_def counts_def refs_def)
  then show ?case using Nil by (subst xrp_wait.simps) (simp add: xrp_event_status_def host_ok_def)
next
  case (Cons t rest)
  have lv: "live h e" and eq: "e_queue (h_evt h e) = q"
    using Cons.prems by (simp_all add: host_ok_def live_def counts_def refs_def event_ok_def)
  show ?case
  proof (cases "e \<in> evts (t # rest)")
    case True
    then have st: "xrp_event_status e h = Some XRP_STATUS_PENDING"
      using Cons.prems(1) lv by (simp add: xrp_event_status_def host_ok_def)
    obtain h1 where 1: "xrp_queue_process sys q h = Some (Some True, h1)" "host_ok gs base q h1 [] rest held"
      by (rule process_ok [OF Cons.prems(1)]) blast
    have "xrp_wait sys e h = xrp_wait sys e h1" by (subst xrp_wait.simps) (simp add: st eq 1(1))
    then show ?thesis using Cons.IH [OF 1(2) Cons.prems(2)] by (metis append_Cons)
  next
    case False
    then have "e_status (h_evt h e) \<noteq> XRP_STATUS_PENDING" using Cons.prems by (simp add: host_ok_def)
    then have "xrp_wait sys e h = Some h" using lv by (subst xrp_wait.simps) (simp add: xrp_event_status_def)
    then show ?thesis using False Cons.prems(1) by (metis append_Nil)
  qed
qed

end
