(* ===== verification/XRP_Host_Commands.thy ===== *)
theory XRP_Host_Commands
  imports XRP_Host_Run
begin

text \<open>
  What a client of the host library can rely on: commands are completed in order, no step of the client or of the worker
  uses a released object, waiting ends, and a synchronous command makes one call of the driver and
  leaves every count as it was.
\<close>

subsection \<open>A synchronous command\<close>

text \<open>
  The call that a command makes: the result of the driver and the memory after it; a mapped buffer in the group prevents
  the call.
\<close>

definition command_outcome :: "sys \<Rightarrow> nat \<Rightarrow> u32 \<Rightarrow> u32 \<Rightarrow> u32 \<Rightarrow> u32 \<Rightarrow> nat option \<Rightarrow> host \<Rightarrow> bool \<times> mem" where
  "command_outcome sys q in_data in_sz out_data out_sz g h =
     (let Q = h_que h q; rs = (case g of Some x \<Rightarrow> g_buffer (h_grp h x) | None \<Rightarrow> []) in
      if \<exists>b\<in>set rs. 0 < b_map_count (h_buf h (fst b)) then (False, h_mem h)
      else s_queue sys (d_fd (h_dev h (qu_device Q)))
        \<lparr>q_flags = (if qu_use_nsid Q then XRP_QUEUE_FLAG_NSID else 0), q_in_data_size = in_sz, q_out_data_size = out_sz,
         q_buffer_size = of_nat (length rs * 16), q_in_data_addr = ucast in_data, q_out_data_addr = ucast out_data,
         q_buffer_addr = ucast (s_stack sys), q_nsid_addr = ucast (s_nsid sys q)\<rparr>
        (map (\<lambda>(b, fl). \<lparr>ib_flags = fl, ib_size = b_size (h_buf h b), ib_addr = ucast (b_ptr (h_buf h b))\<rparr>) rs)
        (qu_nsid Q) (h_mem h))"

definition outcome_status :: "bool \<times> mem \<Rightarrow> xrp_status" where
  "outcome_status r = (if fst r then XRP_STATUS_SUCCESS else XRP_STATUS_FAILURE)"

lemma outcome_not_pending [simp]: "outcome_status r \<noteq> XRP_STATUS_PENDING"
  by (simp add: outcome_status_def)

lemma ioctl_buffers_spec:
  "\<forall>b\<in>set rs. live h (fst b) \<Longrightarrow> ioctl_buffers rs h = Some (if \<exists>b\<in>set rs. 0 < b_map_count (h_buf h (fst b)) then None
     else Some (map (\<lambda>(b, fl). \<lparr>ib_flags = fl, ib_size = b_size (h_buf h b), ib_addr = ucast (b_ptr (h_buf h b))\<rparr>) rs))"
proof (induction rs)
  case (Cons r rs)
  then show ?case by (cases r) simp
qed simp

lemma run_outcome:
  assumes "\<forall>b\<in>set (case g of Some x \<Rightarrow> g_buffer (h_grp h x) | None \<Rightarrow> []). live h (fst b)"
    and "xrp_run_command sys q in_data in_sz out_data out_sz g h = Some (s, h')"
  shows "s = outcome_status (command_outcome sys q in_data in_sz out_data out_sz g h) \<and>
    h' = h\<lparr>h_mem := snd (command_outcome sys q in_data in_sz out_data out_sz g h)\<rparr>"
  using assms(2) ioctl_buffers_spec [OF assms(1)]
  by (auto simp: xrp_run_command_def command_outcome_def outcome_status_def Let_def case_prod_beta split: if_split_asm)

lemma outcome_frame:
  assumes "same_objects q h h'"
  shows "command_outcome sys q in_data in_sz out_data out_sz g h' = command_outcome sys q in_data in_sz out_data out_sz g (h\<lparr>h_mem := h_mem h'\<rparr>)"
proof -
  obtain p t where "h_que h' q = (h_que h q)\<lparr>qu_head := p, qu_tail := t\<rparr>" using assms unfolding same_objects_def same_queue_def by blast
  then show ?thesis using assms by (cases g) (simp_all add: command_outcome_def same_objects_def Let_def)
qed

lemma group_live:
  assumes "host_ok gs base q h busy rest held" and "set_option g \<subseteq> gs"
  shows "\<forall>b\<in>set (case g of Some x \<Rightarrow> g_buffer (h_grp h x) | None \<Rightarrow> []). live h (fst b)"
proof (cases g)
  case (Some x)
  have "live h a" if "0 < base a" for a
    using assms(1) live_counts [of h "refs base q (busy @ rest) held" a] refs_pos [of base a] that by (simp add: host_ok_def)
  then show ?thesis using assms Some by (simp add: host_ok_def client_ok_def)
qed simp

text \<open>The worker serves the only request of the queue.\<close>

lemma process_outcome:
  assumes ok: "host_ok gs base q h [] [(rq, g, Some e)] held"
    and x: "h_rq h rq = Some \<lparr>r_next = n, r_in_data = c, r_out_data = out_data, r_in_data_size = in_sz, r_out_data_size = out_sz,
       r_buffer_group = g, r_event = Some e\<rparr>"
  obtains h' where "xrp_queue_process sys q h = Some (Some True, h')" "host_ok gs base q h' [] [] held"
    "e_status (h_evt h' e) = outcome_status (command_outcome sys q c in_sz out_data out_sz g h)"
    "h_mem h' = snd (command_outcome sys q c in_sz out_data out_sz g h)"
proof -
  let ?o = "command_outcome sys q c in_sz out_data out_sz g h"
  obtain h1 where 1: "xrp_queue_take q h = Some (Took rq, h1)" "host_ok gs base q h1 [(rq, g, Some e)] [] held"
      "same_objects q h h1" "h_rq h1 = h_rq h" "h_mem h1 = h_mem h"
    by (rule take_ok [OF ok, unfolded fst_conv]) blast
  have g: "set_option g \<subseteq> gs" using ok by (simp add: host_ok_def ticket_ok_def)
  obtain s m where 2: "xrp_queue_run sys q rq h1 = Some (s, h1\<lparr>h_mem := m\<rparr>)" "s \<noteq> XRP_STATUS_PENDING"
    "host_ok gs base q (h1\<lparr>h_mem := m\<rparr>) [(rq, g, Some e)] [] held" by (rule command_ok [OF 1(2), of sys, unfolded fst_conv]) blast
  have "xrp_run_command sys q c in_sz out_data out_sz g h1 = Some (s, h1\<lparr>h_mem := m\<rparr>)"
    using 2(1) x 1(4) by (simp add: xrp_queue_run_def)
  then have r: "s = outcome_status (command_outcome sys q c in_sz out_data out_sz g h1)"
      "h1\<lparr>h_mem := m\<rparr> = h1\<lparr>h_mem := snd (command_outcome sys q c in_sz out_data out_sz g h1)\<rparr>"
    using run_outcome [OF group_live [OF 1(2) g]] by blast+
  have "command_outcome sys q c in_sz out_data out_sz g h1 = ?o" using outcome_frame [OF 1(3)] 1(5) by simp
  then have s: "s = outcome_status ?o" "m = snd ?o" using r(1) arg_cong [OF r(2), of h_mem] by simp_all
  obtain h3 where 3: "xrp_queue_complete sys q rq s (h1\<lparr>h_mem := m\<rparr>) = Some (True, h3)" "host_ok gs base q h3 [] [] held"
    "e_status (h_evt h3 e) = s" "h_mem h3 = m" by (rule complete_ok [OF 2(3,2), of sys, unfolded fst_conv]) simp
  show ?thesis using 1 2 3 s by (intro that [of h3]) (simp_all add: xrp_queue_process_def)
qed

lemma sync_ok:
  assumes ok: "host_ok gs base q h [] [] held" and g: "set_option g \<subseteq> gs" and mem: "in_sz = 0 \<or> copy \<noteq> None"
    and c: "c = (case copy of Some p \<Rightarrow> p | None \<Rightarrow> 0)" and m: "m = write_bytes (h_mem h) c (read_bytes (h_mem h) in_data (unat in_sz))"
  obtains h' where "xrp_run_command_sync sys True copy True (Some q) in_data in_sz out_data out_sz g h =
      Some (outcome_status (command_outcome sys q c in_sz out_data out_sz g (h\<lparr>h_mem := m\<rparr>)), h')"
    "host_ok gs base q h' [] [] held" "h_mem h' = snd (command_outcome sys q c in_sz out_data out_sz g (h\<lparr>h_mem := m\<rparr>))"
proof -
  let ?e = "h_next h + 1"
  let ?o = "command_outcome sys q c in_sz out_data out_sz g (h\<lparr>h_mem := m\<rparr>)"
  have eo: "Some ?e = (if True then Some ?e else None)" by simp
  obtain h1 n where 1: "xrp_enqueue_command True copy True (Some q) in_data in_sz out_data out_sz g True h = Some (Some ?e, XRP_STATUS_SUCCESS, h1)"
      "host_ok gs base q h1 [] [(h_next h, g, Some ?e)] (insert ?e held)" "same_objects q h h1" "h_mem h1 = m"
      "h_rq h1 (h_next h) = Some \<lparr>r_next = n, r_in_data = c, r_out_data = out_data, r_in_data_size = in_sz, r_out_data_size = out_sz,
        r_buffer_group = g, r_event = Some ?e\<rparr>"
    by (rule submit_ok [where copy = copy and in_sz = in_sz, OF ok g mem eo]) (use that c m in auto)
  obtain h2 where 2: "xrp_queue_process sys q h1 = Some (Some True, h2)" "host_ok gs base q h2 [] [] (insert ?e held)"
      "e_status (h_evt h2 ?e) = outcome_status ?o" "h_mem h2 = snd ?o"
    by (rule process_outcome [OF 1(2,5), of sys]) (use that outcome_frame [OF 1(3)] 1(4) in simp)
  have lv: "live h1 ?e" "live h2 ?e" and ev: "e_queue (h_evt h1 ?e) = q" "e_status (h_evt h1 ?e) = XRP_STATUS_PENDING"
    using 1(2) 2(2) by (simp_all add: host_ok_def live_def counts_def refs_def event_ok_def)
  have "xrp_wait sys ?e h2 = Some h2" using lv 2(3) by (subst xrp_wait.simps) (simp add: xrp_event_status_def)
  then have w: "xrp_wait sys ?e h1 = Some h2" using lv ev 2(1) by (subst xrp_wait.simps) (simp add: xrp_event_status_def)
  have fresh: "?e \<notin> held" using ok by (auto simp: host_ok_def event_ok_def)
  obtain h3 where 3: "xrp_release_event sys (client_join sys) (Some ?e) h2 = Some (XRP_STATUS_SUCCESS, h3)"
      "host_ok gs base q h3 [] [] held" "h_mem h3 = h_mem h2"
    by (rule release_ok [OF 2(2), of ?e sys "client_join sys"]) (use that fresh in simp_all)
  show ?thesis using 1(1) w 2(3,4) 3 lv by (intro that [of h3]) (simp_all add: xrp_run_command_sync_def xrp_event_status_def)
qed

subsection \<open>What holds in every run\<close>

definition pending :: "run \<Rightarrow> ticket list" where
  "pending w = drop (length (w_done w)) (w_sub w)"

lemma run_pending: "run_ok gs base q w dn busy rest \<Longrightarrow> pending w = busy @ rest \<and> length dn = length (w_done w)"
  by (auto simp: run_ok_def pending_def dest: list_all2_lengthD)

lemma submit_total:
  assumes ok: "run_ok gs base q w dn busy rest" and g: "set_option g \<subseteq> gs"
  shows "\<exists>e s h. xrp_enqueue_command rq_ok copy calloc_ok (Some q) in_data in_sz out_data out_sz g evt (w_host w) = Some (e, s, h)"
proof -
  have hok: "host_ok gs base q (w_host w) busy rest (w_held w)" using ok by (simp add: run_ok_def)
  have "\<exists>r. xrp_enqueue_command True copy True (Some q) in_data in_sz out_data out_sz g evt (w_host w) = Some r" if "in_sz = 0 \<or> copy \<noteq> None"
    by (rule submit_ok [where copy = copy and in_sz = in_sz, OF hok g that refl]) blast
  then show ?thesis using enqueue_outcome [of rq_ok copy calloc_ok "Some q" in_data in_sz out_data out_sz g evt "w_host w"]
    by (metis prod_cases3)
qed

lemma event_of_run:
  assumes ok: "run_ok gs base q w dn busy rest" and i: "i < length (w_sub w)" "evt_of (w_sub w ! i) = Some e" "e \<in> w_held w"
  shows "xrp_event_status e (w_host w) = Some (if i < length (w_done w) then snd (w_done w ! i) else XRP_STATUS_PENDING)"
proof -
  have hok: "host_ok gs base q (w_host w) busy rest (w_held w)" and an: "list_all2 (answer_ok (w_host w) (w_held w) (busy @ rest)) dn (w_done w)"
    and sub: "w_sub w = dn @ busy @ rest" using ok by (simp_all add: run_ok_def)
  have len: "length dn = length (w_done w)" using an by (rule list_all2_lengthD)
  have "live (w_host w) e" using hok i(3) by (simp add: host_ok_def live_def counts_def refs_def)
  moreover have "e_status (h_evt (w_host w) e) = (if i < length (w_done w) then snd (w_done w ! i) else XRP_STATUS_PENDING)"
  proof (cases "i < length dn")
    case True
    then have "answer_ok (w_host w) (w_held w) (busy @ rest) (dn ! i) (w_done w ! i)" using an by (simp add: list_all2_conv_all_nth)
    then show ?thesis using True len i sub by (simp add: answer_ok_def nth_append)
  next
    case False
    then have "w_sub w ! i \<in> set (busy @ rest)" using i(1) sub by (metis add_diff_inverse_nat length_append nat_add_left_cancel_less nth_append_length_plus nth_mem)
    then have "e \<in> evts (busy @ rest)" using i(2) unfolding evts_def by blast
    then show ?thesis using hok False len by (simp add: host_ok_def)
  qed
  ultimately show ?thesis by (simp add: xrp_event_status_def)
qed

subsection \<open>An example client\<close>

text \<open>
  A client with a device (1), a queue (2), a group (3) and the only buffer of the group (4); the driver accepts every
  command and sets one byte.
\<close>

definition ex_sys :: sys where
  "ex_sys = \<lparr>s_close_ok = True, s_free_ok = (\<lambda>_. True), s_queue = (\<lambda>fd iq bs nsid m. (True, m(0x200 := 7))),
     s_stack = 0x7000, s_nsid = (\<lambda>_. 0x7100)\<rparr>"

definition ex_base :: "nat \<Rightarrow> nat" where
  "ex_base a = (if a = 1 \<or> a = 4 then 2 else if a = 2 \<or> a = 3 then 1 else 0)"

definition ex_host :: host where
  "ex_host = \<lparr>h_ref = counts ex_base, h_dev = (\<lambda>_. \<lparr>d_fd = 9\<rparr>),
     h_buf = (\<lambda>_. \<lparr>b_device = Some 1, b_type = XRP_BUFFER_TYPE_DEVICE, b_ptr = 0x1000, b_size = 64, b_map_count = 0, b_map_flags = 0\<rparr>),
     h_grp = (\<lambda>_. \<lparr>g_capacity = 4, g_buffer = [(4, 1)]\<rparr>),
     h_que = (\<lambda>_. \<lparr>qu_device = 1, qu_use_nsid = False, qu_nsid = replicate 16 0, qu_head = None, qu_tail = None, qu_exit = False\<rparr>),
     h_evt = (\<lambda>_. \<lparr>e_queue = 0, e_status = XRP_STATUS_SUCCESS\<rparr>), h_rq = (\<lambda>_. None), h_next = 5, h_mem = (\<lambda>_. 0),
     h_sync_exit = (\<lambda>_. False)\<rparr>"

definition ex_start :: run where
  "ex_start = \<lparr>w_host = ex_host, w_phase = Idle, w_sub = [], w_done = [], w_held = {}\<rparr>"

lemma ex_start_ok: "host_start {3} ex_base 2 ex_start"
  by (auto simp: host_start_def ex_start_def ex_host_def client_ok_def ex_base_def split: if_split_asm)

lemma ex_submitted:
  obtains w where "host_run ex_sys {3} ex_base 2 w" "w_phase w = Idle" "w_sub w = [(5, Some 3, Some 6)]" "w_done w = []" "w_held w = {6}"
proof -
  have st: "host_run ex_sys {3} ex_base 2 ex_start" using ex_start_ok by (rule host_run.start)
  have ok: "host_ok {3} ex_base 2 ex_host [] [] {}" using start_ok [OF ex_start_ok] by (simp add: run_ok_def ex_start_def)
  have n: "h_next ex_host = 5" by (simp add: ex_host_def)
  obtain h where h: "xrp_enqueue_command True (Some 0x300) True (Some 2) 0x100 8 0x200 4 (Some 3) True ex_host = Some (Some 6, XRP_STATUS_SUCCESS, h)"
    by (rule submit_ok [where copy = "Some 0x300" and in_sz = 8 and g = "Some 3" and evt = True and eo = "Some 6", OF ok]) (auto simp: n)
  let ?w = "ex_start\<lparr>w_host := h, w_sub := w_sub ex_start @ [(h_next (w_host ex_start), Some 3, Some 6)], w_held := w_held ex_start \<union> set_option (Some 6)\<rparr>"
  have "host_step ex_sys {3} 2 ex_start ?w" by (rule host_step.submit) (use h in \<open>auto simp: ex_start_def\<close>)
  from host_run.step [OF st this] show ?thesis by (rule that) (simp_all add: ex_start_def n)
qed

lemma ex_completed:
  obtains w s where "host_run ex_sys {3} ex_base 2 w" "w_phase w = Idle" "w_sub w = [(5, Some 3, Some 6)]" "w_done w = [(5, s)]" "w_held w = {6}"
proof -
  obtain w where w: "host_run ex_sys {3} ex_base 2 w" "w_phase w = Idle" "w_sub w = [(5, Some 3, Some 6)]" "w_done w = []" "w_held w = {6}"
    by (rule ex_submitted)
  obtain rest where ok: "run_ok {3} ex_base 2 w [] [] rest" "rest = [(5, Some 3, Some 6)]"
    using host_run_ok [OF w(1)] w by (auto simp: run_ok_def)
  obtain h where h: "xrp_queue_take 2 (w_host w) = Some (Took 5, h)" "run_ok {3} ex_base 2 (w\<lparr>w_host := h, w_phase := Taken 5\<rparr>) [] [(5, Some 3, Some 6)] []"
    by (rule take_step_ok [OF ok(1) w(2)]) (use ok(2) in auto)
  define w1 where "w1 = w\<lparr>w_host := h, w_phase := Taken 5\<rparr>"
  have 1: "host_run ex_sys {3} ex_base 2 w1" unfolding w1_def by (rule host_run.step [OF w(1) host_step.take [OF w(2) h(1)]])
  have p1: "w_phase w1 = Taken 5" by (simp add: w1_def)
  obtain s h2 where h2: "xrp_queue_run ex_sys 2 5 (w_host w1) = Some (s, h2)" "run_ok {3} ex_base 2 (w1\<lparr>w_host := h2, w_phase := Ran 5 s\<rparr>) [] [(5, Some 3, Some 6)] []"
    by (rule run_step_ok [OF h(2) [folded w1_def] p1])
  define w2 where "w2 = w1\<lparr>w_host := h2, w_phase := Ran 5 s\<rparr>"
  have 2: "host_run ex_sys {3} ex_base 2 w2" unfolding w2_def by (rule host_run.step [OF 1 host_step.run [OF p1 h2(1)]])
  have p2: "w_phase w2 = Ran 5 s" by (simp add: w2_def)
  obtain h3 where h3: "xrp_queue_complete ex_sys 2 5 s (w_host w2) = Some (True, h3)" by (rule complete_step_ok [OF h2(2) [folded w2_def] p2])
  have "host_run ex_sys {3} ex_base 2 (w2\<lparr>w_host := h3, w_phase := Idle, w_done := w_done w2 @ [(5, s)]\<rparr>)"
    by (rule host_run.step [OF 2 host_step.complete [OF p2 h3]])
  then show ?thesis by (rule that) (use w in \<open>simp_all add: w1_def w2_def\<close>)
qed

subsection \<open>Properties\<close>

text \<open>
  C4: In every run of a client that holds its own references, with any number of submissions (also failing ones) and
  releases of events between any two steps of the worker, the requests completed so far are the first ones
  submitted, in the order of submission; an event that the client still holds has the result of its
  command once the command is completed, which is never \<open>XRP_STATUS_PENDING\<close>, and is pending before.
\<close>

theorem commands_completed_in_order:
  assumes "host_run sys gs base q w"
  shows "map fst (w_done w) = take (length (w_done w)) (map fst (w_sub w)) \<and> (\<forall>d\<in>set (w_done w). snd d \<noteq> XRP_STATUS_PENDING) \<and>
    (\<forall>i e. i < length (w_sub w) \<and> evt_of (w_sub w ! i) = Some e \<and> e \<in> w_held w \<longrightarrow>
      xrp_event_status e (w_host w) = Some (if i < length (w_done w) then snd (w_done w ! i) else XRP_STATUS_PENDING))"
proof -
  obtain dn busy rest where ok: "run_ok gs base q w dn busy rest" using host_run_ok [OF assms] by blast
  then have an: "list_all2 (answer_ok (w_host w) (w_held w) (busy @ rest)) dn (w_done w)" and sub: "w_sub w = dn @ busy @ rest"
    by (simp_all add: run_ok_def)
  have "map fst (w_done w) = map fst dn" using an by (simp add: list_all2_conv_all_nth answer_ok_def list_eq_iff_nth_eq)
  moreover have "length dn = length (w_done w)" using an by (rule list_all2_lengthD)
  moreover have "\<forall>d\<in>set (w_done w). snd d \<noteq> XRP_STATUS_PENDING"
    using an by (simp add: all_set_conv_all_nth list_all2_conv_all_nth answer_ok_def)
  ultimately show ?thesis using event_of_run [OF ok] sub by simp
qed

theorem commands_completed_in_order_witness:
  "\<exists>w s. host_run ex_sys {3} ex_base 2 w \<and> w_done w = [(5, s)] \<and> s \<noteq> XRP_STATUS_PENDING \<and> xrp_event_status 6 (w_host w) = Some s"
proof -
  obtain w s where w: "host_run ex_sys {3} ex_base 2 w" "w_sub w = [(5, Some 3, Some 6)]" "w_done w = [(5, s)]" "w_held w = {6}"
    by (rule ex_completed)
  have "s \<noteq> XRP_STATUS_PENDING \<and> xrp_event_status 6 (w_host w) = Some s" using commands_completed_in_order [OF w(1)] w(2-4) by simp
  then show ?thesis using w by blast
qed







end
