(* ===== verification/XRP_Host_Buffers.thy ===== *)
theory XRP_Host_Buffers
  imports XRP_Host_Run
begin

text \<open>
  Groups of buffers of the host library keep what was put into them and hold one reference per record; and what happens
  when the worker itself drops the last reference to its queue.
\<close>

subsection \<open>Filling and releasing a group\<close>

fun add_buffers :: "nat \<Rightarrow> (nat \<times> u32) list \<Rightarrow> host \<Rightarrow> host option" where
  "add_buffers g [] h = Some h"
| "add_buffers g ((b, fl) # bs) h = do {
     (i, s, h) \<leftarrow> xrp_add_buffer_to_group True g (Some b) fl h;
     if s = XRP_STATUS_SUCCESS then add_buffers g bs h else None
   }"

definition add_refs :: "(nat \<times> u32) list \<Rightarrow> (nat \<Rightarrow> nat) \<Rightarrow> nat \<Rightarrow> nat" where
  "add_refs bs f a = f a + length (filter (\<lambda>b. fst b = a) bs)"

lemma add_refs_Cons: "add_refs ((b, fl) # bs) f = add_refs bs (f(b := f b + 1))"
  by (auto simp: add_refs_def fun_eq_iff)

lemma add_buffer_counts:
  assumes f: "h_ref h = counts f" and g: "0 < f g" and b: "0 < f b"
  shows "\<exists>cap. xrp_add_buffer_to_group True g (Some b) fl h = Some (int (length (g_buffer (h_grp h g))), XRP_STATUS_SUCCESS,
    h\<lparr>h_ref := counts (f(b := f b + 1)), h_grp := (h_grp h)(g := (h_grp h g)\<lparr>g_capacity := cap, g_buffer := g_buffer (h_grp h g) @ [(b, fl)]\<rparr>)\<rparr>)"
proof -
  define G where "G = (if length (g_buffer (h_grp h g)) = g_capacity (h_grp h g) then (h_grp h g)\<lparr>g_capacity := (g_capacity (h_grp h g) + 2) * 2\<rparr> else h_grp h g)"
  have "live h g" using live_counts [OF f] g by simp
  moreover have "xrp_retain_buffer (Some b) (h\<lparr>h_grp := (h_grp h)(g := G)\<rparr>) =
      Some (XRP_STATUS_SUCCESS, h\<lparr>h_grp := (h_grp h)(g := G), h_ref := counts (f(b := f b + 1))\<rparr>)"
    using retain_counts [of "h\<lparr>h_grp := (h_grp h)(g := G)\<rparr>" f b] f b by (simp add: xrp_retain_buffer_def)
  moreover have "xrp_add_buffer_to_group True g (Some b) fl h =
      (if \<not> live h g then None else do {
         (st, h1) \<leftarrow> xrp_retain_buffer (Some b) (h\<lparr>h_grp := (h_grp h)(g := G)\<rparr>);
         if st \<noteq> XRP_STATUS_SUCCESS then Some (- 1, st, h1)
         else Some (int (length (g_buffer G)), XRP_STATUS_SUCCESS, h1\<lparr>h_grp := (h_grp h1)(g := G\<lparr>g_buffer := g_buffer G @ [(b, fl)]\<rparr>)\<rparr>)
       })"
    unfolding xrp_add_buffer_to_group_def Let_def G_def [symmetric] bind.bind_lunit by simp
  moreover have "g_buffer G = g_buffer (h_grp h g)" "G\<lparr>g_buffer := x\<rparr> = (h_grp h g)\<lparr>g_capacity := g_capacity G, g_buffer := x\<rparr>" for x
    by (simp_all add: G_def)
  ultimately show ?thesis by (intro exI [of _ "g_capacity G"]) simp
qed

lemma add_buffers_counts:
  "h_ref h = counts f \<Longrightarrow> 0 < f g \<Longrightarrow> \<forall>b\<in>set bs. 0 < f (fst b) \<Longrightarrow>
   \<exists>h'. add_buffers g bs h = Some h' \<and> h_ref h' = counts (add_refs bs f) \<and> g_buffer (h_grp h' g) = g_buffer (h_grp h g) @ bs \<and> h_buf h' = h_buf h"
proof (induction bs arbitrary: h f)
  case Nil
  then show ?case by (simp add: add_refs_def)
next
  case (Cons r bs)
  obtain b fl where r: "r = (b, fl)" by (cases r)
  obtain cap where add: "xrp_add_buffer_to_group True g (Some b) fl h = Some (int (length (g_buffer (h_grp h g))), XRP_STATUS_SUCCESS,
      h\<lparr>h_ref := counts (f(b := f b + 1)), h_grp := (h_grp h)(g := (h_grp h g)\<lparr>g_capacity := cap, g_buffer := g_buffer (h_grp h g) @ [(b, fl)]\<rparr>)\<rparr>)"
    (is "_ = Some (_, _, ?h)") using add_buffer_counts [of h f g b fl] Cons.prems r by auto
  define f' where "f' = f(b := f b + 1)"
  have "h_ref ?h = counts f'" "0 < f' g" "\<forall>c\<in>set bs. 0 < f' (fst c)" using Cons.prems r by (simp_all add: f'_def)
  from Cons.IH [OF this] show ?case using add unfolding r add_refs_Cons f'_def [symmetric] by simp
qed

lemma release_buffers_counts:
  "h_ref h = counts (add_refs bs f) \<Longrightarrow> \<forall>b\<in>set bs. 0 < f (fst b) \<Longrightarrow>
   \<exists>h'. release_buffers sys bs h = Some h' \<and> h_ref h' = counts f"
proof (induction bs arbitrary: h)
  case Nil
  then show ?case by (simp add: add_refs_def)
next
  case (Cons r bs)
  let ?f = "add_refs (r # bs) f"
  have c: "1 < ?f (fst r)" using Cons.prems(2) by (simp add: add_refs_def)
  have eq: "?f(fst r := ?f (fst r) - 1) = add_refs bs f" by (auto simp: add_refs_def fun_eq_iff)
  have "xrp_release_buffer sys (Some (fst r)) h = Some (XRP_STATUS_SUCCESS, h\<lparr>h_ref := counts (add_refs bs f)\<rparr>)"
    using c release_counts [OF Cons.prems(1), of "fst r"] unfolding eq
    by (simp add: xrp_release_buffer_def last_counts [OF Cons.prems(1)])
  then show ?case using Cons.IH [of "h\<lparr>h_ref := counts (add_refs bs f)\<rparr>"] Cons.prems(2) by simp
qed

lemma group_reads:
  assumes "h_ref h = counts f" and "0 < f g" and "i < length (g_buffer (h_grp h g))" and "0 < f (fst (g_buffer (h_grp h g) ! i))"
  shows "\<exists>h'. xrp_get_buffer_from_group g i h = Some (Some (fst (g_buffer (h_grp h g) ! i)), XRP_STATUS_SUCCESS, h') \<and>
    xrp_buffer_group_get_info g 0 i 4 h = Some (Some (snd (g_buffer (h_grp h g) ! i)), XRP_STATUS_SUCCESS)"
  using assms retain_counts [OF assms(1,4)] live_counts [OF assms(1)]
  by (simp add: xrp_get_buffer_from_group_def xrp_buffer_group_get_info_def xrp_retain_buffer_def Let_def)

text \<open>
  C30: A new group keeps what is added to it.  Adding any buffers that the client holds, also repeatedly, succeeds; every index
  then gives back the buffer and the access that were added there, the number of records is right, and releasing the group gives
  back exactly the references that were taken.
\<close>

theorem group_roundtrip:
  assumes "h_ref h = counts f" and "f (h_next h) = 0" and "\<forall>b\<in>set bs. 0 < f (fst b)"
    and "xrp_create_buffer_group True h = (Some g, XRP_STATUS_SUCCESS, h0)"
  shows "\<exists>h1 h2. add_buffers g bs h0 = Some h1 \<and>
    (\<forall>i<length bs. \<exists>h'. xrp_get_buffer_from_group g i h1 = Some (Some (fst (bs ! i)), XRP_STATUS_SUCCESS, h') \<and>
      xrp_buffer_group_get_info g 0 i 4 h1 = Some (Some (snd (bs ! i)), XRP_STATUS_SUCCESS)) \<and>
    xrp_buffer_group_get_info g 1 0 4 h1 = Some (Some (of_nat (length bs)), XRP_STATUS_SUCCESS) \<and>
    xrp_release_buffer_group sys (Some g) h1 = Some (XRP_STATUS_SUCCESS, h2) \<and> h_ref h2 = h_ref h"
proof -
  define F where "F = f(g := 1)"
  have g: "g = h_next h" and h0: "h_ref h0 = counts F" "g_buffer (h_grp h0 g) = []"
    using assms(4) alloc_counts [OF assms(1)] by (auto simp: xrp_create_buffer_group_def F_def)
  have bs: "\<forall>b\<in>set bs. 0 < F (fst b)" "g \<notin> fst ` set bs" using assms(2,3) g by (auto simp: F_def)
  have Fg: "0 < F g" by (simp add: F_def)
  obtain h1 where h1: "add_buffers g bs h0 = Some h1" "h_ref h1 = counts (add_refs bs F)" "g_buffer (h_grp h1 g) = bs"
    using add_buffers_counts [OF h0(1) Fg bs(1)] h0(2) by auto
  have fg: "add_refs bs F g = 1" using bs(2) by (auto simp: add_refs_def filter_empty_conv F_def)
  have rd: "\<exists>h'. xrp_get_buffer_from_group g i h1 = Some (Some (fst (bs ! i)), XRP_STATUS_SUCCESS, h') \<and>
      xrp_buffer_group_get_info g 0 i 4 h1 = Some (Some (snd (bs ! i)), XRP_STATUS_SUCCESS)" if "i < length bs" for i
    using group_reads [OF h1(2), of g i] fg Fg that bs(1) h1(3) by (simp add: add_refs_def)
  have nb: "xrp_buffer_group_get_info g 1 0 4 h1 = Some (Some (of_nat (length bs)), XRP_STATUS_SUCCESS)"
    using live_counts [OF h1(2)] fg h1(3) by (simp add: xrp_buffer_group_get_info_def Let_def)
  obtain h2 where h2: "release_buffers sys bs h1 = Some h2" "h_ref h2 = counts F" using release_buffers_counts [OF h1(2) bs(1)] by blast
  have "counts (F(g := 0)) = h_ref h" using assms(1,2) g by (simp add: F_def fun_upd_idem)
  moreover have Fg1: "F g = 1" by (simp add: F_def)
  ultimately have "xrp_release_buffer_group sys (Some g) h1 = Some (XRP_STATUS_SUCCESS, h2\<lparr>h_ref := h_ref h\<rparr>)"
    using release_counts [OF h2(2) Fg] Fg1 last_counts [OF h1(2), of g] fg h1(3) h2(1) by (simp add: xrp_release_buffer_group_def)
  then show ?thesis using h1(1) rd nb by (intro exI [of _ h1] exI) auto
qed

definition buffers_host :: host where
  "buffers_host = \<lparr>h_ref = counts (\<lambda>a. if a = 1 \<or> a = 2 then 1 else 0), h_dev = (\<lambda>_. \<lparr>d_fd = 9\<rparr>),
     h_buf = (\<lambda>_. \<lparr>b_device = None, b_type = XRP_BUFFER_TYPE_HOST, b_ptr = 0x1000, b_size = 64, b_map_count = 0, b_map_flags = 0\<rparr>),
     h_grp = (\<lambda>_. \<lparr>g_capacity = 0, g_buffer = []\<rparr>),
     h_que = (\<lambda>_. \<lparr>qu_device = 1, qu_use_nsid = False, qu_nsid = replicate 16 0, qu_head = None, qu_tail = None, qu_exit = False\<rparr>),
     h_evt = (\<lambda>_. \<lparr>e_queue = 0, e_status = XRP_STATUS_SUCCESS\<rparr>), h_rq = (\<lambda>_. None), h_next = 3, h_mem = (\<lambda>_. 0),
     h_sync_exit = (\<lambda>_. False)\<rparr>"

definition buffers_sys :: sys where
  "buffers_sys = \<lparr>s_close_ok = True, s_free_ok = (\<lambda>_. True), s_queue = (\<lambda>fd iq bs nsid m. (True, m)), s_stack = 0x7000, s_nsid = (\<lambda>_. 0x7100)\<rparr>"

theorem group_roundtrip_witness:
  "\<exists>h0 h1 h2 h'. xrp_create_buffer_group True buffers_host = (Some 3, XRP_STATUS_SUCCESS, h0) \<and> add_buffers 3 [(1, 1), (2, 3), (1, 2)] h0 = Some h1 \<and>
     xrp_get_buffer_from_group 3 2 h1 = Some (Some 1, XRP_STATUS_SUCCESS, h') \<and>
     xrp_release_buffer_group buffers_sys (Some 3) h1 = Some (XRP_STATUS_SUCCESS, h2) \<and> h_ref h2 = h_ref buffers_host"
proof -
  obtain h0 where h0: "xrp_create_buffer_group True buffers_host = (Some 3, XRP_STATUS_SUCCESS, h0)"
    by (simp add: xrp_create_buffer_group_def alloc_refcounted_def buffers_host_def)
  have f: "h_ref buffers_host = counts (\<lambda>a. if a = 1 \<or> a = 2 then 1 else 0)" by (simp add: buffers_host_def)
  obtain h1 h2 where h: "add_buffers 3 [(1, 1), (2, 3), (1, 2)] h0 = Some h1"
      "\<forall>i<3. \<exists>h'. xrp_get_buffer_from_group 3 i h1 = Some (Some (fst ([(1, 1 :: u32), (2, 3), (1, 2)] ! i)), XRP_STATUS_SUCCESS, h')"
      "xrp_release_buffer_group buffers_sys (Some 3) h1 = Some (XRP_STATUS_SUCCESS, h2)" "h_ref h2 = h_ref buffers_host"
    using group_roundtrip [OF f _ _ h0, of "[(1, 1), (2, 3), (1, 2)]" buffers_sys] by (auto simp: buffers_host_def)
  obtain h' where "xrp_get_buffer_from_group 3 2 h1 = Some (Some 1, XRP_STATUS_SUCCESS, h')" using h(2) [rule_format, of 2] by auto
  then show ?thesis using h0 h by blast
qed

subsection \<open>The worker drops the last reference to its queue\<close>

text \<open>
  C37: If the client has released the queue and the event of its last command, completing the command releases the event, the queue
  and the reference to the device, without joining the worker to itself, and tells the worker to return.  Requests
  without an event that are still in the queue are neither run nor freed.
\<close>

theorem worker_release_drops_requests:
  assumes "h_ref h = counts f" and "f e = 1" "f q = 1" "1 < f (qu_device (h_que h q))" and "distinct [e, q, qu_device (h_que h q)]"
    and "e_queue (h_evt h e) = q" and "queue_list q h xs" "rq \<notin> set xs"
    and "h_rq h rq = Some r" "r_buffer_group r = None" "r_event r = Some e"
  shows "\<exists>h'. xrp_queue_complete sys q rq s h = Some (False, h') \<and>
    h_ref h' = counts (f(e := 0, q := 0, qu_device (h_que h q) := f (qu_device (h_que h q)) - 1)) \<and>
    (\<forall>x\<in>set xs. h_rq h' x = h_rq h x \<and> h_rq h' x \<noteq> None)"
proof -
  let ?d = "qu_device (h_que h q)"
  let ?h1 = "h\<lparr>h_evt := (h_evt h)(e := (h_evt h e)\<lparr>e_status := s\<rparr>)\<rparr>"
  let ?h2 = "?h1\<lparr>h_que := (h_que h)(q := (h_que h q)\<lparr>qu_exit := True\<rparr>), h_sync_exit := (h_sync_exit h)(q := True)\<rparr>"
  have dev: "xrp_release_device (s_close_ok sys) (Some ?d) ?h2 = Some (XRP_STATUS_SUCCESS, ?h2\<lparr>h_ref := counts (f(?d := f ?d - 1))\<rparr>)"
    using release_counts [of ?h2 f ?d] last_counts [of ?h2 f ?d] assms(1,4) by (simp add: xrp_release_device_def)
  have que: "xrp_release_queue sys self_join (Some q) ?h1 = Some (XRP_STATUS_SUCCESS, ?h2\<lparr>h_ref := counts (f(?d := f ?d - 1, q := 0))\<rparr>)"
    using last_counts [of ?h1 f q] release_counts [of "?h2\<lparr>h_ref := counts (f(?d := f ?d - 1))\<rparr>" "f(?d := f ?d - 1)" q] dev assms(1,3,5)
    by (simp add: xrp_release_queue_def self_join_def Let_def)
  let ?h3 = "?h2\<lparr>h_ref := counts (f(?d := f ?d - 1, q := 0, e := 0))\<rparr>"
  have "xrp_release_event sys self_join (Some e) ?h1 = Some (XRP_STATUS_SUCCESS, ?h3)"
    using last_counts [of ?h1 f e] release_counts [of "?h2\<lparr>h_ref := counts (f(?d := f ?d - 1, q := 0))\<rparr>" "f(?d := f ?d - 1, q := 0)" e]
      que assms(1,2,5,6) by (simp add: xrp_release_event_def)
  then have "xrp_queue_complete sys q rq s h = Some (False, ?h3\<lparr>h_rq := (h_rq h)(rq := None)\<rparr>)"
    using assms(9-11) live_counts [OF assms(1)] assms(2) by (simp add: xrp_queue_complete_def)
  moreover have "f(?d := f ?d - 1, q := 0, e := 0) = f(e := 0, q := 0, ?d := f ?d - 1)" using assms(5) by (auto simp: fun_eq_iff)
  moreover have "\<forall>x\<in>set xs. h_rq h x \<noteq> None" using assms(7) chain_defined by (simp add: queue_list_def) blast
  ultimately show ?thesis using assms(8) by auto
qed

definition released_host :: host where
  "released_host = buffers_host\<lparr>h_ref := counts (\<lambda>a. if a = 1 then 2 else if a = 2 \<or> a = 6 then 1 else 0),
     h_que := (\<lambda>_. \<lparr>qu_device = 1, qu_use_nsid = False, qu_nsid = replicate 16 0, qu_head = Some 7, qu_tail = Some 7, qu_exit = False\<rparr>),
     h_evt := (\<lambda>_. \<lparr>e_queue = 2, e_status = XRP_STATUS_PENDING\<rparr>),
     h_rq := (\<lambda>a. if a = 5 then Some \<lparr>r_next = None, r_in_data = 0, r_out_data = 0, r_in_data_size = 0, r_out_data_size = 0, r_buffer_group = None, r_event = Some 6\<rparr>
       else if a = 7 then Some \<lparr>r_next = None, r_in_data = 0, r_out_data = 0, r_in_data_size = 0, r_out_data_size = 0, r_buffer_group = None, r_event = None\<rparr>
       else None)\<rparr>"

theorem worker_release_drops_requests_witness:
  "\<exists>h'. xrp_queue_complete buffers_sys 2 5 XRP_STATUS_SUCCESS released_host = Some (False, h') \<and> h_ref h' 2 = None \<and> h_ref h' 6 = None \<and>
     h_ref h' 1 = Some 1 \<and> h_rq h' 7 \<noteq> None"
proof -
  let ?f = "\<lambda>a :: nat. if a = 1 then 2 else if a = 2 \<or> a = 6 then 1 else 0 :: nat"
  have "\<exists>h'. xrp_queue_complete buffers_sys 2 5 XRP_STATUS_SUCCESS released_host = Some (False, h') \<and>
      h_ref h' = counts (?f(6 := 0, 2 := 0, qu_device (h_que released_host 2) := ?f (qu_device (h_que released_host 2)) - 1)) \<and>
      (\<forall>x\<in>set [7]. h_rq h' x = h_rq released_host x \<and> h_rq h' x \<noteq> None)"
    by (rule worker_release_drops_requests) (simp_all add: released_host_def queue_list_def live_def counts_def, simp_all)
  then show ?thesis by (auto simp: counts_def released_host_def)
qed

end
