(* ===== verification/XRP_Host_Sim.thy ===== *)
theory XRP_Host_Sim
  imports XRP_Pool XRP_Hw "HOL-Library.Monad_Syntax"
begin

text \<open>
  The host library for the simulator, \<^verbatim>\<open>xrp-linux-sim/xrp_linux_sim.c\<close>: shared memory windows, the description of the
  devices from the device tree, synchronisation, and commands.  Data and descriptors that do not fit into a command are placed
  in the private pool of the device, which is the allocator of \<^theory_text>\<open>XRP_Alloc\<close> compiled for the host.

  Addresses of the process and of the device are 32-bit words.  The device tree functions of libfdt are parameters: a
  property of a node is its bytes.  A null or wild pointer that is used is \<open>None\<close>.
\<close>

subsection \<open>Shared memory\<close>

record xrp_shmem =
  sh_start :: u32
  sh_size :: u32
  sh_ptr :: u32

definition find_shmem_by_phys :: "xrp_shmem list \<Rightarrow> u32 \<Rightarrow> xrp_shmem option" where
  "find_shmem_by_phys shm addr = find (\<lambda>s. sh_start s \<le> addr \<and> addr - sh_start s < sh_size s) shm"

definition find_shmem_by_virt :: "xrp_shmem list \<Rightarrow> u32 \<Rightarrow> xrp_shmem option" where
  "find_shmem_by_virt shm p = find (\<lambda>s. sh_ptr s \<le> p \<and> p - sh_ptr s < sh_size s) shm"

text \<open>A null pointer is \<open>None\<close>, also when it is computed from a window that could not be mapped.\<close>

definition p2v :: "xrp_shmem list \<Rightarrow> u32 \<Rightarrow> u32 option" where
  "p2v shm addr =
     (case find_shmem_by_phys shm addr of
        Some s \<Rightarrow> let p = sh_ptr s + addr - sh_start s in if p = 0 then None else Some p
      | None \<Rightarrow> None)"

definition v2p :: "xrp_shmem list \<Rightarrow> u32 \<Rightarrow> u32" where
  "v2p shm p = (case find_shmem_by_virt shm p of Some s \<Rightarrow> sh_start s + p - sh_ptr s | None \<Rightarrow> 0)"

text \<open>Big-endian words of a property.\<close>

definition getprop_u32 :: "u8 list \<Rightarrow> nat \<Rightarrow> u32" where
  "getprop_u32 value offset = of_bytes32 (rev (take 4 (drop offset value)))"

text \<open>
  \<open>initialize_shmem\<close>: \<open>node\<close> gives the properties of the node, if there is one; \<open>opened i\<close> says whether window \<open>i\<close> could be opened,
  sized and mapped, and where; \<open>junk\<close> is what the array held when it was allocated.  After a failure
  the other entries keep that, and are counted nevertheless.  The result is the array and the exit location.
\<close>

datatype shm_result = Shm_failed | Map_failed | Mapped u32

fun shmem_loop :: "u8 list \<Rightarrow> (nat \<Rightarrow> shm_result) \<Rightarrow> (nat \<Rightarrow> xrp_shmem) \<Rightarrow> nat \<Rightarrow> nat \<Rightarrow> xrp_shmem list" where
  "shmem_loop reg opened junk i 0 = []"
| "shmem_loop reg opened junk i (Suc n) =
     (let s = \<lparr>sh_start = getprop_u32 reg (8 * i), sh_size = getprop_u32 reg (8 * i + 4), sh_ptr = 0\<rparr> in
      case opened i of
        Shm_failed \<Rightarrow> s # map junk [Suc i..<Suc i + n]
      | Map_failed \<Rightarrow> s\<lparr>sh_ptr := - 1\<rparr> # map junk [Suc i..<Suc i + n]
      | Mapped p \<Rightarrow> s\<lparr>sh_ptr := p\<rparr> # shmem_loop reg opened junk (Suc i) n)"

definition initialize_shmem ::
  "(string \<Rightarrow> u8 list option) option \<Rightarrow> (nat \<Rightarrow> shm_result) \<Rightarrow> (nat \<Rightarrow> xrp_shmem) \<Rightarrow> xrp_shmem list \<times> u32" where
  "initialize_shmem node opened junk =
     (case node of
        None \<Rightarrow> ([], 0)
      | Some prop \<Rightarrow>
          (case (prop ''reg'', prop ''reg-names'') of
             (Some reg, Some names) \<Rightarrow>
               (shmem_loop reg opened junk 0 (length reg div 8), case prop ''exit-loc'' of Some e \<Rightarrow> getprop_u32 e 0 | None \<Rightarrow> 0)
           | _ \<Rightarrow> ([], 0)))"

subsection \<open>Devices\<close>

record xrp_device_description =
  io_base :: u32
  comm_base :: u32
  shared_base :: u32
  shared_size :: u32
  comm_ptr :: u32
  shared_ptr :: u32
  s_device_irq_mode :: u32
  s_device_irq :: "u32 list"
  s_device_irq_host_offset :: u32
  shared_pool :: xrp_private_pool

definition empty_description :: xrp_device_description where
  "empty_description = \<lparr>io_base = 0, comm_base = 0, shared_base = 0, shared_size = 0, comm_ptr = 0, shared_ptr = 0,
     s_device_irq_mode = 0, s_device_irq = [0, 0, 0], s_device_irq_host_offset = 0,
     shared_pool = \<lparr>p_start = 0, p_size = 0, free_list = []\<rparr>\<rparr>"

text \<open>The functions return zero for \<open>None\<close>.  The result of \<open>xrp_init_private_pool\<close> is not checked: without memory there is no pool.\<close>

definition init_cdns_xrp_common :: "xrp_shmem list \<Rightarrow> xrp_device_description \<Rightarrow> xrp_device_description option" where
  "init_cdns_xrp_common shm d = do {
     c \<leftarrow> p2v shm (comm_base d);
     s \<leftarrow> p2v shm (shared_base d);
     Some (d\<lparr>comm_ptr := c, shared_ptr := s,
       shared_pool := (case xrp_init_private_pool True True (shared_base d) (shared_size d) of Inr p \<Rightarrow> p | Inl e \<Rightarrow> shared_pool d)\<rparr>)
   }"

definition init_cdns_xrp :: "xrp_shmem list \<Rightarrow> (string \<Rightarrow> u8 list option) \<Rightarrow> xrp_device_description option" where
  "init_cdns_xrp shm prop = do {
     reg \<leftarrow> prop ''reg'';
     if length reg < 24 then None
     else init_cdns_xrp_common shm (empty_description\<lparr>io_base := getprop_u32 reg 0, comm_base := getprop_u32 reg 8,
       shared_base := getprop_u32 reg 16, shared_size := getprop_u32 reg 20\<rparr>)
   }"

definition init_cdns_xrp_v1 :: "xrp_shmem list \<Rightarrow> (string \<Rightarrow> u8 list option) \<Rightarrow> xrp_device_description option" where
  "init_cdns_xrp_v1 shm prop = do {
     reg \<leftarrow> prop ''reg'';
     if length reg < 16 then None
     else init_cdns_xrp_common shm (empty_description\<lparr>comm_base := getprop_u32 reg 0, shared_base := getprop_u32 reg 0 + 4096,
       shared_size := getprop_u32 reg 4 - 4096, io_base := getprop_u32 reg 8\<rparr>)
   }"

definition init_cdns_xrp_hw_simple_common :: "(string \<Rightarrow> u8 list option) \<Rightarrow> xrp_device_description \<Rightarrow> xrp_device_description" where
  "init_cdns_xrp_hw_simple_common prop d =
     (case prop ''device-irq-mode'' of
        None \<Rightarrow> d
      | Some mode \<Rightarrow>
          if length mode < 4 \<or> getprop_u32 mode 0 = 0 then d
          else case prop ''device-irq'' of
                 None \<Rightarrow> d
               | Some irq \<Rightarrow>
                   if length irq < 12 then d
                   else d\<lparr>s_device_irq_mode := getprop_u32 mode 0,
                          s_device_irq := [getprop_u32 irq 0, getprop_u32 irq 4, getprop_u32 irq 8],
                          s_device_irq_host_offset :=
                            (case prop ''device-irq-host-offset'' of
                               Some off \<Rightarrow> if length off < 4 then getprop_u32 irq 0 else getprop_u32 off 0
                             | None \<Rightarrow> getprop_u32 irq 0)\<rparr>)"

definition init_cdns_xrp_hw_simple :: "xrp_shmem list \<Rightarrow> (string \<Rightarrow> u8 list option) \<Rightarrow> xrp_device_description option" where
  "init_cdns_xrp_hw_simple shm prop = map_option (init_cdns_xrp_hw_simple_common prop) (init_cdns_xrp shm prop)"

definition init_cdns_xrp_hw_simple_v1 :: "xrp_shmem list \<Rightarrow> (string \<Rightarrow> u8 list option) \<Rightarrow> xrp_device_description option" where
  "init_cdns_xrp_hw_simple_v1 shm prop = map_option (init_cdns_xrp_hw_simple_common prop) (init_cdns_xrp_v1 shm prop)"

subsection \<open>Synchronisation\<close>

definition xrp_send_device_irq :: "xrp_shmem list \<Rightarrow> xrp_device_description \<Rightarrow> mem \<Rightarrow> mem option" where
  "xrp_send_device_irq shm d m =
     (let mode = s_device_irq_mode d in
      if mode \<noteq> 1 \<and> mode \<noteq> 2 then Some m
      else do {
        p \<leftarrow> p2v shm (io_base d + s_device_irq_host_offset d);
        let m = (if mode = 2 then write32 m p 0 else m);
        Some (write32 m p (push_bit (unat (s_device_irq d ! 1)) 1))
      })"

text \<open>
  Waiting for a value of the synchronisation word: \<open>dsp n\<close> is what the DSP does to the memory before the read number \<open>n\<close>.  A
  value that never comes is \<open>None\<close>.
\<close>

partial_function (option) sync_spin :: "(nat \<Rightarrow> mem \<Rightarrow> mem) \<Rightarrow> u32 \<Rightarrow> u32 \<Rightarrow> nat \<Rightarrow> mem \<Rightarrow> (nat \<times> mem) option" where
  "sync_spin dsp p v n m = (if read32 (dsp n m) p = v then Some (Suc n, dsp n m) else sync_spin dsp p v (Suc n) (dsp n m))"

fun write_words :: "mem \<Rightarrow> u32 \<Rightarrow> u32 list \<Rightarrow> mem" where
  "write_words m p [] = m"
| "write_words m p (w # ws) = write_words (write32 m p w) (p + 4) ws"

definition sync_words :: "xrp_device_description \<Rightarrow> u32 list" where
  "sync_words d = [io_base d, 0, 0, 0, s_device_irq_mode d, s_device_irq d ! 0, s_device_irq d ! 1, s_device_irq d ! 2]"

definition synchronize :: "(nat \<Rightarrow> mem \<Rightarrow> mem) \<Rightarrow> xrp_shmem list \<Rightarrow> xrp_device_description \<Rightarrow> mem \<Rightarrow> mem option" where
  "synchronize dsp shm d m = do {
     let sync = comm_ptr d;
     m \<leftarrow> xrp_send_device_irq shm d (write32 m sync XRP_DSP_SYNC_START);
     (n, m) \<leftarrow> sync_spin dsp sync XRP_DSP_SYNC_DSP_READY 0 m;
     if 2 < s_device_irq_mode d then None
     else do {
       (n, m) \<leftarrow> sync_spin dsp sync XRP_DSP_SYNC_DSP_TO_HOST n
         (write32 (write_words m (sync + 4) (sync_words d)) sync XRP_DSP_SYNC_HOST_TO_DSP);
       m \<leftarrow> xrp_send_device_irq shm d m;
       Some (write32 m sync XRP_DSP_SYNC_IDLE)
     }
   }"

text \<open>
  \<open>nodes c\<close> are the nodes compatible with \<open>c\<close>, in the order of the tree, and \<open>need\<close> is the length of \<open>reg\<close> that they must have.  There is
  room for four devices; the description of a fifth is written behind the array.
\<close>

fun init_nodes ::
  "(nat \<Rightarrow> mem \<Rightarrow> mem) \<Rightarrow> xrp_shmem list \<Rightarrow> ((string \<Rightarrow> u8 list option) \<Rightarrow> xrp_device_description option) \<Rightarrow>
   nat \<Rightarrow> (string \<Rightarrow> u8 list option) list \<Rightarrow> xrp_device_description list \<Rightarrow> mem \<Rightarrow> (xrp_device_description list \<times> mem) option" where
  "init_nodes dsp shm f need [] ds m = Some (ds, m)"
| "init_nodes dsp shm f need (prop # nodes) ds m =
     (if 4 \<le> length ds \<and> (case prop ''reg'' of Some r \<Rightarrow> need \<le> length r | None \<Rightarrow> False) then None
      else case f prop of
             None \<Rightarrow> init_nodes dsp shm f need nodes ds m
           | Some d \<Rightarrow> do { m \<leftarrow> synchronize dsp shm d m; init_nodes dsp shm f need nodes (ds @ [d]) m })"

text \<open>The windows come from the first node that is compatible with \<open>cdns,sim-shmem\<close>.  The result are the windows, the exit location and the devices.\<close>

definition initialize ::
  "(nat \<Rightarrow> mem \<Rightarrow> mem) \<Rightarrow> (string \<Rightarrow> (string \<Rightarrow> u8 list option) list) \<Rightarrow> (nat \<Rightarrow> shm_result) \<Rightarrow> (nat \<Rightarrow> xrp_shmem) \<Rightarrow> mem \<Rightarrow>
   (xrp_shmem list \<times> u32 \<times> xrp_device_description list \<times> mem) option" where
  "initialize dsp nodes opened junk m = do {
     let (shm, exit_loc) = initialize_shmem (case nodes ''cdns,sim-shmem'' of [] \<Rightarrow> None | prop # _ \<Rightarrow> Some prop) opened junk;
     (ds, m) \<leftarrow> init_nodes dsp shm (init_cdns_xrp shm) 24 (nodes ''cdns,xrp'') [] m;
     (ds, m) \<leftarrow> init_nodes dsp shm (init_cdns_xrp_v1 shm) 16 (nodes ''cdns,xrp,v1'') ds m;
     (ds, m) \<leftarrow> init_nodes dsp shm (init_cdns_xrp_hw_simple shm) 24 (nodes ''cdns,xrp-hw-simple'') ds m;
     (ds, m) \<leftarrow> init_nodes dsp shm (init_cdns_xrp_hw_simple_v1 shm) 16 (nodes ''cdns,xrp-hw-simple,v1'') ds m;
     Some (shm, exit_loc, ds, m)
   }"

text \<open>\<open>xrp_open_device\<close> for an index, with the number of devices found; the result is the index of the description.\<close>

definition xrp_open_device :: "bool \<Rightarrow> nat \<Rightarrow> int \<Rightarrow> nat option" where
  "xrp_open_device calloc_ok device_count idx =
     (if idx < 0 \<or> int device_count < idx then None else if \<not> calloc_ok then None else Some (nat idx))"

definition xrp_exit :: "xrp_shmem list \<Rightarrow> u32 \<Rightarrow> mem \<Rightarrow> mem option" where
  "xrp_exit shm exit_loc m = do { p \<leftarrow> p2v shm exit_loc; Some (write32 m p 0xff) }"

subsection \<open>Address translation\<close>

text \<open>Windows that are mapped, do not wrap around and do not overlap, neither as the device nor as the process sees them.\<close>

definition window_ok :: "xrp_shmem \<Rightarrow> bool" where
  "window_ok s \<longleftrightarrow> sh_ptr s \<noteq> 0 \<and> unat (sh_start s) + unat (sh_size s) \<le> 2 ^ 32 \<and> unat (sh_ptr s) + unat (sh_size s) \<le> 2 ^ 32"

definition apart :: "u32 \<Rightarrow> u32 \<Rightarrow> u32 \<Rightarrow> u32 \<Rightarrow> bool" where
  "apart a n b k \<longleftrightarrow> unat a + unat n \<le> unat b \<or> unat b + unat k \<le> unat a"

definition windows_ok :: "xrp_shmem list \<Rightarrow> bool" where
  "windows_ok shm \<longleftrightarrow> list_all window_ok shm \<and>
     sorted_wrt (\<lambda>s t. apart (sh_start s) (sh_size s) (sh_start t) (sh_size t) \<and> apart (sh_ptr s) (sh_size s) (sh_ptr t) (sh_size t)) shm"

lemma in_window: "a \<le> p \<and> p - a < n \<longleftrightarrow> unat a \<le> unat p \<and> unat p < unat a + unat n" for a p n :: u32
  by (auto simp: word_le_nat_alt word_less_nat_alt unat_sub)

lemma find_unique:
  assumes "sorted_wrt Q xs" and "s \<in> set xs" and "P s" and "\<And>x y. Q x y \<Longrightarrow> \<not> (P x \<and> P y)"
  shows "find P xs = Some s"
  using assms(1-3) by (induction xs) (use assms(4) in auto)

lemma windows_sorted:
  assumes "windows_ok shm"
  shows "sorted_wrt (\<lambda>s t. apart (sh_start s) (sh_size s) (sh_start t) (sh_size t)) shm"
    and "sorted_wrt (\<lambda>s t. apart (sh_ptr s) (sh_size s) (sh_ptr t) (sh_size t)) shm"
  using assms by (auto simp: windows_ok_def elim: sorted_wrt_mono_rel [rotated])

lemma find_by_virt:
  assumes "windows_ok shm" and "s \<in> set shm" and "sh_ptr s \<le> p \<and> p - sh_ptr s < sh_size s"
  shows "find_shmem_by_virt shm p = Some s"
  unfolding find_shmem_by_virt_def using windows_sorted(2) [OF assms(1)] assms(2,3)
  by (rule find_unique) (auto simp: in_window apart_def)

lemma find_by_phys:
  assumes "windows_ok shm" and "s \<in> set shm" and "sh_start s \<le> a \<and> a - sh_start s < sh_size s"
  shows "find_shmem_by_phys shm a = Some s"
  unfolding find_shmem_by_phys_def using windows_sorted(1) [OF assms(1)] assms(2,3)
  by (rule find_unique) (auto simp: in_window apart_def)

text \<open>A window maps offsets to offsets; nothing wraps.\<close>

lemma window_offset:
  fixes a b n p :: u32
  assumes "a \<le> p" and "p - a < n" and "unat b + unat n \<le> 2 ^ 32"
  shows "b \<le> b + p - a" and "b + p - a - b < n"
proof -
  have "unat (p - a) < unat n" using assms(2) by (simp add: word_less_nat_alt)
  then have "unat (b + (p - a)) = unat b + unat (p - a)" using assms(3) by (intro unat_add_lem [THEN iffD1]) simp
  then show "b \<le> b + p - a" by (simp add: word_le_nat_alt add_diff_eq)
  show "b + p - a - b < n" using assms(2) by simp
qed

text \<open>
  C31: the translation between the addresses of the device and of the process is a bijection between the shared memory windows.  What
  \<open>p2v\<close> gives for an address of the device translates back to that address, and an address of the process inside a window
  translates to an address of the device from which \<open>p2v\<close> recovers it.
\<close>

theorem shmem_translation_roundtrip:
  assumes "windows_ok shm"
  shows "(p2v shm a = Some v \<longrightarrow> v2p shm v = a) \<and> (find_shmem_by_virt shm v \<noteq> None \<longrightarrow> p2v shm (v2p shm v) = Some v)"
proof (intro conjI impI)
  have w: "unat (sh_start s) + unat (sh_size s) \<le> 2 ^ 32" "unat (sh_ptr s) + unat (sh_size s) \<le> 2 ^ 32" "sh_ptr s \<noteq> 0" if "s \<in> set shm" for s
    using assms that by (auto simp: windows_ok_def window_ok_def list_all_iff)
  show "v2p shm v = a" if p: "p2v shm a = Some v"
  proof -
    obtain s where f: "find_shmem_by_phys shm a = Some s" and v: "v = sh_ptr s + a - sh_start s"
      using p by (auto simp: p2v_def Let_def split: option.split_asm if_split_asm)
    then have s: "s \<in> set shm" "sh_start s \<le> a" "a - sh_start s < sh_size s"
      by (auto simp: find_shmem_by_phys_def find_Some_iff)
    show ?thesis
      using v find_by_virt [OF assms s(1)] window_offset [OF s(2,3) w(2) [OF s(1)]] by (simp add: v2p_def)
  qed
  show "p2v shm (v2p shm v) = Some v" if v: "find_shmem_by_virt shm v \<noteq> None"
  proof -
    obtain s where f: "find_shmem_by_virt shm v = Some s" using v by blast
    then have s: "s \<in> set shm" "sh_ptr s \<le> v" "v - sh_ptr s < sh_size s"
      by (auto simp: find_shmem_by_virt_def find_Some_iff)
    then show ?thesis
      using find_by_phys [OF assms s(1)] window_offset [OF s(2,3) w(1) [OF s(1)]] w(3) [OF s(1)] f by (auto simp: v2p_def p2v_def)
  qed
qed

text \<open>Two windows, one above the other for the device and the other way round in the process.\<close>

definition two_windows :: "xrp_shmem list" where
  "two_windows = [\<lparr>sh_start = 0x10000000, sh_size = 0x2000, sh_ptr = 0x50003000\<rparr>, \<lparr>sh_start = 0x20000000, sh_size = 0x1000, sh_ptr = 0x40000000\<rparr>]"

theorem shmem_translation_roundtrip_witness:
  "windows_ok two_windows \<and> v2p two_windows 0x40000010 = 0x20000010 \<and> p2v two_windows (v2p two_windows 0x50003004) = Some 0x50003004"
proof -
  have ok: "windows_ok two_windows" by (simp add: two_windows_def windows_ok_def window_ok_def apart_def)
  have "p2v two_windows 0x20000010 = Some 0x40000010"
    by (simp add: p2v_def find_shmem_by_phys_def two_windows_def)
  moreover have "find_shmem_by_virt two_windows 0x50003004 \<noteq> None"
    by (simp add: find_shmem_by_virt_def two_windows_def)
  ultimately show ?thesis using shmem_translation_roundtrip [OF ok] ok by blast
qed

end
