(* ===== verification/XRP_Sim_Command.thy ===== *)
theory XRP_Sim_Command
  imports XRP_Host_Sim XRP_Address_Map
begin

text \<open>
  Commands of the simulator library: \<open>xrp_enqueue_command\<close> builds the command for the DSP in the request and places what does not fit in
  the shared pool; \<open>xrp_queue_process\<close> hands the command to the DSP, waits for the answer, copies the results back and frees what was
  allocated.  Queues, reference counts and groups are the code of \<^theory_text>\<open>XRP_Host_Native\<close>; here a group is the list of its
  records, with its lock and the number of references that commands hold.

  The pool is used through the functions of \<^theory_text>\<open>XRP_Pool\<close>'s interface, and the lemmas are proved for every provider of it.
\<close>

subsection \<open>Data\<close>

record sim_buffer =
  sb_ref :: nat
  sb_device :: bool
  sb_alloc :: xrp_allocation
  sb_ptr :: u32
  sb_size :: u32
  sb_map_count :: u32
  sb_map_flags :: u32

type_synonym sim_group = "(sim_buffer \<times> u32) list"

text \<open>A request; \<open>sq_cmd\<close> is the address of its \<open>dsp_cmd\<close>.  Null pointers are \<open>None\<close>.\<close>

record sim_request =
  sq_cmd :: u32
  sq_n_buffers :: nat
  sq_in_data_size :: u32
  sq_out_data :: u32
  sq_out_data_ptr :: "u32 option"
  sq_out_data_size :: u32
  sq_group :: "sim_group option"
  sq_event :: "nat option"
  sq_in_alloc :: "xrp_allocation option"
  sq_out_alloc :: "xrp_allocation option"
  sq_buf_alloc :: "xrp_allocation option"
  sq_user :: "xrp_allocation option list"
  sq_buffer_ptr :: "u32 option"

text \<open>The process: its memory, the pool of the device, the group of the command, and the events with their counts.\<close>

record 'p sim =
  sm_mem :: mem
  sm_pool :: 'p
  sm_locked :: bool
  sm_group_refs :: nat
  sm_events :: "nat \<Rightarrow> (nat \<times> xrp_status) option"

text \<open>A stage returns the request and the state, or the state in which the command is refused.\<close>

type_synonym 'p sim_result = "('p sim + (sim_request \<times> 'p sim)) option"

type_synonym 'p alloc_fun = "'p \<Rightarrow> u32 \<Rightarrow> u32 \<Rightarrow> (errno + xrp_allocation) \<times> 'p"

definition sim_then :: "'p sim_result \<Rightarrow> (sim_request \<Rightarrow> 'p sim \<Rightarrow> 'p sim_result) \<Rightarrow> 'p sim_result" where
  "sim_then r f = (case r of None \<Rightarrow> None | Some (Inl st) \<Rightarrow> Some (Inl st) | Some (Inr (rq, st)) \<Rightarrow> f rq st)"

subsection \<open>Buffers\<close>

text \<open>A buffer of the device is allocated in the pool; otherwise the caller gives its memory.\<close>

definition xrp_create_buffer ::
  "'p alloc_fun \<Rightarrow> xrp_shmem list \<Rightarrow> bool \<Rightarrow> bool \<Rightarrow> u32 \<Rightarrow> u32 option \<Rightarrow> 'p \<Rightarrow> sim_buffer option \<times> 'p" where
  "xrp_create_buffer al shm calloc_ok has_device sz host_ptr p =
     (let buf = \<lparr>sb_ref = 1, sb_device = False, sb_alloc = \<lparr>a_start = 0, a_size = 0, a_ref = 0\<rparr>, sb_ptr = 0, sb_size = 0,
            sb_map_count = 0, sb_map_flags = 0\<rparr> in
      if host_ptr = None \<and> \<not> has_device then (None, p)
      else if \<not> calloc_ok then (None, p)
      else case host_ptr of
             Some h \<Rightarrow> (Some (buf\<lparr>sb_ptr := h, sb_size := sz\<rparr>), p)
           | None \<Rightarrow>
               (case al p sz 0x10 of
                  (Inl e, p) \<Rightarrow> (None, p)
                | (Inr a, p) \<Rightarrow> (Some (buf\<lparr>sb_device := True, sb_alloc := a,
                    sb_ptr := (case p2v shm (a_start a) of Some v \<Rightarrow> v | None \<Rightarrow> 0), sb_size := sz\<rparr>), p)))"

definition xrp_retain_buffer :: "sim_buffer \<Rightarrow> sim_buffer" where
  "xrp_retain_buffer b = b\<lparr>sb_ref := sb_ref b + 1\<rparr>"

definition xrp_release_buffer :: "('p \<Rightarrow> xrp_allocation \<Rightarrow> 'p) \<Rightarrow> sim_buffer \<Rightarrow> 'p \<Rightarrow> sim_buffer option \<times> 'p" where
  "xrp_release_buffer fr b p =
     (let p = (if sb_ref b = 1 \<and> sb_device b then fr p (sb_alloc b) else p) in
      (if sb_ref b - 1 = 0 then None else Some (b\<lparr>sb_ref := sb_ref b - 1\<rparr>), p))"

definition xrp_map_buffer :: "sim_buffer \<Rightarrow> u32 \<Rightarrow> u32 \<Rightarrow> u32 \<Rightarrow> sim_buffer \<times> u32 option" where
  "xrp_map_buffer b offset sz map_flags =
     (if offset \<le> sb_size b \<and> sz \<le> sb_size b - offset
      then (b\<lparr>sb_ref := sb_ref b + 1, sb_map_count := sb_map_count b + 1, sb_map_flags := sb_map_flags b OR map_flags\<rparr>, Some (sb_ptr b + offset))
      else (b, None))"

definition xrp_unmap_buffer :: "('p \<Rightarrow> xrp_allocation \<Rightarrow> 'p) \<Rightarrow> sim_buffer \<Rightarrow> u32 \<Rightarrow> 'p \<Rightarrow> (sim_buffer option \<times> 'p) \<times> xrp_status" where
  "xrp_unmap_buffer fr b q p =
     (if sb_ptr b \<le> q \<and> q - sb_ptr b \<le> sb_size b
      then (xrp_release_buffer fr (b\<lparr>sb_map_count := sb_map_count b - 1\<rparr>) p, XRP_STATUS_SUCCESS)
      else ((Some b, p), XRP_STATUS_FAILURE))"

subsection \<open>Submission\<close>

definition put_mem :: "(mem \<Rightarrow> mem) \<Rightarrow> 'p sim \<Rightarrow> 'p sim" where
  "put_mem f st = st\<lparr>sm_mem := f (sm_mem st)\<rparr>"

definition copy_bytes :: "u32 \<Rightarrow> u32 \<Rightarrow> nat \<Rightarrow> mem \<Rightarrow> mem" where
  "copy_bytes dst src n m = write_bytes m dst (read_bytes m src n)"

definition stage_in :: "'p alloc_fun \<Rightarrow> xrp_shmem list \<Rightarrow> u32 \<Rightarrow> u32 \<Rightarrow> sim_request \<Rightarrow> 'p sim \<Rightarrow> 'p sim_result" where
  "stage_in al shm in_data in_sz rq st =
     (let cmd = sq_cmd rq; fill = (\<lambda>p m. copy_bytes p in_data (unat in_sz) (write32 m (cmd + off_in_data_size) in_sz)) in
      if in_sz > XRP_DSP_CMD_INLINE_DATA_SIZE then
        case al (sm_pool st) in_sz 0x10 of
          (Inl e, p) \<Rightarrow> Some (Inl (st\<lparr>sm_pool := p\<rparr>))
        | (Inr a, p) \<Rightarrow> do {
            v \<leftarrow> p2v shm (a_start a);
            Some (Inr (rq\<lparr>sq_in_alloc := Some a\<rparr>, put_mem (\<lambda>m. fill v (write32 m (cmd + off_in_data) (a_start a))) (st\<lparr>sm_pool := p\<rparr>)))
          }
      else Some (Inr (rq, put_mem (fill (cmd + off_in_data)) st)))"

definition stage_out :: "'p alloc_fun \<Rightarrow> xrp_shmem list \<Rightarrow> u32 \<Rightarrow> sim_request \<Rightarrow> 'p sim \<Rightarrow> 'p sim_result" where
  "stage_out al shm out_sz rq st =
     (let cmd = sq_cmd rq in
      if out_sz > XRP_DSP_CMD_INLINE_DATA_SIZE then
        case al (sm_pool st) out_sz 0x10 of
          (Inl e, p) \<Rightarrow> Some (Inl (st\<lparr>sm_pool := p\<rparr>))
        | (Inr a, p) \<Rightarrow> Some (Inr (rq\<lparr>sq_out_alloc := Some a, sq_out_data_ptr := p2v shm (a_start a)\<rparr>,
            put_mem (\<lambda>m. write32 (write32 m (cmd + off_out_data) (a_start a)) (cmd + off_out_data_size) out_sz) (st\<lparr>sm_pool := p\<rparr>)))
      else Some (Inr (rq\<lparr>sq_out_data_ptr := Some (cmd + off_out_data)\<rparr>, put_mem (\<lambda>m. write32 m (cmd + off_out_data_size) out_sz) st)))"

text \<open>Locking a group that is locked does not return.\<close>

definition lock_group :: "sim_group option \<Rightarrow> 'p sim \<Rightarrow> 'p sim option" where
  "lock_group grp st = (if grp = None then Some st else if sm_locked st then None else Some (st\<lparr>sm_locked := True\<rparr>))"

definition unlock_group :: "sim_group option \<Rightarrow> 'p sim \<Rightarrow> 'p sim" where
  "unlock_group grp st = (if grp = None then st else st\<lparr>sm_locked := False\<rparr>)"

definition records :: "sim_group option \<Rightarrow> sim_group" where
  "records grp = (case grp of Some g \<Rightarrow> g | None \<Rightarrow> [])"

definition stage_descriptors :: "'p alloc_fun \<Rightarrow> xrp_shmem list \<Rightarrow> sim_request \<Rightarrow> 'p sim \<Rightarrow> 'p sim_result" where
  "stage_descriptors al shm rq st =
     (let cmd = sq_cmd rq; n = length (records (sq_group rq)); sz = of_nat n * sizeof_dsp_buffer;
          rest = (\<lambda>rq st. Some (Inr (rq\<lparr>sq_n_buffers := n, sq_user := replicate n None\<rparr>, put_mem (\<lambda>m. write32 m (cmd + off_buffer_size) sz) st))) in
      if n > unat XRP_DSP_CMD_INLINE_BUFFER_COUNT then
        case al (sm_pool st) sz 0x10 of
          (Inl e, p) \<Rightarrow> Some (Inl (unlock_group (sq_group rq) (st\<lparr>sm_pool := p\<rparr>)))
        | (Inr a, p) \<Rightarrow> rest (rq\<lparr>sq_buf_alloc := Some a, sq_buffer_ptr := p2v shm (a_start a)\<rparr>)
            (put_mem (\<lambda>m. write32 m (cmd + off_buffer_data) (a_start a)) (st\<lparr>sm_pool := p\<rparr>))
      else rest (rq\<lparr>sq_buffer_ptr := Some (cmd + off_buffer_data)\<rparr>) st)"

definition put_descriptor :: "nat \<Rightarrow> u32 \<Rightarrow> u32 \<Rightarrow> u32 \<Rightarrow> sim_request \<Rightarrow> 'p sim \<Rightarrow> 'p sim_result" where
  "put_descriptor i fl sz addr rq st = do {
     bp \<leftarrow> sq_buffer_ptr rq;
     Some (Inr (rq, put_mem (\<lambda>m. write_bytes m (bp + of_nat i * sizeof_dsp_buffer) (bytes_of32 fl @ bytes_of32 sz @ bytes_of32 addr)) st))
   }"

text \<open>One round of the loop over the buffers.  When there is no room for a copy, the function returns with the group still locked.\<close>

definition stage_buffer :: "'p alloc_fun \<Rightarrow> xrp_shmem list \<Rightarrow> nat \<Rightarrow> sim_buffer \<times> u32 \<Rightarrow> sim_request \<Rightarrow> 'p sim \<Rightarrow> 'p sim_result" where
  "stage_buffer al shm i r rq st =
     (case r of (b, fl) \<Rightarrow>
        if 0 < sb_map_count b then Some (Inl (unlock_group (sq_group rq) st))
        else if sb_device b then put_descriptor i fl (sb_size b) (a_start (sb_alloc b)) rq st
        else case al (sm_pool st) (sb_size b) 0x10 of
               (Inl e, p) \<Rightarrow> Some (Inl (st\<lparr>sm_pool := p\<rparr>))
             | (Inr a, p) \<Rightarrow> do {
                 v \<leftarrow> p2v shm (a_start a);
                 put_descriptor i fl (sb_size b) (a_start a) (rq\<lparr>sq_user := (sq_user rq)[i := Some a]\<rparr>)
                   (put_mem (copy_bytes v (sb_ptr b) (unat (sb_size b))) (st\<lparr>sm_pool := p\<rparr>))
               })"

fun stage_buffers :: "'p alloc_fun \<Rightarrow> xrp_shmem list \<Rightarrow> nat \<Rightarrow> sim_group \<Rightarrow> sim_request \<Rightarrow> 'p sim \<Rightarrow> 'p sim_result" where
  "stage_buffers al shm i [] rq st = Some (Inr (rq, st))"
| "stage_buffers al shm i (r # rs) rq st = sim_then (stage_buffer al shm i r rq st) (stage_buffers al shm (Suc i) rs)"

text \<open>
  The event, if the caller asks for one: \<open>ev\<close> is the address that \<open>calloc\<close> returns.  Otherwise the field keeps what the request
  held when it was allocated.
\<close>

definition stage_event :: "bool \<Rightarrow> nat option \<Rightarrow> sim_request \<Rightarrow> 'p sim \<Rightarrow> 'p sim_result" where
  "stage_event evt ev rq st =
     (if \<not> evt then Some (Inr (rq, st))
      else case ev of
             None \<Rightarrow> Some (Inl st)
           | Some e \<Rightarrow> Some (Inr (rq\<lparr>sq_event := Some e\<rparr>, st\<lparr>sm_events := (sm_events st)(e \<mapsto> (2, XRP_STATUS_PENDING))\<rparr>)))"

definition stage_flags :: "u8 list option \<Rightarrow> sim_request \<Rightarrow> 'p sim \<Rightarrow> 'p sim_result" where
  "stage_flags nsid rq st =
     (let cmd = sq_cmd rq in
      Some (Inr (rq, put_mem (\<lambda>m. case nsid of
          None \<Rightarrow> write32 m (cmd + off_flags) 0
        | Some n \<Rightarrow> write_bytes (write32 m (cmd + off_flags) XRP_DSP_CMD_FLAG_REQUEST_NSID) (cmd + off_nsid) (take 16 n)) st)))"

text \<open>
  \<open>rq\<close> is the request as \<open>malloc\<close> returns it, with arbitrary contents.  The result is the request that is put into the queue.
\<close>

definition xrp_enqueue_command ::
  "'p alloc_fun \<Rightarrow> xrp_shmem list \<Rightarrow> sim_request \<Rightarrow> u32 \<Rightarrow> u32 \<Rightarrow> u32 \<Rightarrow> u32 \<Rightarrow> sim_group option \<Rightarrow> bool \<Rightarrow> nat option \<Rightarrow> u8 list option \<Rightarrow>
   'p sim \<Rightarrow> 'p sim_result" where
  "xrp_enqueue_command al shm rq in_data in_sz out_data out_sz grp evt ev nsid st =
     (let rq = rq\<lparr>sq_in_data_size := in_sz, sq_out_data := out_data, sq_out_data_size := out_sz, sq_group := grp\<rparr>;
          st = (if grp = None then st else st\<lparr>sm_group_refs := sm_group_refs st + 1\<rparr>) in
      sim_then (stage_in al shm in_data in_sz rq st) (\<lambda>rq st.
      sim_then (stage_out al shm out_sz rq st) (\<lambda>rq st. do {
        st \<leftarrow> lock_group grp st;
        sim_then (stage_descriptors al shm rq st) (\<lambda>rq st.
        sim_then (stage_buffers al shm 0 (records grp) rq st) (\<lambda>rq st.
        sim_then (stage_event evt ev rq (unlock_group grp st)) (stage_flags nsid)))
      })))"

subsection \<open>Processing\<close>

definition free_if :: "('p \<Rightarrow> xrp_allocation \<Rightarrow> 'p) \<Rightarrow> bool \<Rightarrow> xrp_allocation option \<Rightarrow> 'p sim \<Rightarrow> 'p sim option" where
  "free_if fr c a st = (if c then do { a \<leftarrow> a; Some (st\<lparr>sm_pool := fr (sm_pool st) a\<rparr>) } else Some st)"

text \<open>The copy of one buffer is written back if the DSP has written to it, and freed.\<close>

definition finish_buffer ::
  "('p \<Rightarrow> xrp_allocation \<Rightarrow> 'p) \<Rightarrow> xrp_shmem list \<Rightarrow> sim_request \<Rightarrow> nat \<Rightarrow> sim_buffer \<Rightarrow> 'p sim \<Rightarrow> 'p sim option" where
  "finish_buffer fr shm rq i b st =
     (if sb_device b then Some st
      else do {
        bp \<leftarrow> sq_buffer_ptr rq;
        a \<leftarrow> sq_user rq ! i;
        st \<leftarrow> (if read32 (sm_mem st) (bp + of_nat i * sizeof_dsp_buffer) AND XRP_DSP_BUFFER_FLAG_WRITE \<noteq> 0
              then do { v \<leftarrow> p2v shm (a_start a); Some (put_mem (copy_bytes (sb_ptr b) v (unat (sb_size b))) st) }
              else Some st);
        free_if fr True (Some a) st
      })"

fun finish_buffers ::
  "('p \<Rightarrow> xrp_allocation \<Rightarrow> 'p) \<Rightarrow> xrp_shmem list \<Rightarrow> sim_request \<Rightarrow> nat \<Rightarrow> sim_group \<Rightarrow> 'p sim \<Rightarrow> 'p sim option" where
  "finish_buffers fr shm rq i [] st = Some st"
| "finish_buffers fr shm rq i (r # rs) st = do { st \<leftarrow> finish_buffer fr shm rq i (fst r) st; finish_buffers fr shm rq (Suc i) rs st }"

definition finish_event :: "sim_request \<Rightarrow> 'p sim \<Rightarrow> 'p sim option" where
  "finish_event rq st =
     (case sq_event rq of
        None \<Rightarrow> Some st
      | Some e \<Rightarrow> do {
          (c, s) \<leftarrow> sm_events st e;
          let s = (if read32 (sm_mem st) (sq_cmd rq + off_flags) AND XRP_DSP_CMD_FLAG_RESPONSE_DELIVERY_FAIL \<noteq> 0
                   then XRP_STATUS_FAILURE else XRP_STATUS_SUCCESS);
          Some (st\<lparr>sm_events := (sm_events st)(e := (if c - 1 = 0 then None else Some (c - 1, s)))\<rparr>)
        })"

text \<open>\<open>dsp\<close> is what the DSP does from the interrupt until it has answered, or \<open>None\<close> if it never answers.\<close>

definition exchange_command ::
  "(mem \<Rightarrow> mem option) \<Rightarrow> xrp_shmem list \<Rightarrow> xrp_device_description \<Rightarrow> sim_request \<Rightarrow> mem \<Rightarrow> mem option" where
  "exchange_command dsp shm d rq m = do {
     let comm = comm_ptr d;
     let cmd = sq_cmd rq;
     let m = copy_bytes comm cmd sizeof_dsp_cmd m;
     m \<leftarrow> xrp_send_device_irq shm d (write32 m (comm + off_flags) (read32 m (cmd + off_flags) OR XRP_DSP_CMD_FLAG_REQUEST_VALID));
     m \<leftarrow> dsp m;
     out \<leftarrow> sq_out_data_ptr rq;
     Some (copy_bytes (sq_out_data rq) out (unat (sq_out_data_size rq)) (copy_bytes cmd comm sizeof_dsp_cmd m))
   }"

text \<open>\<open>now\<close> are the records of the group at this time.  Groups only grow, so there are at least as many as when the command was submitted.\<close>

definition xrp_queue_process ::
  "('p \<Rightarrow> xrp_allocation \<Rightarrow> 'p) \<Rightarrow> (mem \<Rightarrow> mem option) \<Rightarrow> xrp_shmem list \<Rightarrow> xrp_device_description \<Rightarrow> sim_request \<Rightarrow> sim_group \<Rightarrow> 'p sim \<Rightarrow>
   'p sim option" where
  "xrp_queue_process fr dsp shm d rq now st = do {
     m \<leftarrow> exchange_command dsp shm d rq (sm_mem st);
     st \<leftarrow> free_if fr (sq_in_data_size rq > XRP_DSP_CMD_INLINE_DATA_SIZE) (sq_in_alloc rq) (st\<lparr>sm_mem := m\<rparr>);
     st \<leftarrow> free_if fr (sq_out_data_size rq > XRP_DSP_CMD_INLINE_DATA_SIZE) (sq_out_alloc rq) st;
     st \<leftarrow> lock_group (sq_group rq) st;
     st \<leftarrow> finish_buffers fr shm rq 0 (take (sq_n_buffers rq) now) st;
     st \<leftarrow> free_if fr (sq_n_buffers rq > unat XRP_DSP_CMD_INLINE_BUFFER_COUNT) (sq_buf_alloc rq) st;
     let st = unlock_group (sq_group rq) st;
     finish_event rq (if sq_group rq = None then st else st\<lparr>sm_group_refs := sm_group_refs st - 1\<rparr>)
   }"

subsection \<open>Accounting\<close>

text \<open>The allocations that a request holds, as \<open>xrp_queue_process\<close> frees them.\<close>

definition held_if :: "bool \<Rightarrow> xrp_allocation option \<Rightarrow> xrp_allocation list" where
  "held_if c a = (if c then case a of Some x \<Rightarrow> [x] | None \<Rightarrow> [] else [])"

definition rq_allocs :: "sim_request \<Rightarrow> xrp_allocation list" where
  "rq_allocs rq = held_if (sq_in_data_size rq > XRP_DSP_CMD_INLINE_DATA_SIZE) (sq_in_alloc rq) @
     held_if (sq_out_data_size rq > XRP_DSP_CMD_INLINE_DATA_SIZE) (sq_out_alloc rq) @
     List.map_filter id (sq_user rq) @ held_if (sq_n_buffers rq > unat XRP_DSP_CMD_INLINE_BUFFER_COUNT) (sq_buf_alloc rq)"

text \<open>All sizes that a command may allocate.\<close>

definition sizes_ok :: "(u32 \<Rightarrow> u32 \<Rightarrow> bool) \<Rightarrow> u32 \<Rightarrow> u32 \<Rightarrow> sim_group option \<Rightarrow> bool" where
  "sizes_ok req in_sz out_sz grp \<longleftrightarrow> req in_sz 0x10 \<and> req out_sz 0x10 \<and> req (of_nat (length (records grp)) * sizeof_dsp_buffer) 0x10 \<and>
     (\<forall>r\<in>set (records grp). req (sb_size (fst r)) 0x10)"

lemma sim_then_Inr: "sim_then r f = Some (Inr (rq', st')) \<longleftrightarrow> (\<exists>rq st. r = Some (Inr (rq, st)) \<and> f rq st = Some (Inr (rq', st')))"
  by (auto simp: sim_then_def split: option.split sum.split)

lemma sim_then_ok: "sim_then (Some (Inr (rq, st))) f = f rq st"
  by (simp add: sim_then_def)

lemma put_mem_simps [simp]: "sm_pool (put_mem f st) = sm_pool st" "sm_locked (put_mem f st) = sm_locked st"
  "sm_group_refs (put_mem f st) = sm_group_refs st" "sm_events (put_mem f st) = sm_events st"
  by (simp_all add: put_mem_def)

definition same_books :: "'p sim \<Rightarrow> 'p sim \<Rightarrow> bool" where
  "same_books st st' \<longleftrightarrow> sm_locked st' = sm_locked st \<and> sm_group_refs st' = sm_group_refs st \<and> sm_events st' = sm_events st"

lemma same_books_simps [simp]: "same_books st st" "same_books st (st\<lparr>sm_pool := p\<rparr>)" "same_books st (st\<lparr>sm_mem := m\<rparr>)"
    "same_books st (put_mem f st') = same_books st st'"
  by (simp_all add: same_books_def)

lemma same_books_trans: "same_books a b \<Longrightarrow> same_books b c \<Longrightarrow> same_books a c"
  by (simp add: same_books_def)

lemma lock_books: "lock_group grp st = Some st' \<Longrightarrow> sm_pool st' = sm_pool st \<and> sm_group_refs st' = sm_group_refs st \<and>
    sm_events st' = sm_events st \<and> (grp \<noteq> None \<longrightarrow> \<not> sm_locked st \<and> sm_locked st') \<and> (grp = None \<longrightarrow> st' = st)"
  by (auto simp: lock_group_def split: if_split_asm)

lemma unlock_books [simp]: "sm_pool (unlock_group grp st) = sm_pool st" "sm_group_refs (unlock_group grp st) = sm_group_refs st"
    "sm_events (unlock_group grp st) = sm_events st" "sm_locked (unlock_group grp st) = (grp = None \<and> sm_locked st)"
  by (auto simp: unlock_group_def)

lemma tiles_perm: "mset xs = mset ys \<Longrightarrow> tiles av sp ys \<Longrightarrow> tiles av sp xs"
  using mset_eq_setD [of xs ys] sorted_wrt_sym_perm [of "\<lambda>a b. bytes a \<inter> bytes b = {}" ys xs] by (auto simp: tiles_def)

lemma map_filter_id_simps [simp]: "List.map_filter id [] = []" "List.map_filter id (None # xs) = List.map_filter id xs"
    "List.map_filter id (Some x # xs) = x # List.map_filter id xs" "List.map_filter id (xs @ ys) = List.map_filter id xs @ List.map_filter id ys"
    "List.map_filter id (replicate n None) = []"
  by (simp_all add: List.map_filter_def)

lemma map_filter_id_set: "i < length us \<Longrightarrow> us ! i = None \<Longrightarrow>
    mset (List.map_filter id (us[i := Some a])) = add_mset a (mset (List.map_filter id us))"
  using id_take_nth_drop [of i us] upd_conv_take_nth_drop [of i us "Some a"]
  by (metis (no_types, lifting) add_mset_add_single map_filter_id_simps(2-4) mset.simps(2) mset_append union_mset_add_mset_right)

lemma map_eq_nth: "map f xs = map f ys \<Longrightarrow> j < length xs \<Longrightarrow> f (xs ! j) = f (ys ! j)"
  by (metis length_map nth_map)

lemma stage_end:
  assumes "sim_then (stage_event evt ev rq (unlock_group grp st)) (stage_flags nsid) = Some (Inr (rq', st'))"
  shows "rq' = rq\<lparr>sq_event := sq_event rq'\<rparr> \<and> sq_event rq' = (if evt then ev else sq_event rq) \<and> (evt \<longrightarrow> ev \<noteq> None) \<and>
    sm_pool st' = sm_pool st \<and> sm_locked st' = (grp = None \<and> sm_locked st) \<and> sm_group_refs st' = sm_group_refs st \<and>
    sm_events st' = (if evt then (sm_events st)(the ev \<mapsto> (2, XRP_STATUS_PENDING)) else sm_events st)"
  using assms by (auto simp: sim_then_Inr stage_event_def stage_flags_def Let_def split: if_split_asm option.split_asm)

text \<open>The shared memory windows cover the pool.\<close>

definition windows_cover :: "xrp_shmem list \<Rightarrow> nat set \<Rightarrow> bool" where
  "windows_cover shm sp \<longleftrightarrow> (\<forall>a. unat a \<in> sp \<longrightarrow> p2v shm a \<noteq> None)"

definition irq_mapped :: "xrp_shmem list \<Rightarrow> xrp_device_description \<Rightarrow> bool" where
  "irq_mapped shm d \<longleftrightarrow> s_device_irq_mode d \<notin> {1, 2} \<or> p2v shm (io_base d + s_device_irq_host_offset d) \<noteq> None"

text \<open>The event of the request is no longer pending and has lost one reference; all other events are as they were.\<close>

definition event_signalled :: "nat option \<Rightarrow> 'p sim \<Rightarrow> 'p sim \<Rightarrow> bool" where
  "event_signalled ev st st' \<longleftrightarrow>
     (case ev of
        None \<Rightarrow> sm_events st' = sm_events st
      | Some e \<Rightarrow> (\<exists>s\<in>{XRP_STATUS_SUCCESS, XRP_STATUS_FAILURE}. let c = fst (the (sm_events st e)) - 1 in
          sm_events st' = (sm_events st)(e := (if c = 0 then None else Some (c, s)))))"

lemma event_signalled_cong: "sm_events s = sm_events s' \<Longrightarrow> event_signalled ev s = event_signalled ev s'"
  by (rule ext) (simp only: event_signalled_def)

lemma exchange_returns:
  assumes "irq_mapped shm d" and "\<And>m. dsp m \<noteq> None" and "sq_out_data_ptr rq \<noteq> None"
  shows "\<exists>m'. exchange_command dsp shm d rq m = Some m'"
  using assms by (auto simp: exchange_command_def xrp_send_device_irq_def irq_mapped_def Let_def bind_eq_Some_conv)

lemma finish_event_ok:
  assumes "sq_event rq \<noteq> None \<longrightarrow> sm_events st (the (sq_event rq)) \<noteq> None"
  shows "\<exists>st'. finish_event rq st = Some st' \<and> event_signalled (sq_event rq) st st' \<and> sm_pool st' = sm_pool st \<and>
    sm_locked st' = sm_locked st \<and> sm_group_refs st' = sm_group_refs st"
  using assms by (auto simp: finish_event_def event_signalled_def Let_def split: option.split)

text \<open>What the processing of a request needs of it; \<open>mapped\<close> says that the windows cover the pool.\<close>

definition request_ready :: "bool \<Rightarrow> sim_group option \<Rightarrow> sim_request \<Rightarrow> bool" where
  "request_ready mapped grp rq \<longleftrightarrow> sq_group rq = grp \<and> sq_n_buffers rq = length (records grp) \<and> length (sq_user rq) = length (records grp) \<and>
     (\<forall>j<length (records grp). sq_user rq ! j = None \<longleftrightarrow> sb_device (fst (records grp ! j))) \<and>
     (sq_in_data_size rq > XRP_DSP_CMD_INLINE_DATA_SIZE \<longrightarrow> sq_in_alloc rq \<noteq> None) \<and>
     (sq_out_data_size rq > XRP_DSP_CMD_INLINE_DATA_SIZE \<longrightarrow> sq_out_alloc rq \<noteq> None) \<and>
     (sq_n_buffers rq > unat XRP_DSP_CMD_INLINE_BUFFER_COUNT \<longrightarrow> sq_buf_alloc rq \<noteq> None) \<and>
     (mapped \<longrightarrow> sq_out_data_ptr rq \<noteq> None \<and> sq_buffer_ptr rq \<noteq> None)"

context allocation_pool
begin

lemma accounted_perm: "mset xs = mset ys \<Longrightarrow> accounted pwf avail extent p ys \<Longrightarrow> accounted pwf avail extent p xs"
  using tiles_perm by (auto simp: accounted_def)

lemma accounted_mapped:
  assumes "accounted pwf avail extent p (a # live)" and "windows_cover shm (extent p)"
  shows "\<exists>v. p2v shm (a_start a) = Some v"
proof -
  have t: "tiles (avail p) (extent p) (a # live)" using assms(1) by (simp add: accounted_def)
  then have "unat (a_start a) \<in> bytes a" by (simp add: tiles_def bytes_def)
  then show ?thesis using tiles_subset [OF t, of a] assms(2) by (auto simp: windows_cover_def)
qed

lemma create_buffer_ok:
  assumes "accounted pwf avail extent p live" and "req sz 0x10" and "xrp_create_buffer alloc shm True True sz host_ptr p = (Some b, p')"
  shows "accounted pwf avail extent p' (held_if (sb_device b) (Some (sb_alloc b)) @ live) \<and> extent p' = extent p \<and>
    sb_device b = (host_ptr = None) \<and> sb_ref b = 1 \<and> sb_map_count b = 0 \<and> sb_size b = sz"
proof (cases host_ptr)
  case (Some h)
  then show ?thesis using assms(1,3) by (auto simp: xrp_create_buffer_def held_if_def Let_def)
next
  case None
  then obtain a where a: "alloc p sz 0x10 = (Inr a, p')" and b: "sb_device b" "sb_alloc b = a" "sb_ref b = 1" "sb_map_count b = 0" "sb_size b = sz"
    using assms(3) by (auto simp: xrp_create_buffer_def Let_def split: prod.split_asm sum.split_asm)
  then show ?thesis using accounted_alloc [OF assms(1,2) a] None by (simp add: held_if_def)
qed

lemma release_buffer_ok:
  assumes "accounted pwf avail extent p (held_if (sb_device b) (Some (sb_alloc b)) @ live)" and "0 < sb_ref b"
    and "xrp_release_buffer free b p = (r, p')"
  shows "(r = None \<longleftrightarrow> sb_ref b = 1) \<and> accounted pwf avail extent p' ((if r = None then [] else held_if (sb_device b) (Some (sb_alloc b))) @ live)"
  using assms accounted_free [of p "[]" "sb_alloc b" live]
  by (auto simp: xrp_release_buffer_def held_if_def Let_def split: if_split_asm)

lemma stage_in_ok:
  assumes "accounted pwf avail extent (sm_pool st) live" and "req in_sz 0x10" and "stage_in alloc shm in_data in_sz rq st = Some (Inr (rq', st'))"
  shows "accounted pwf avail extent (sm_pool st') (held_if (in_sz > XRP_DSP_CMD_INLINE_DATA_SIZE) (sq_in_alloc rq') @ live) \<and>
    rq' = rq\<lparr>sq_in_alloc := sq_in_alloc rq'\<rparr> \<and> same_books st st' \<and> extent (sm_pool st') = extent (sm_pool st) \<and>
    (in_sz > XRP_DSP_CMD_INLINE_DATA_SIZE \<longrightarrow> sq_in_alloc rq' \<noteq> None)"
proof (cases "in_sz > XRP_DSP_CMD_INLINE_DATA_SIZE")
  case True
  then obtain a p v where a: "alloc (sm_pool st) in_sz 0x10 = (Inr a, p)" and r: "rq' = rq\<lparr>sq_in_alloc := Some a\<rparr>" "sm_pool st' = p" "same_books st st'"
    using assms(3) by (auto simp: stage_in_def Let_def split: prod.split_asm sum.split_asm bind_splits)
  then show ?thesis using accounted_alloc [OF assms(1,2) a] True by (auto simp: held_if_def)
next
  case False
  then have "rq' = rq\<lparr>sq_in_alloc := sq_in_alloc rq\<rparr>" "sm_pool st' = sm_pool st" "same_books st st'"
    using assms(3) by (auto simp: stage_in_def Let_def)
  then show ?thesis using assms(1) False by (auto simp: held_if_def)
qed

lemma stage_out_ok:
  assumes "accounted pwf avail extent (sm_pool st) live" and "req out_sz 0x10" and "stage_out alloc shm out_sz rq st = Some (Inr (rq', st'))"
  shows "accounted pwf avail extent (sm_pool st') (held_if (out_sz > XRP_DSP_CMD_INLINE_DATA_SIZE) (sq_out_alloc rq') @ live) \<and>
    rq' = rq\<lparr>sq_out_alloc := sq_out_alloc rq', sq_out_data_ptr := sq_out_data_ptr rq'\<rparr> \<and> same_books st st' \<and> extent (sm_pool st') = extent (sm_pool st) \<and>
    (out_sz > XRP_DSP_CMD_INLINE_DATA_SIZE \<longrightarrow> sq_out_alloc rq' \<noteq> None) \<and> (windows_cover shm (extent (sm_pool st)) \<longrightarrow> sq_out_data_ptr rq' \<noteq> None)"
proof (cases "out_sz > XRP_DSP_CMD_INLINE_DATA_SIZE")
  case True
  then obtain a p where a: "alloc (sm_pool st) out_sz 0x10 = (Inr a, p)"
      and r: "rq' = rq\<lparr>sq_out_alloc := Some a, sq_out_data_ptr := p2v shm (a_start a)\<rparr>" "sm_pool st' = p" "same_books st st'"
    using assms(3) by (auto simp: stage_out_def Let_def split: prod.split_asm sum.split_asm)
  then show ?thesis using accounted_alloc [OF assms(1,2) a] accounted_mapped [of p a live shm] True by (auto simp: held_if_def)
next
  case False
  then have "rq' = rq\<lparr>sq_out_alloc := sq_out_alloc rq, sq_out_data_ptr := Some (sq_cmd rq + off_out_data)\<rparr>" "sm_pool st' = sm_pool st" "same_books st st'"
    using assms(3) by (auto simp: stage_out_def Let_def)
  then show ?thesis using assms(1) False by (auto simp: held_if_def)
qed

lemma stage_descriptors_ok:
  assumes "accounted pwf avail extent (sm_pool st) live" and "req (of_nat n * sizeof_dsp_buffer) 0x10"
    and "stage_descriptors alloc shm rq st = Some (Inr (rq', st'))" and "n = length (records (sq_group rq))"
  shows "accounted pwf avail extent (sm_pool st') (held_if (n > unat XRP_DSP_CMD_INLINE_BUFFER_COUNT) (sq_buf_alloc rq') @ live) \<and>
    rq' = rq\<lparr>sq_buf_alloc := sq_buf_alloc rq', sq_buffer_ptr := sq_buffer_ptr rq', sq_n_buffers := n, sq_user := replicate n None\<rparr> \<and> same_books st st' \<and>
    extent (sm_pool st') = extent (sm_pool st) \<and> (n > unat XRP_DSP_CMD_INLINE_BUFFER_COUNT \<longrightarrow> sq_buf_alloc rq' \<noteq> None) \<and>
    (windows_cover shm (extent (sm_pool st)) \<longrightarrow> sq_buffer_ptr rq' \<noteq> None)"
proof (cases "n > unat XRP_DSP_CMD_INLINE_BUFFER_COUNT")
  case True
  then obtain a p where a: "alloc (sm_pool st) (of_nat n * sizeof_dsp_buffer) 0x10 = (Inr a, p)"
      and r: "rq' = rq\<lparr>sq_buf_alloc := Some a, sq_buffer_ptr := p2v shm (a_start a), sq_n_buffers := n, sq_user := replicate n None\<rparr>"
        "sm_pool st' = p" "same_books st st'"
    using assms(3,4) by (auto simp: stage_descriptors_def Let_def split: prod.split_asm sum.split_asm)
  then show ?thesis using accounted_alloc [OF assms(1,2) a] accounted_mapped [of p a live shm] True by (auto simp: held_if_def)
next
  case False
  then have "rq' = rq\<lparr>sq_buf_alloc := sq_buf_alloc rq, sq_buffer_ptr := Some (sq_cmd rq + off_buffer_data), sq_n_buffers := n, sq_user := replicate n None\<rparr>"
      "sm_pool st' = sm_pool st" "same_books st st'"
    using assms(3,4) by (auto simp: stage_descriptors_def Let_def)
  then show ?thesis using assms(1) False by (auto simp: held_if_def)
qed

lemma stage_buffer_ok:
  assumes ac: "accounted pwf avail extent (sm_pool st) (List.map_filter id (sq_user rq) @ live)" and sz: "req (sb_size (fst r)) 0x10"
    and run: "stage_buffer alloc shm i r rq st = Some (Inr (rq', st'))" and i: "i < length (sq_user rq)" "sq_user rq ! i = None"
  shows "accounted pwf avail extent (sm_pool st') (List.map_filter id (sq_user rq') @ live) \<and> rq' = rq\<lparr>sq_user := sq_user rq'\<rparr> \<and>
    same_books st st' \<and> extent (sm_pool st') = extent (sm_pool st) \<and>
    sq_user rq' = (sq_user rq)[i := sq_user rq' ! i] \<and> (sq_user rq' ! i = None \<longleftrightarrow> sb_device (fst r))"
proof (cases "sb_device (fst r)")
  case True
  then have "rq' = rq" "sm_pool st' = sm_pool st" "same_books st st'"
    using run by (auto simp: stage_buffer_def put_descriptor_def split: prod.split_asm if_split_asm bind_splits)
  moreover have "(sq_user rq)[i := None] = sq_user rq" using i(2) list_update_id by metis
  ultimately show ?thesis using ac True i by simp
next
  case False
  then obtain a p where a: "alloc (sm_pool st) (sb_size (fst r)) 0x10 = (Inr a, p)"
      and r: "rq' = rq\<lparr>sq_user := (sq_user rq)[i := Some a]\<rparr>" "sm_pool st' = p" "same_books st st'"
    using run by (auto simp: stage_buffer_def put_descriptor_def split: prod.split_asm if_split_asm sum.split_asm bind_splits)
  have "accounted pwf avail extent p (a # List.map_filter id (sq_user rq) @ live)" "extent p = extent (sm_pool st)"
    using accounted_alloc [OF ac sz a] by auto
  moreover have "mset (List.map_filter id ((sq_user rq)[i := Some a]) @ live) = mset (a # List.map_filter id (sq_user rq) @ live)"
    using map_filter_id_set [OF i] by simp
  ultimately have "accounted pwf avail extent p (List.map_filter id ((sq_user rq)[i := Some a]) @ live)" using accounted_perm by blast
  then show ?thesis using r False i \<open>extent p = extent (sm_pool st)\<close> by simp
qed

lemma stage_buffers_ok:
  "stage_buffers alloc shm i rs rq st = Some (Inr (rq', st')) \<Longrightarrow>
   accounted pwf avail extent (sm_pool st) (List.map_filter id (sq_user rq) @ live) \<Longrightarrow> \<forall>r\<in>set rs. req (sb_size (fst r)) 0x10 \<Longrightarrow>
   length (sq_user rq) = i + length rs \<Longrightarrow> \<forall>j\<ge>i. j < length (sq_user rq) \<longrightarrow> sq_user rq ! j = None \<Longrightarrow>
   accounted pwf avail extent (sm_pool st') (List.map_filter id (sq_user rq') @ live) \<and> rq' = rq\<lparr>sq_user := sq_user rq'\<rparr> \<and>
   same_books st st' \<and> extent (sm_pool st') = extent (sm_pool st) \<and> length (sq_user rq') = length (sq_user rq) \<and>
   (\<forall>j<i. sq_user rq' ! j = sq_user rq ! j) \<and> (\<forall>j<length rs. sq_user rq' ! (i + j) = None \<longleftrightarrow> sb_device (fst (rs ! j)))"
proof (induction rs arbitrary: i rq st)
  case Nil
  then show ?case by simp
next
  case (Cons r rs)
  obtain rq1 st1 where 1: "stage_buffer alloc shm i r rq st = Some (Inr (rq1, st1))" "stage_buffers alloc shm (Suc i) rs rq1 st1 = Some (Inr (rq', st'))"
    using Cons.prems(1) by (auto simp: sim_then_Inr)
  have b: "accounted pwf avail extent (sm_pool st1) (List.map_filter id (sq_user rq1) @ live)" "rq1 = rq\<lparr>sq_user := sq_user rq1\<rparr>" "same_books st st1"
      "extent (sm_pool st1) = extent (sm_pool st)" "sq_user rq1 = (sq_user rq)[i := sq_user rq1 ! i]" "sq_user rq1 ! i = None \<longleftrightarrow> sb_device (fst r)"
    using stage_buffer_ok [OF Cons.prems(2) _ 1(1)] Cons.prems(3-5) by auto
  have u: "length (sq_user rq1) = length (sq_user rq)" "sq_user rq1 ! j = sq_user rq ! j" if "j \<noteq> i" for j
    using b(5) that by (metis length_list_update, metis nth_list_update_neq)
  have rest: "accounted pwf avail extent (sm_pool st') (List.map_filter id (sq_user rq') @ live) \<and> rq' = rq1\<lparr>sq_user := sq_user rq'\<rparr> \<and>
     same_books st1 st' \<and> extent (sm_pool st') = extent (sm_pool st1) \<and> length (sq_user rq') = length (sq_user rq1) \<and>
     (\<forall>j<Suc i. sq_user rq' ! j = sq_user rq1 ! j) \<and> (\<forall>j<length rs. sq_user rq' ! (Suc i + j) = None \<longleftrightarrow> sb_device (fst (rs ! j)))"
    using Cons.prems(3-5) u(1) [of "Suc i"] u(2) by (intro Cons.IH [OF 1(2) b(1)]) auto
  have "rq' = rq\<lparr>sq_user := sq_user rq'\<rparr>" using rest b(2) by (metis sim_request.surjective sim_request.update_convs(12))
  moreover have "sq_user rq' ! (i + j) = None \<longleftrightarrow> sb_device (fst ((r # rs) ! j))" if "j < length (r # rs)" for j
    using rest b(6) that by (cases j) auto
  moreover have "\<forall>j<i. sq_user rq' ! j = sq_user rq ! j" using rest u(2) by simp
  moreover have "same_books st st'" using rest b(3) same_books_trans by blast
  moreover have "length (sq_user rq') = length (sq_user rq)" "extent (sm_pool st') = extent (sm_pool st)"
    using rest u(1) [of "Suc i"] b(4) by simp_all
  ultimately show ?case using rest by blast
qed

lemma stage_data_ok:
  assumes ac: "accounted pwf avail extent (sm_pool s0) live" and sz: "req in_sz 0x10" "req out_sz 0x10"
    and 1: "stage_in alloc shm in_data in_sz r0 s0 = Some (Inr (r1, s1))" and 2: "stage_out alloc shm out_sz r1 s1 = Some (Inr (r2, s2))"
  shows "accounted pwf avail extent (sm_pool s2) (held_if (out_sz > XRP_DSP_CMD_INLINE_DATA_SIZE) (sq_out_alloc r2) @
      held_if (in_sz > XRP_DSP_CMD_INLINE_DATA_SIZE) (sq_in_alloc r2) @ live) \<and>
    r2 = r0\<lparr>sq_in_alloc := sq_in_alloc r2, sq_out_alloc := sq_out_alloc r2, sq_out_data_ptr := sq_out_data_ptr r2\<rparr> \<and> same_books s0 s2 \<and>
    extent (sm_pool s2) = extent (sm_pool s0) \<and> (in_sz > XRP_DSP_CMD_INLINE_DATA_SIZE \<longrightarrow> sq_in_alloc r2 \<noteq> None) \<and>
    (out_sz > XRP_DSP_CMD_INLINE_DATA_SIZE \<longrightarrow> sq_out_alloc r2 \<noteq> None) \<and> (windows_cover shm (extent (sm_pool s0)) \<longrightarrow> sq_out_data_ptr r2 \<noteq> None)"
proof -
  note a1 = stage_in_ok [OF ac sz(1) 1]
  note a2 = stage_out_ok [OF conjunct1 [OF a1] sz(2) 2]
  have r2: "r2 = r1\<lparr>sq_out_alloc := sq_out_alloc r2, sq_out_data_ptr := sq_out_data_ptr r2\<rparr>" and r1: "r1 = r0\<lparr>sq_in_alloc := sq_in_alloc r1\<rparr>"
    using a1 a2 by blast+
  have e: "sq_in_alloc r2 = sq_in_alloc r1" by (subst r2) simp
  have "r2 = r0\<lparr>sq_in_alloc := sq_in_alloc r2, sq_out_alloc := sq_out_alloc r2, sq_out_data_ptr := sq_out_data_ptr r2\<rparr>"
    unfolding e by (subst r2, subst r1) simp
  with a1 a2 show ?thesis unfolding e using same_books_trans by auto
qed

lemma enqueue_command_ok:
  assumes ac: "accounted pwf avail extent (sm_pool st) live" and sz: "sizes_ok req in_sz out_sz grp"
    and run: "xrp_enqueue_command alloc shm rq in_data in_sz out_data out_sz grp evt ev nsid st = Some (Inr (rq', st'))"
  shows "accounted pwf avail extent (sm_pool st') (rq_allocs rq' @ live) \<and> extent (sm_pool st') = extent (sm_pool st) \<and>
    sm_group_refs st' = sm_group_refs st + (if grp = None then 0 else 1) \<and> sm_locked st' = sm_locked st \<and>
    request_ready (windows_cover shm (extent (sm_pool st))) grp rq' \<and> sq_event rq' = (if evt then ev else sq_event rq) \<and> (evt \<longrightarrow> ev \<noteq> None) \<and>
    sm_events st' = (if evt then (sm_events st)(the ev \<mapsto> (2, XRP_STATUS_PENDING)) else sm_events st)"
proof -
  define r0 where "r0 = rq\<lparr>sq_in_data_size := in_sz, sq_out_data := out_data, sq_out_data_size := out_sz, sq_group := grp\<rparr>"
  define s0 where "s0 = (if grp = None then st else st\<lparr>sm_group_refs := sm_group_refs st + 1\<rparr>)"
  define n where "n = length (records grp)"
  obtain r1 s1 r2 s2 s3 r4 s4 r5 s5 where
    1: "stage_in alloc shm in_data in_sz r0 s0 = Some (Inr (r1, s1))" and 2: "stage_out alloc shm out_sz r1 s1 = Some (Inr (r2, s2))"
    and 3: "lock_group grp s2 = Some s3" and 4: "stage_descriptors alloc shm r2 s3 = Some (Inr (r4, s4))"
    and 5: "stage_buffers alloc shm 0 (records grp) r4 s4 = Some (Inr (r5, s5))"
    and 6: "sim_then (stage_event evt ev r5 (unlock_group grp s5)) (stage_flags nsid) = Some (Inr (rq', st'))"
    using run unfolding xrp_enqueue_command_def Let_def r0_def [symmetric] s0_def [symmetric]
    by (auto simp: sim_then_Inr bind_eq_Some_conv)
  have ac0: "accounted pwf avail extent (sm_pool s0) live" using ac by (simp add: s0_def)
  define l2 where "l2 = held_if (out_sz > XRP_DSP_CMD_INLINE_DATA_SIZE) (sq_out_alloc r2) @ held_if (in_sz > XRP_DSP_CMD_INLINE_DATA_SIZE) (sq_in_alloc r2) @ live"
  have a2: "accounted pwf avail extent (sm_pool s2) l2"
      "r2 = r0\<lparr>sq_in_alloc := sq_in_alloc r2, sq_out_alloc := sq_out_alloc r2, sq_out_data_ptr := sq_out_data_ptr r2\<rparr>"
      "same_books s0 s2" "extent (sm_pool s2) = extent (sm_pool s0)" "in_sz > XRP_DSP_CMD_INLINE_DATA_SIZE \<longrightarrow> sq_in_alloc r2 \<noteq> None"
      "out_sz > XRP_DSP_CMD_INLINE_DATA_SIZE \<longrightarrow> sq_out_alloc r2 \<noteq> None" "windows_cover shm (extent (sm_pool s0)) \<longrightarrow> sq_out_data_ptr r2 \<noteq> None"
    using stage_data_ok [OF ac0 _ _ 1 2] sz by (simp_all add: sizes_ok_def l2_def)
  note a3 = lock_books [OF 3]
  have ac3: "accounted pwf avail extent (sm_pool s3) l2" using a2(1) a3 by simp
  have g: "sq_group r2 = grp" by (subst a2(2), simp add: r0_def)
  define l4 where "l4 = held_if (n > unat XRP_DSP_CMD_INLINE_BUFFER_COUNT) (sq_buf_alloc r4) @ l2"
  have a4: "accounted pwf avail extent (sm_pool s4) l4"
      "r4 = r2\<lparr>sq_buf_alloc := sq_buf_alloc r4, sq_buffer_ptr := sq_buffer_ptr r4, sq_n_buffers := n, sq_user := replicate n None\<rparr>" "same_books s3 s4"
      "extent (sm_pool s4) = extent (sm_pool s3)" "n > unat XRP_DSP_CMD_INLINE_BUFFER_COUNT \<longrightarrow> sq_buf_alloc r4 \<noteq> None"
      "windows_cover shm (extent (sm_pool s3)) \<longrightarrow> sq_buffer_ptr r4 \<noteq> None"
    using stage_descriptors_ok [OF ac3 _ 4, of n] sz g by (simp_all add: sizes_ok_def l4_def n_def)
  have u4: "sq_user r4 = replicate n None" by (subst a4(2), simp)
  have a5: "accounted pwf avail extent (sm_pool s5) (List.map_filter id (sq_user r5) @ l4)" "r5 = r4\<lparr>sq_user := sq_user r5\<rparr>"
      "same_books s4 s5" "extent (sm_pool s5) = extent (sm_pool s4)" "length (sq_user r5) = n"
      "\<forall>j<n. sq_user r5 ! j = None \<longleftrightarrow> sb_device (fst (records grp ! j))"
    using stage_buffers_ok [OF 5, of l4] a4(1) u4 sz by (simp_all add: sizes_ok_def n_def)
  note e6 = stage_end [OF 6]
  have rq': "rq' = r5\<lparr>sq_event := sq_event rq'\<rparr>" using e6 by blast
  have f: "sq_group rq' = grp" "sq_n_buffers rq' = n" "sq_user rq' = sq_user r5" "sq_in_data_size rq' = in_sz" "sq_out_data_size rq' = out_sz"
      "sq_in_alloc rq' = sq_in_alloc r2" "sq_out_alloc rq' = sq_out_alloc r2" "sq_buf_alloc rq' = sq_buf_alloc r4" "sq_out_data_ptr rq' = sq_out_data_ptr r2"
      "sq_buffer_ptr rq' = sq_buffer_ptr r4" "sq_event r5 = sq_event rq"
    by ((subst rq')?, (subst a5(2))?, (subst a4(2))?, (subst a2(2))?, simp add: r0_def g)+
  have "mset (rq_allocs rq' @ live) = mset (List.map_filter id (sq_user r5) @ l4)"
    by (simp add: rq_allocs_def f l2_def l4_def)
  then have "accounted pwf avail extent (sm_pool st') (rq_allocs rq' @ live)" using accounted_perm a5(1) e6 by metis
  moreover have "request_ready (windows_cover shm (extent (sm_pool st))) grp rq'"
    using a2(4-7) a3 a4(4-6) a5(4-6) by (simp add: request_ready_def f n_def s0_def)
  ultimately show ?thesis
    using a2(3,4) a3 a4(3,4) a5(3,4) e6 f(11) by (cases grp) (auto simp: same_books_def s0_def)
qed

lemma free_if_ok:
  assumes "accounted pwf avail extent (sm_pool st) (held_if c a @ live)" and "c \<longrightarrow> a \<noteq> None"
  shows "\<exists>st'. free_if free c a st = Some st' \<and> accounted pwf avail extent (sm_pool st') live \<and> same_books st st' \<and>
    extent (sm_pool st') = extent (sm_pool st)"
  using assms accounted_free [of "sm_pool st" "[]" "the a" live] by (cases c) (auto simp: free_if_def held_if_def)

lemma finish_buffer_ok:
  assumes ac: "accounted pwf avail extent (sm_pool st) (List.map_filter id [sq_user rq ! i] @ live)"
    and dev: "sq_user rq ! i = None \<longleftrightarrow> sb_device b" and bp: "sq_buffer_ptr rq \<noteq> None" and cov: "windows_cover shm (extent (sm_pool st))"
  shows "\<exists>st'. finish_buffer free shm rq i b st = Some st' \<and> accounted pwf avail extent (sm_pool st') live \<and> same_books st st' \<and>
    extent (sm_pool st') = extent (sm_pool st)"
proof (cases "sq_user rq ! i")
  case None
  then show ?thesis using ac dev by (simp add: finish_buffer_def)
next
  case (Some a)
  then have ac': "accounted pwf avail extent (sm_pool st) (a # live)" using ac by simp
  obtain v where v: "p2v shm (a_start a) = Some v" using accounted_mapped [OF ac' cov] by blast
  show ?thesis
    using accounted_free [of "sm_pool st" "[]" a live] ac' dev bp v Some by (auto simp: finish_buffer_def free_if_def same_books_def)
qed

lemma finish_buffers_ok:
  "accounted pwf avail extent (sm_pool st) (List.map_filter id (drop i (sq_user rq)) @ live) \<Longrightarrow> i + length rs = length (sq_user rq) \<Longrightarrow>
   \<forall>j<length rs. sq_user rq ! (i + j) = None \<longleftrightarrow> sb_device (fst (rs ! j)) \<Longrightarrow> sq_buffer_ptr rq \<noteq> None \<Longrightarrow> windows_cover shm (extent (sm_pool st)) \<Longrightarrow>
   \<exists>st'. finish_buffers free shm rq i rs st = Some st' \<and> accounted pwf avail extent (sm_pool st') live \<and> same_books st st' \<and>
     extent (sm_pool st') = extent (sm_pool st)"
proof (induction rs arbitrary: i st)
  case Nil
  then show ?case by simp
next
  case (Cons r rs)
  have d: "drop i (sq_user rq) = [sq_user rq ! i] @ drop (Suc i) (sq_user rq)" using Cons.prems(2) Cons_nth_drop_Suc [of i "sq_user rq"] by simp
  have ac: "accounted pwf avail extent (sm_pool st) (List.map_filter id [sq_user rq ! i] @ List.map_filter id (drop (Suc i) (sq_user rq)) @ live)"
    using Cons.prems(1) unfolding d map_filter_id_simps(4) append_assoc .
  have dev: "sq_user rq ! i = None \<longleftrightarrow> sb_device (fst r)" using Cons.prems(3) by force
  obtain st1 where 1: "finish_buffer free shm rq i (fst r) st = Some st1"
      "accounted pwf avail extent (sm_pool st1) (List.map_filter id (drop (Suc i) (sq_user rq)) @ live)" "same_books st st1"
      "extent (sm_pool st1) = extent (sm_pool st)"
    using finish_buffer_ok [OF ac dev Cons.prems(4,5)] by blast
  have "\<exists>st'. finish_buffers free shm rq (Suc i) rs st1 = Some st' \<and> accounted pwf avail extent (sm_pool st') live \<and> same_books st1 st' \<and>
      extent (sm_pool st') = extent (sm_pool st1)"
    using Cons.prems(2-5) 1(4) by (intro Cons.IH [OF 1(2)]) (auto dest: spec [where x = "Suc _"])
  then show ?case using 1 same_books_trans by auto
qed

lemma release_group_ok:
  assumes ac: "accounted pwf avail extent (sm_pool st) (List.map_filter id (sq_user rq) @
      held_if (sq_n_buffers rq > unat XRP_DSP_CMD_INLINE_BUFFER_COUNT) (sq_buf_alloc rq) @ live)"
    and cov: "windows_cover shm (extent (sm_pool st))" and rq: "request_ready True grp rq"
    and now: "map (sb_device \<circ> fst) (take (sq_n_buffers rq) now) = map (sb_device \<circ> fst) (records grp)" and unlocked: "grp \<noteq> None \<longrightarrow> \<not> sm_locked st"
  shows "\<exists>s1 s2 s3. lock_group grp st = Some s1 \<and> finish_buffers free shm rq 0 (take (sq_n_buffers rq) now) s1 = Some s2 \<and>
    free_if free (sq_n_buffers rq > unat XRP_DSP_CMD_INLINE_BUFFER_COUNT) (sq_buf_alloc rq) s2 = Some s3 \<and>
    accounted pwf avail extent (sm_pool s3) live \<and> extent (sm_pool s3) = extent (sm_pool st) \<and> same_books st (unlock_group grp s3)"
proof -
  define rs where "rs = take (sq_n_buffers rq) now"
  have g: "length (sq_user rq) = length (records grp)" "sq_buffer_ptr rq \<noteq> None"
      "\<forall>j<length (records grp). sq_user rq ! j = None \<longleftrightarrow> sb_device (fst (records grp ! j))"
      "sq_n_buffers rq > unat XRP_DSP_CMD_INLINE_BUFFER_COUNT \<longrightarrow> sq_buf_alloc rq \<noteq> None"
    using rq by (simp_all add: request_ready_def)
  have eq: "map (sb_device \<circ> fst) rs = map (sb_device \<circ> fst) (records grp)" using now by (simp add: rs_def)
  have len: "length rs = length (records grp)" using map_eq_imp_length_eq [OF eq] .
  have rs: "length rs = length (sq_user rq)" "\<forall>j<length rs. sq_user rq ! j = None \<longleftrightarrow> sb_device (fst (rs ! j))"
    using g(1,3) len map_eq_nth [OF eq] by simp_all
  obtain s1 where 1: "lock_group grp st = Some s1" using unlocked by (cases grp) (auto simp: lock_group_def)
  note l = lock_books [OF 1]
  have "\<exists>s2. finish_buffers free shm rq 0 rs s1 = Some s2 \<and>
      accounted pwf avail extent (sm_pool s2) (held_if (sq_n_buffers rq > unat XRP_DSP_CMD_INLINE_BUFFER_COUNT) (sq_buf_alloc rq) @ live) \<and>
      same_books s1 s2 \<and> extent (sm_pool s2) = extent (sm_pool s1)"
    using ac l rs g(2) cov by (intro finish_buffers_ok) simp_all
  then obtain s2 where 2: "finish_buffers free shm rq 0 rs s1 = Some s2" "same_books s1 s2" "extent (sm_pool s2) = extent (sm_pool st)"
      "accounted pwf avail extent (sm_pool s2) (held_if (sq_n_buffers rq > unat XRP_DSP_CMD_INLINE_BUFFER_COUNT) (sq_buf_alloc rq) @ live)"
    using l by auto
  from free_if_ok [OF 2(4) g(4)] show ?thesis
    using 1 2 l unlocked unfolding rs_def by (auto simp: same_books_def)
qed

lemma queue_process_ok:
  assumes ac: "accounted pwf avail extent (sm_pool st) (rq_allocs rq @ live)" and cov: "windows_cover shm (extent (sm_pool st))"
    and rq: "request_ready True grp rq" and now: "map (sb_device \<circ> fst) (take (sq_n_buffers rq) now) = map (sb_device \<circ> fst) (records grp)"
    and unlocked: "grp \<noteq> None \<longrightarrow> \<not> sm_locked st" and irq: "irq_mapped shm d" and dsp: "\<And>m. dsp m \<noteq> None"
    and ev: "sq_event rq \<noteq> None \<longrightarrow> sm_events st (the (sq_event rq)) \<noteq> None"
  shows "\<exists>st'. xrp_queue_process free dsp shm d rq now st = Some st' \<and> accounted pwf avail extent (sm_pool st') live \<and>
    extent (sm_pool st') = extent (sm_pool st) \<and> sm_locked st' = sm_locked st \<and>
    sm_group_refs st' = sm_group_refs st - (if grp = None then 0 else 1) \<and> event_signalled (sq_event rq) st st'"
proof -
  define l2 where "l2 = List.map_filter id (sq_user rq) @ held_if (sq_n_buffers rq > unat XRP_DSP_CMD_INLINE_BUFFER_COUNT) (sq_buf_alloc rq) @ live"
  have g: "sq_group rq = grp" "sq_out_data_ptr rq \<noteq> None"
      "sq_in_data_size rq > XRP_DSP_CMD_INLINE_DATA_SIZE \<longrightarrow> sq_in_alloc rq \<noteq> None"
      "sq_out_data_size rq > XRP_DSP_CMD_INLINE_DATA_SIZE \<longrightarrow> sq_out_alloc rq \<noteq> None"
    using rq by (simp_all add: request_ready_def)
  obtain m where m: "exchange_command dsp shm d rq (sm_mem st) = Some m" using exchange_returns [of shm d dsp rq, OF irq dsp g(2)] by blast
  have "accounted pwf avail extent (sm_pool (st\<lparr>sm_mem := m\<rparr>)) (held_if (sq_in_data_size rq > XRP_DSP_CMD_INLINE_DATA_SIZE) (sq_in_alloc rq) @
      held_if (sq_out_data_size rq > XRP_DSP_CMD_INLINE_DATA_SIZE) (sq_out_alloc rq) @ l2)"
    using ac by (simp add: rq_allocs_def l2_def)
  from free_if_ok [OF this g(3)] obtain s1 where
    1: "free_if free (sq_in_data_size rq > XRP_DSP_CMD_INLINE_DATA_SIZE) (sq_in_alloc rq) (st\<lparr>sm_mem := m\<rparr>) = Some s1"
      "accounted pwf avail extent (sm_pool s1) (held_if (sq_out_data_size rq > XRP_DSP_CMD_INLINE_DATA_SIZE) (sq_out_alloc rq) @ l2)"
      "same_books (st\<lparr>sm_mem := m\<rparr>) s1" "extent (sm_pool s1) = extent (sm_pool st)"
    by auto
  from free_if_ok [OF 1(2) g(4)] obtain s2 where
    2: "free_if free (sq_out_data_size rq > XRP_DSP_CMD_INLINE_DATA_SIZE) (sq_out_alloc rq) s1 = Some s2"
      "accounted pwf avail extent (sm_pool s2) l2" "same_books s1 s2" "extent (sm_pool s2) = extent (sm_pool st)"
    using 1(4) by auto
  have b2: "same_books st s2" using 1(3) 2(3) by (simp add: same_books_def)
  have c2: "windows_cover shm (extent (sm_pool s2))" and u2: "grp \<noteq> None \<longrightarrow> \<not> sm_locked s2"
    using cov unlocked 2(4) b2 by (simp_all add: same_books_def)
  obtain s3 s4 s5 where 3: "lock_group grp s2 = Some s3" "finish_buffers free shm rq 0 (take (sq_n_buffers rq) now) s3 = Some s4"
      "free_if free (sq_n_buffers rq > unat XRP_DSP_CMD_INLINE_BUFFER_COUNT) (sq_buf_alloc rq) s4 = Some s5"
      "accounted pwf avail extent (sm_pool s5) live" "extent (sm_pool s5) = extent (sm_pool s2)" "same_books s2 (unlock_group grp s5)"
    using release_group_ok [OF 2(2) [unfolded l2_def] c2 rq now u2] by blast
  define s6 where "s6 = (let s = unlock_group grp s5 in if grp = None then s else s\<lparr>sm_group_refs := sm_group_refs s - 1\<rparr>)"
  have b: "sm_pool s6 = sm_pool s5" "sm_events s6 = sm_events st" "sm_locked s6 = sm_locked st"
      "sm_group_refs s6 = sm_group_refs st - (if grp = None then 0 else 1)"
    using b2 3(6) by (auto simp: s6_def same_books_def Let_def)
  obtain s7 where 7: "finish_event rq s6 = Some s7" "event_signalled (sq_event rq) s6 s7" "sm_pool s7 = sm_pool s6" "sm_locked s7 = sm_locked s6"
      "sm_group_refs s7 = sm_group_refs s6"
    using finish_event_ok [of rq s6] ev b(2) by auto
  have "xrp_queue_process free dsp shm d rq now st = Some s7"
    using m 1(1) 2(1) 3(1-3) 7(1) by (simp add: xrp_queue_process_def g(1) s6_def Let_def)
  then show ?thesis using 3(4,5) 2(4) 7 b event_signalled_cong [OF b(2)] by auto
qed

end

subsection \<open>The device's pool\<close>

text \<open>
  C9: a command of the simulator library takes and returns what it needs of the device's pool.  When \<open>xrp_enqueue_command\<close> accepts it,
  exactly the allocations of the request have been added to those that were live, and the group has one more reference and is
  not locked.  Whenever the command is processed later, whatever other commands hold by then (\<open>others\<close>), and the group
  still has buffers of the same kinds, a DSP that answers lets \<open>xrp_queue_process\<close> return.  Then exactly these allocations have
  been freed, the reference of the group is released, and the event is signalled.
\<close>

theorem sim_command_balanced:
  assumes "accounted pool_wf pool_free pool_span (sm_pool st) live" and "sizes_ok request_fits in_sz out_sz grp" and "\<not> sm_locked st"
    and "windows_cover shm (pool_span (sm_pool st))" and "irq_mapped shm d" and "\<And>m. dsp m \<noteq> None"
    and "xrp_enqueue_command (xrp_private_alloc True True) shm rq in_data in_sz out_data out_sz grp True ev nsid st = Some (Inr (rq', st'))"
  shows "accounted pool_wf pool_free pool_span (sm_pool st') (rq_allocs rq' @ live) \<and> \<not> sm_locked st' \<and>
    sm_group_refs st' = sm_group_refs st + (if grp = None then 0 else 1) \<and>
    (\<forall>s others now. accounted pool_wf pool_free pool_span (sm_pool s) (rq_allocs rq' @ others) \<and> pool_span (sm_pool s) = pool_span (sm_pool st') \<and>
       \<not> sm_locked s \<and> sm_events s (the ev) \<noteq> None \<and>
       map (sb_device \<circ> fst) (take (sq_n_buffers rq') now) = map (sb_device \<circ> fst) (records grp) \<longrightarrow>
       (\<exists>s'. xrp_queue_process xrp_private_free dsp shm d rq' now s = Some s' \<and> accounted pool_wf pool_free pool_span (sm_pool s') others \<and>
          \<not> sm_locked s' \<and> sm_group_refs s' = sm_group_refs s - (if grp = None then 0 else 1) \<and> event_signalled ev s s'))"
proof -
  note e = priv.enqueue_command_ok [OF assms(1,2,7)]
  have r: "request_ready True grp rq'" "sq_event rq' = ev" using e assms(4) by simp_all
  have "\<exists>s'. xrp_queue_process xrp_private_free dsp shm d rq' now s = Some s' \<and> accounted pool_wf pool_free pool_span (sm_pool s') others \<and>
      \<not> sm_locked s' \<and> sm_group_refs s' = sm_group_refs s - (if grp = None then 0 else 1) \<and> event_signalled ev s s'"
    if "accounted pool_wf pool_free pool_span (sm_pool s) (rq_allocs rq' @ others)" "pool_span (sm_pool s) = pool_span (sm_pool st')"
      "\<not> sm_locked s" "sm_events s (the ev) \<noteq> None"
      "map (sb_device \<circ> fst) (take (sq_n_buffers rq') now) = map (sb_device \<circ> fst) (records grp)" for s others now
  proof -
    have "windows_cover shm (pool_span (sm_pool s))" using that(2) e assms(4) by simp
    from priv.queue_process_ok [of s rq' others shm grp now d dsp, OF that(1) this r(1) that(5) _ assms(5,6)] show ?thesis
      using that(3,4) r(2) by auto
  qed
  with e assms(3) show ?thesis by simp
qed

text \<open>A pool of four pages that one window maps, and a command with 64 bytes of input and one buffer of 32 bytes that the DSP may read and write.\<close>

definition sample_windows :: "xrp_shmem list" where
  "sample_windows = [\<lparr>sh_start = 0x1000, sh_size = 0x4000, sh_ptr = 0x80000000\<rparr>]"

definition sample_description :: xrp_device_description where
  "sample_description = empty_description\<lparr>comm_base := 0x1000, shared_base := 0x1000, shared_size := 0x4000, comm_ptr := 0x80000000,
     shared_ptr := 0x80000000\<rparr>"

definition sample_sim_pool :: xrp_private_pool where
  "sample_sim_pool = \<lparr>p_start = 0x1000, p_size = 0x4000, free_list = [\<lparr>a_start = 0x1000, a_size = 0x4000, a_ref = 0\<rparr>]\<rparr>"

definition sample_state :: "xrp_private_pool sim" where
  "sample_state = \<lparr>sm_mem = (\<lambda>a. 0), sm_pool = sample_sim_pool, sm_locked = False, sm_group_refs = 1, sm_events = Map.empty\<rparr>"

definition sample_group :: sim_group where
  "sample_group = [(\<lparr>sb_ref = 1, sb_device = False, sb_alloc = \<lparr>a_start = 0, a_size = 0, a_ref = 0\<rparr>, sb_ptr = 0x9000, sb_size = 32, sb_map_count = 0, sb_map_flags = 0\<rparr>, 3)]"

definition sample_rq :: sim_request where
  "sample_rq = \<lparr>sq_cmd = 0x7000, sq_n_buffers = 0, sq_in_data_size = 0, sq_out_data = 0, sq_out_data_ptr = None, sq_out_data_size = 0,
     sq_group = None, sq_event = None, sq_in_alloc = None, sq_out_alloc = None, sq_buf_alloc = None, sq_user = [], sq_buffer_ptr = None\<rparr>"

lemmas sample_defs = sample_windows_def sample_state_def sample_group_def sample_rq_def sample_sim_pool_def

lemma sample_accepted:
  "\<exists>rq' st'. xrp_enqueue_command (xrp_private_alloc True True) sample_windows sample_rq 0x6000 64 0x6100 8 (Some sample_group) True (Some 7) None sample_state =
     Some (Inr (rq', st')) \<and> sm_pool st' = sample_sim_pool\<lparr>free_list := [\<lparr>a_start = 0x3000, a_size = 0x2000, a_ref = 0\<rparr>]\<rparr> \<and>
     sq_user rq' = [Some \<lparr>a_start = 0x2000, a_size = 0x1000, a_ref = 1\<rparr>] \<and> sq_in_alloc rq' = Some \<lparr>a_start = 0x1000, a_size = 0x1000, a_ref = 1\<rparr> \<and>
     sq_n_buffers rq' = 1 \<and> sq_in_data_size rq' = 64 \<and> sq_out_data_size rq' = 8 \<and> sm_events st' 7 \<noteq> None"
  by (simp add: xrp_enqueue_command_def stage_in_def stage_out_def stage_descriptors_def stage_buffer_def stage_event_def stage_flags_def
      put_descriptor_def lock_group_def unlock_group_def sim_then_def records_def sample_defs layout_simps p2v_def find_shmem_by_phys_def
      xrp_private_alloc_def ALIGN_def PAGE_SIZE_def carve_block_def)

lemma sample_covered: "windows_cover sample_windows (pool_span sample_sim_pool)"
proof -
  have "0x7ffff000 + a \<noteq> 0" if "unat a < 0x5000" for a :: u32
  proof
    assume "0x7ffff000 + a = 0"
    then have "a = - 0x7ffff000" by (simp add: eq_neg_iff_add_eq_0 add.commute)
    with that show False by simp
  qed
  then show ?thesis by (auto simp: windows_cover_def pool_span_def p2v_def find_shmem_by_phys_def in_window sample_defs Let_def)
qed

definition sample_dsp :: "mem \<Rightarrow> mem option" where
  "sample_dsp m = Some (write32 m (0x80000000 + off_flags) (XRP_DSP_CMD_FLAG_REQUEST_VALID OR XRP_DSP_CMD_FLAG_RESPONSE_VALID))"

theorem sim_command_balanced_witness:
  "\<exists>rq st s. xrp_enqueue_command (xrp_private_alloc True True) sample_windows sample_rq 0x6000 64 0x6100 8 (Some sample_group) True (Some 7) None sample_state =
     Some (Inr (rq, st)) \<and> accounted pool_wf pool_free pool_span (sm_pool st)
       [\<lparr>a_start = 0x1000, a_size = 0x1000, a_ref = 1\<rparr>, \<lparr>a_start = 0x2000, a_size = 0x1000, a_ref = 1\<rparr>] \<and>
     sm_group_refs st = 2 \<and>
     xrp_queue_process xrp_private_free sample_dsp sample_windows sample_description rq sample_group st = Some s \<and>
     accounted pool_wf pool_free pool_span (sm_pool s) [] \<and> sm_group_refs s = 1 \<and> event_signalled (Some 7) st s"
proof -
  obtain rq st where run: "xrp_enqueue_command (xrp_private_alloc True True) sample_windows sample_rq 0x6000 64 0x6100 8 (Some sample_group) True (Some 7) None
      sample_state = Some (Inr (rq, st))" and q: "sq_user rq = [Some \<lparr>a_start = 0x2000, a_size = 0x1000, a_ref = 1\<rparr>]"
      "sq_in_alloc rq = Some \<lparr>a_start = 0x1000, a_size = 0x1000, a_ref = 1\<rparr>" "sq_n_buffers rq = 1" "sq_in_data_size rq = 64" "sq_out_data_size rq = 8"
      "sm_events st 7 \<noteq> None"
    using sample_accepted by blast
  have a: "accounted pool_wf pool_free pool_span (sm_pool sample_state) []"
    by (simp add: accounted_def tiles_def pool_wf_def pool_free_def pool_span_def free_set_def bytes_def sample_defs)
  have z: "sizes_ok request_fits 64 8 (Some sample_group)"
    by (simp add: sizes_ok_def request_fits_def eff_align_def eff_size_def round_up_def records_def sample_defs layout_simps)
  have c: "windows_cover sample_windows (pool_span (sm_pool sample_state))" "\<not> sm_locked sample_state" "sm_group_refs sample_state = 1"
    using sample_covered by (simp_all add: sample_state_def)
  have d: "irq_mapped sample_windows sample_description" "sample_dsp m \<noteq> None" for m
    by (simp_all add: irq_mapped_def sample_description_def empty_description_def sample_dsp_def)
  note e = sim_command_balanced [OF a z c(2,1) d run]
  have l: "rq_allocs rq = [\<lparr>a_start = 0x1000, a_size = 0x1000, a_ref = 1\<rparr>, \<lparr>a_start = 0x2000, a_size = 0x1000, a_ref = 1\<rparr>]"
    by (simp add: rq_allocs_def held_if_def q layout_simps)
  have g: "map (sb_device \<circ> fst) (take (sq_n_buffers rq) sample_group) = map (sb_device \<circ> fst) (records (Some sample_group))"
    by (simp add: q records_def sample_group_def)
  obtain s where "xrp_queue_process xrp_private_free sample_dsp sample_windows sample_description rq sample_group st = Some s"
      "accounted pool_wf pool_free pool_span (sm_pool s) []" "sm_group_refs s = sm_group_refs st - 1" "event_signalled (Some 7) st s"
    using e g q(6) by force
  with e run show ?thesis using c(3) unfolding l by force
qed

lemma stage_in_inline: "in_sz \<le> XRP_DSP_CMD_INLINE_DATA_SIZE \<Longrightarrow> \<exists>s. stage_in al shm in_data in_sz rq st = Some (Inr (rq, s)) \<and> sm_pool s = sm_pool st \<and> same_books st s"
  by (auto simp: stage_in_def Let_def not_less [symmetric])

lemma stage_out_inline: "out_sz \<le> XRP_DSP_CMD_INLINE_DATA_SIZE \<Longrightarrow>
    \<exists>p s. stage_out al shm out_sz rq st = Some (Inr (rq\<lparr>sq_out_data_ptr := p\<rparr>, s)) \<and> sm_pool s = sm_pool st \<and> same_books st s"
  by (auto simp: stage_out_def Let_def not_less [symmetric])

text \<open>A command whose data fits reaches the lock of its group.\<close>

lemma enqueue_inline:
  assumes "in_sz \<le> XRP_DSP_CMD_INLINE_DATA_SIZE" and "out_sz \<le> XRP_DSP_CMD_INLINE_DATA_SIZE"
  shows "\<exists>r s. xrp_enqueue_command al shm rq in_data in_sz out_data out_sz (Some g) evt ev nsid st = do {
      s \<leftarrow> lock_group (Some g) s;
      sim_then (stage_descriptors al shm r s) (\<lambda>rq s. sim_then (stage_buffers al shm 0 g rq s) (\<lambda>rq s.
        sim_then (stage_event evt ev rq (unlock_group (Some g) s)) (stage_flags nsid))) } \<and>
    sq_group r = Some g \<and> sm_pool s = sm_pool st \<and> sm_locked s = sm_locked st \<and> sm_group_refs s = sm_group_refs st + 1"
proof -
  define r0 where "r0 = rq\<lparr>sq_in_data_size := in_sz, sq_out_data := out_data, sq_out_data_size := out_sz, sq_group := Some g\<rparr>"
  define s0 where "s0 = st\<lparr>sm_group_refs := sm_group_refs st + 1\<rparr>"
  obtain s1 where 1: "stage_in al shm in_data in_sz r0 s0 = Some (Inr (r0, s1))" "sm_pool s1 = sm_pool s0" "same_books s0 s1"
    using stage_in_inline [OF assms(1)] by blast
  obtain p s2 where 2: "stage_out al shm out_sz r0 s1 = Some (Inr (r0\<lparr>sq_out_data_ptr := p\<rparr>, s2))" "sm_pool s2 = sm_pool s1" "same_books s1 s2"
    using stage_out_inline [OF assms(2)] by blast
  have "xrp_enqueue_command al shm rq in_data in_sz out_data out_sz (Some g) evt ev nsid st =
      sim_then (stage_in al shm in_data in_sz r0 s0) (\<lambda>rq s. sim_then (stage_out al shm out_sz rq s) (\<lambda>rq s. do {
        s \<leftarrow> lock_group (Some g) s;
        sim_then (stage_descriptors al shm rq s) (\<lambda>rq s. sim_then (stage_buffers al shm 0 g rq s) (\<lambda>rq s.
          sim_then (stage_event evt ev rq (unlock_group (Some g) s)) (stage_flags nsid))) }))"
    by (simp add: xrp_enqueue_command_def Let_def r0_def s0_def records_def)
  then have run: "xrp_enqueue_command al shm rq in_data in_sz out_data out_sz (Some g) evt ev nsid st = do {
      s \<leftarrow> lock_group (Some g) s2;
      sim_then (stage_descriptors al shm (r0\<lparr>sq_out_data_ptr := p\<rparr>) s) (\<lambda>rq s. sim_then (stage_buffers al shm 0 g rq s) (\<lambda>rq s.
        sim_then (stage_event evt ev rq (unlock_group (Some g) s)) (stage_flags nsid))) }"
    unfolding 1(1) 2(1) sim_then_ok .
  have "sq_group (r0\<lparr>sq_out_data_ptr := p\<rparr>) = Some g" "sm_pool s2 = sm_pool st" "sm_locked s2 = sm_locked st" "sm_group_refs s2 = sm_group_refs st + 1"
    using 1(2,3) 2(2,3) by (simp_all add: r0_def s0_def same_books_def)
  with run show ?thesis by blast
qed

text \<open>
  C38: a refused command of the simulator library.  When there is no room for the copy of a buffer, \<open>xrp_enqueue_command\<close> returns
  with the group still locked and a reference to it never released.  The next command with this group whose data fits
  does not return.
\<close>

theorem sim_refused_command_locks:
  assumes "\<not> sm_locked st" and "in_sz \<le> XRP_DSP_CMD_INLINE_DATA_SIZE" and "out_sz \<le> XRP_DSP_CMD_INLINE_DATA_SIZE"
    and "\<not> sb_device b" and "sb_map_count b = 0" and "al (sm_pool st) (sb_size b) 0x10 = (Inl e, p)"
    and "in_sz2 \<le> XRP_DSP_CMD_INLINE_DATA_SIZE" and "out_sz2 \<le> XRP_DSP_CMD_INLINE_DATA_SIZE"
  shows "\<exists>st'. xrp_enqueue_command al shm rq in_data in_sz out_data out_sz (Some [(b, fl)]) evt ev nsid st = Some (Inl st') \<and>
    sm_locked st' \<and> sm_group_refs st' = sm_group_refs st + 1 \<and>
    xrp_enqueue_command al shm rq2 in_data2 in_sz2 out_data2 out_sz2 (Some [(b, fl)]) evt2 ev2 nsid2 st' = None"
proof -
  obtain r s where 1: "xrp_enqueue_command al shm rq in_data in_sz out_data out_sz (Some [(b, fl)]) evt ev nsid st = do {
      s \<leftarrow> lock_group (Some [(b, fl)]) s;
      sim_then (stage_descriptors al shm r s) (\<lambda>rq s. sim_then (stage_buffers al shm 0 [(b, fl)] rq s) (\<lambda>rq s.
        sim_then (stage_event evt ev rq (unlock_group (Some [(b, fl)]) s)) (stage_flags nsid))) }"
      "sq_group r = Some [(b, fl)]" "sm_pool s = sm_pool st" "sm_locked s = sm_locked st" "sm_group_refs s = sm_group_refs st + 1"
    using enqueue_inline [OF assms(2,3)] by blast
  obtain r4 s4 where 4: "stage_descriptors al shm r (s\<lparr>sm_locked := True\<rparr>) = Some (Inr (r4, s4))" "sm_pool s4 = sm_pool st" "sm_locked s4"
      "sm_group_refs s4 = sm_group_refs st + 1"
    using 1(2,3,5) by (auto simp: stage_descriptors_def records_def XRP_DSP_CMD_INLINE_BUFFER_COUNT_def Let_def)
  have "xrp_enqueue_command al shm rq in_data in_sz out_data out_sz (Some [(b, fl)]) evt ev nsid st = Some (Inl (s4\<lparr>sm_pool := p\<rparr>))"
    using assms(1,4-6) 1 4 by (simp add: lock_group_def sim_then_def stage_buffer_def)
  moreover have "xrp_enqueue_command al shm rq2 in_data2 in_sz2 out_data2 out_sz2 (Some [(b, fl)]) evt2 ev2 nsid2 (s4\<lparr>sm_pool := p\<rparr>) = None"
    using enqueue_inline [OF assms(7,8), of al shm rq2 in_data2 out_data2 "[(b, fl)]" evt2 ev2 nsid2 "s4\<lparr>sm_pool := p\<rparr>"] 4(3)
    by (auto simp: lock_group_def)
  ultimately show ?thesis using 4 by auto
qed

theorem sim_refused_command_locks_witness:
  "\<exists>st. xrp_enqueue_command (xrp_private_alloc True True) sample_windows sample_rq 0x6000 8 0x6100 8
      (Some [((fst (hd sample_group))\<lparr>sb_size := 0x5000\<rparr>, 3)]) True (Some 7) None sample_state = Some (Inl st) \<and> sm_locked st \<and>
     xrp_enqueue_command (xrp_private_alloc True True) sample_windows sample_rq 0x6000 8 0x6100 8
      (Some [((fst (hd sample_group))\<lparr>sb_size := 0x5000\<rparr>, 3)]) True (Some 8) None st = None"
proof -
  have "xrp_private_alloc True True (sm_pool sample_state) 0x5000 0x10 = (Inl ENOMEM, sample_sim_pool)"
    by (simp add: sample_defs xrp_private_alloc_def ALIGN_def PAGE_SIZE_def)
  then show ?thesis
    using sim_refused_command_locks [of sample_state 8 8 "(fst (hd sample_group))\<lparr>sb_size := 0x5000\<rparr>" "xrp_private_alloc True True" ENOMEM sample_sim_pool 8 8
        sample_windows sample_rq "0x6000" "0x6100" 3 True "Some 7" None sample_rq "0x6000" "0x6100" True "Some 8" None]
    by (auto simp: sample_state_def sample_group_def layout_simps)
qed

text \<open>
  Without an event the field of the request keeps what \<open>malloc\<close> left there, and the command is processed with it: if that is the address of
  no event, the access is invalid.
\<close>

lemma free_if_events: "free_if fr c a st = Some st' \<Longrightarrow> sm_events st' = sm_events st"
  by (auto simp: free_if_def bind_eq_Some_conv split: if_split_asm)

lemma finish_buffer_events: "finish_buffer fr shm rq i b st = Some st' \<Longrightarrow> sm_events st' = sm_events st"
  by (auto simp: finish_buffer_def bind_eq_Some_conv split: if_split_asm dest!: free_if_events)

lemma finish_buffers_events: "finish_buffers fr shm rq i rs st = Some st' \<Longrightarrow> sm_events st' = sm_events st"
  by (induction rs arbitrary: i st) (auto simp: bind_eq_Some_conv dest: finish_buffer_events)

lemma dangling_event_used:
  assumes "sq_event rq = Some e" and "sm_events st e = None"
  shows "xrp_queue_process fr dsp shm d rq now st = None"
proof (rule ccontr)
  assume "xrp_queue_process fr dsp shm d rq now st \<noteq> None"
  then obtain m s1 s2 s3 s4 s5 where "free_if fr (sq_in_data_size rq > XRP_DSP_CMD_INLINE_DATA_SIZE) (sq_in_alloc rq) (st\<lparr>sm_mem := m\<rparr>) = Some s1"
      "free_if fr (sq_out_data_size rq > XRP_DSP_CMD_INLINE_DATA_SIZE) (sq_out_alloc rq) s1 = Some s2" "lock_group (sq_group rq) s2 = Some s3"
      "finish_buffers fr shm rq 0 (take (sq_n_buffers rq) now) s3 = Some s4"
      "free_if fr (sq_n_buffers rq > unat XRP_DSP_CMD_INLINE_BUFFER_COUNT) (sq_buf_alloc rq) s4 = Some s5"
      and fin: "finish_event rq (let s = unlock_group (sq_group rq) s5 in
        if sq_group rq = None then s else s\<lparr>sm_group_refs := sm_group_refs s - 1\<rparr>) \<noteq> None"
    by (auto simp: xrp_queue_process_def bind_eq_Some_conv Let_def)
  then have "sm_events s5 = sm_events st"
    using free_if_events finish_buffers_events lock_books by (metis (no_types, lifting) sim.select_convs(5) sim.surjective sim.update_convs(1))
  with fin assms show False by (cases "sq_group rq") (auto simp: finish_event_def Let_def)
qed

lemma sim_uninitialised_event:
  assumes "xrp_enqueue_command (xrp_private_alloc True True) shm rq in_data in_sz out_data out_sz grp False ev nsid st = Some (Inr (rq', st'))"
    and "accounted pool_wf pool_free pool_span (sm_pool st) live" and "sizes_ok request_fits in_sz out_sz grp"
    and "sq_event rq = Some e" and "sm_events s e = None"
  shows "xrp_queue_process xrp_private_free dsp shm d rq' now s = None"
  using priv.enqueue_command_ok [OF assms(2,3,1)] assms(4,5) by (intro dangling_event_used) auto

text \<open>A mapping can be undone with the pointer that \<open>xrp_map_buffer\<close> returned, if the buffer does not wrap around; only the flags stay.\<close>

lemma sim_map_unmap:
  assumes "xrp_map_buffer b offset sz fl = (b', Some q)" and "0 < sb_ref b" and "unat (sb_ptr b) + unat (sb_size b) < 2 ^ 32"
  shows "xrp_unmap_buffer fr b' q p = ((Some (b\<lparr>sb_map_flags := sb_map_flags b OR fl\<rparr>), p), XRP_STATUS_SUCCESS)"
proof -
  have b': "b' = b\<lparr>sb_ref := sb_ref b + 1, sb_map_count := sb_map_count b + 1, sb_map_flags := sb_map_flags b OR fl\<rparr>" "q = sb_ptr b + offset"
    and off: "offset \<le> sb_size b"
    using assms(1) by (auto simp: xrp_map_buffer_def split: if_split_asm)
  have "unat offset \<le> unat (sb_size b)" using off by (simp add: word_le_nat_alt)
  then have "unat (sb_ptr b + offset) = unat (sb_ptr b) + unat offset" using assms(3) by (intro unat_add_lem [THEN iffD1]) simp
  then have "sb_ptr b \<le> sb_ptr b + offset" by (simp add: word_le_nat_alt)
  with off assms(2) show ?thesis by (simp add: xrp_unmap_buffer_def xrp_release_buffer_def b' Let_def)
qed

lemma sim_buffer_lifetime:
  assumes "accounted pool_wf pool_free pool_span p live" and "request_fits sz 0x10"
    and "xrp_create_buffer (xrp_private_alloc True True) shm True True sz None p = (Some b, p1)"
  shows "accounted pool_wf pool_free pool_span p1 (sb_alloc b # live) \<and>
    fst (xrp_release_buffer xrp_private_free b p1) = None \<and> accounted pool_wf pool_free pool_span (snd (xrp_release_buffer xrp_private_free b p1)) live"
proof -
  note c = priv.create_buffer_ok [OF assms]
  have "0 < sb_ref b" using c by simp
  from priv.release_buffer_ok [OF conjunct1 [OF c] this surjective_pairing] show ?thesis using c by (auto simp: held_if_def)
qed

end
