(* ===== verification/Spec2Isabelle.thy ===== *)
theory Spec2Isabelle
  imports XRP_Handshake XRP_Protocol XRP_Kernel_File XRP_Host_Commands XRP_Host_Buffers XRP_Sim_Command
begin

text \<open>
  XRP (Xtensa Remote Processing): programs on a host offload commands to DSP cores through shared memory.  This
  theory collects the development; every component has a theory of its own.  Paths are relative to \<^verbatim>\<open>src/\<close>.

  \<^bold>\<open>The program.\<close>  A program calls the host library (\<^verbatim>\<open>xrp_api.h\<close>).  On Linux the library
  (\<^verbatim>\<open>xrp-linux-native/\<close>) passes every command with an \<open>ioctl\<close> to the kernel driver (\<^verbatim>\<open>xrp-kernel/\<close>).  The driver makes the
  user's data visible to the DSP, in place or as a copy in memory of its own pool, writes the command into the communication
  area, interrupts the DSP and waits.  The DSP library (\<^verbatim>\<open>xrp-dsp/\<close>) decodes the command, calls the handler that is
  registered for its namespace and answers.  Before that, the driver loads the firmware of the DSP and both sides synchronise.  For the
  simulator there is a host library without a driver (\<^verbatim>\<open>xrp-linux-sim/\<close>), which does all of this in the process.

  \<^bold>\<open>Conventions.\<close>  Integers keep their width: the host has 32 bits, and \<open>u32\<close> wraps around as in C; sizes of 64 bits
  are \<open>64 word\<close>.  Memory is a function from addresses to bytes.  An error of the code is a value (\<open>errno + 'a\<close>, a status); \<open>None\<close>
  of the type around it says that the code would use memory that is not there or would never return, so a
  theorem with \<open>Some\<close> in its conclusion says that the code returns.  What the kernel, the C library, libfdt, the
  hardware and user code do is a parameter, and a law that a theorem needs of it is a hypothesis; the witness of the theorem gives an
  instance.  Outcomes of memory allocations are arguments, so that every failure is a branch.

  \<^bold>\<open>Memory of the driver.\<close>
  \<^item> \<^verbatim>\<open>XRP_Prelude\<close>: types, error codes, words and rounding.
  \<^item> \<^verbatim>\<open>XRP_Alloc\<close>: the private pool, \<^verbatim>\<open>xrp-kernel/xrp_alloc.c\<close> (\<open>xrp_private_alloc\<close>, \<open>xrp_private_free\<close>,
    \<open>xrp_init_private_pool\<close>).  The free list is a list of blocks.  Shown: its invariant, the exact effect of both operations on the set
    of free bytes, first fit, completeness of the search, and when memory is lost.
  \<^item> \<^verbatim>\<open>XRP_Pool\<close>: the interface \<^verbatim>\<open>xrp-kernel/xrp_alloc.h\<close> as the locale \<open>allocation_pool\<close>, interpreted on the private pool;
    reference counts; the CMA pool \<^verbatim>\<open>xrp-kernel/xrp_cma_alloc.c\<close>.  Shown: live allocations and free memory
    partition the pool under every sequence of operations.
  \<^item> \<^verbatim>\<open>XRP_Address_Map\<close>: \<^verbatim>\<open>xrp-kernel/xrp_address_map.c\<close>, host to DSP addresses (locale \<open>address_lookup\<close>).  Shown:
    initialisation and binary search translate as the device tree says.

  \<^bold>\<open>Interface of host and DSP.\<close>
  \<^item> \<^verbatim>\<open>XRP_Interface\<close>: codes and layout, \<^verbatim>\<open>xrp-kernel/xrp_kernel_dsp_interface.h\<close> and \<^verbatim>\<open>xrp_api.h\<close>.
  \<^item> \<^verbatim>\<open>XRP_Comm\<close>: access to the communication area in whole words, \<^verbatim>\<open>xrp-kernel/xvp_main.c\<close>.
  \<^item> \<^verbatim>\<open>XRP_Hw\<close>: the back ends \<^verbatim>\<open>xrp-kernel/xrp_hw_simple.c\<close> and \<^verbatim>\<open>xrp-dsp/xrp_dsp_hw_simple.c\<close>.  Shown: both
    sides use the same registers, bits and modes.
  \<^item> \<^verbatim>\<open>XRP_Handshake\<close>: \<open>xrp_synchronize\<close> and \<open>do_handshake\<close> as interleaved steps.  Shown: safety with timeouts, and
    termination within 29 steps without.

  \<^bold>\<open>DSP library\<close> (\<^verbatim>\<open>xrp-dsp/xrp_dsp.c\<close>).
  \<^item> \<^verbatim>\<open>XRP_Dsp_Ns\<close>: the table of namespaces (locale \<open>namespace_table\<close>).  Shown: it refines a finite map.
  \<^item> \<^verbatim>\<open>XRP_Dsp\<close>: buffers, groups, \<open>process_command\<close>, \<open>xrp_device_dispatch\<close>.  Shown: a request is answered once, with
    the outcome of the handler, and access stays within what the host allowed.

  \<^bold>\<open>Kernel driver\<close> (\<^verbatim>\<open>xrp-kernel/xvp_main.c\<close>).
  \<^item> \<^verbatim>\<open>XRP_Firmware\<close>: \<^verbatim>\<open>xrp-kernel/xrp_firmware.c\<close>.  Shown: valid segments are placed completely, fixing up stays within the
    image; and which segments go wrong.
  \<^item> \<^verbatim>\<open>XRP_Kernel_Boot\<close>: boot, suspend, resume, initialisation and its clean-up.
  \<^item> \<^verbatim>\<open>XRP_Kernel_Mem\<close>, \<^verbatim>\<open>XRP_Sharing\<close>: sharing of user memory (\<open>__xrp_share_block\<close>, \<open>__xrp_unshare_block\<close>, \<open>xrp_share_kernel\<close>).
    Shown: references and pins are those of the live mappings; what is shared in place is contiguous; copies hold
    and return the data.
  \<^item> \<^verbatim>\<open>XRP_Kernel_Request\<close>, \<^verbatim>\<open>XRP_Submit\<close>: a command from \<open>xrp_ioctl_submit_sync\<close> to its result (locale
    \<open>mapping_ledger\<close>).  Shown: the books are balanced on every path, if the request starts out empty.
  \<^item> \<^verbatim>\<open>XRP_Kernel_File\<close>: the device file, \<open>xrp_ioctl_alloc\<close>, \<open>xvp_mmap\<close>, \<open>xvp_close\<close> and the others.  Shown: a memory area
    never outlives its memory, over every sequence of operations and submissions.
  \<^item> \<^verbatim>\<open>XRP_Protocol\<close>: driver and DSP library together.  Shown: the DSP decodes what the driver encoded, and the
    driver reports what the handler did.

  \<^bold>\<open>Host libraries.\<close>
  \<^item> \<^verbatim>\<open>XRP_Host_Native\<close>: \<^verbatim>\<open>xrp-linux-native/xrp_linux_native.c\<close> on a heap with reference counts.
  \<^item> \<^verbatim>\<open>XRP_Host_Queue\<close>, \<^verbatim>\<open>XRP_Host_Run\<close>: the linked queue refines a list (locale \<open>request_fifo\<close>); client and worker as
    interleaved steps with the invariant that accounts for every reference.
  \<^item> \<^verbatim>\<open>XRP_Host_Commands\<close>, \<^verbatim>\<open>XRP_Host_Buffers\<close>: order of completion, no use of released objects, waiting ends, a
    synchronous command is balanced; groups keep their buffers; what the worker drops.
  \<^item> \<^verbatim>\<open>XRP_Host_Sim\<close>, \<^verbatim>\<open>XRP_Sim_Command\<close>: \<^verbatim>\<open>xrp-linux-sim/xrp_linux_sim.c\<close>.  Shown: translation between the addresses of process and
    device is invertible; a command takes from the pool what it needs and returns all of it, whatever happens in between; and what
    a refused command leaves behind.  The lemmas are proved for every \<open>allocation_pool\<close>.

  \<^bold>\<open>Bounds.\<close>  Loops over lists are structural.  The loops of the firmware loader take fuel: a segment in system memory needs one
  round per page, the symbol search one per symbol.  A segment in device memory needs none, and the lemmas about one and two pages of
  system memory say how many rounds they take; what the fixup may change holds for every fuel.  Loops that wait for the other side (\<open>sync_spin\<close>, the waiting of the driver) are partial functions or
  step relations; that they end is a theorem about the behaviour of the other side.  Counts of references are natural
  numbers: to wrap around there would have to be more references than addresses.

  \<^bold>\<open>Atomicity.\<close>  What the code does under one lock is one step.  The handshake, the native library and the operations on the device file
  are interleaved at that grain; memory accesses are in program order, as the barriers of the code ask for.  The pool of the simulator
  library has no lock outside the kernel; its operations are steps in the model all the same.

  \<^bold>\<open>Not modelled.\<close>
  \<^item> Module, platform and device-tree registration (\<open>xrp_hw_simple\<close>'s probe, \<open>xrp_probe\<close>, \<open>xvp_main.c\<close> from line 1796):
    calls of the kernel without a state of the program.
  \<^item> Cache maintenance (\<^verbatim>\<open>xrp_hw_simple.c\<close> lines 160--223): it has no effect on a memory without caches.
  \<^item> The endless loop of \<^verbatim>\<open>xrp-dsp/xrp_dsp_framework.c\<close> around \<open>xrp_device_dispatch\<close>.
  \<^item> Of the simulator library: threads, and the groups, queues and events that it has in common with the native
    library, where they are modelled.
  \<^item> The examples (\<^verbatim>\<open>xrp-example/\<close>), tests (\<^verbatim>\<open>xrp-kernel/test/\<close>) and build files: clients that print and compare, no part of the system.
\<close>

end
